(* ===== verification/Prelude.thy ===== *)
theory Prelude
  imports
    Main
    "HOL-Library.Word"
    "HOL-Library.Char_ord"
    "HOL-Library.List_Lexorder"
    "HOL-Library.Product_Lexorder"
begin

text \<open>
  What the components share: the machine integers and byte strings of the Rust sources, the
  arithmetic of the standard library that the sources use on them (checked and saturating
  operations, big-endian bytes, decimal printing), \<open>Result\<close> with the question-mark operator,
  loops that stop at the first error, ordered maps, and the codec interface with its
  fixed-width refinement.

  The collections: \<open>result_simps\<close> turns a successful \<open>Result\<close> computation into the facts its
  guards established; \<open>u64_simps\<close> moves statements about \<open>u64\<close> to natural numbers.
\<close>

named_theorems result_simps \<open>success of a Result computation as the conjunction of its guards\<close>
named_theorems u64_simps \<open>u64 order and successor as facts on natural numbers\<close>

section \<open>Machine integers, bytes and strings\<close>

type_synonym u8 = "8 word"
type_synonym u32 = "32 word"
type_synonym u64 = "64 word"
type_synonym i32 = "32 word"
type_synonym i64 = "64 word"
type_synonym usize = nat
type_synonym bytes = "u8 list"

text \<open>
  An \<open>i64\<close> is the same 64 bits as a \<open>u64\<close>, read with \<^const>\<open>sint\<close>. A Rust \<open>String\<close> is a
  \<^typ>\<open>string\<close>, one \<^typ>\<open>char\<close> per UTF-8 byte, so its order is the byte order of the
  sources. A \<open>usize\<close> that only counts is a natural number.
\<close>

abbreviation u64_max :: u64 where
  "u64_max \<equiv> - 1"

abbreviation usize_max :: usize where
  "usize_max \<equiv> 18446744073709551615"

definition checked_add :: "'a::len word \<Rightarrow> 'a word \<Rightarrow> 'a word option" where
  "checked_add x y = (if unat x + unat y < 2 ^ LENGTH('a) then Some (x + y) else None)"

definition checked_sub :: "'a::len word \<Rightarrow> 'a word \<Rightarrow> 'a word option" where
  "checked_sub x y = (if y \<le> x then Some (x - y) else None)"

definition saturating_add :: "'a::len word \<Rightarrow> 'a word \<Rightarrow> 'a word" where
  "saturating_add x y = (if unat x + unat y < 2 ^ LENGTH('a) then x + y else - 1)"

definition saturating_sub :: "'a::len word \<Rightarrow> 'a word \<Rightarrow> 'a word" where
  "saturating_sub x y = (if y \<le> x then x - y else 0)"

definition i64_try_from_u64 :: "u64 \<Rightarrow> i64 option" where
  "i64_try_from_u64 x = (if unat x < 2 ^ 63 then Some x else None)"

definition u64_try_from_i64 :: "i64 \<Rightarrow> u64 option" where
  "u64_try_from_i64 x = (if 0 \<le> sint x then Some x else None)"

definition usize_saturating_add :: "usize \<Rightarrow> usize \<Rightarrow> usize" where
  "usize_saturating_add x y = min (x + y) usize_max"

definition usize_saturating_mul :: "usize \<Rightarrow> usize \<Rightarrow> usize" where
  "usize_saturating_mul x y = min (x * y) usize_max"

fun be_bytes :: "nat \<Rightarrow> nat \<Rightarrow> bytes" where
  "be_bytes 0 n = []"
| "be_bytes (Suc k) n = be_bytes k (n div 256) @ [of_nat (n mod 256)]"

definition from_be_bytes :: "bytes \<Rightarrow> nat" where
  "from_be_bytes bs = foldl (\<lambda>acc b. acc * 256 + unat b) 0 bs"

definition u64_to_be_bytes :: "u64 \<Rightarrow> bytes" where
  "u64_to_be_bytes x = be_bytes 8 (unat x)"

definition u64_from_be_bytes :: "bytes \<Rightarrow> u64" where
  "u64_from_be_bytes bs = of_nat (from_be_bytes bs)"

definition u32_to_be_bytes :: "u32 \<Rightarrow> bytes" where
  "u32_to_be_bytes x = be_bytes 4 (unat x)"

definition u32_from_be_bytes :: "bytes \<Rightarrow> u32" where
  "u32_from_be_bytes bs = of_nat (from_be_bytes bs)"

fun decimal :: "nat \<Rightarrow> string" where
  "decimal n = (if n < 10 then [char_of (48 + n)] else decimal (n div 10) @ [char_of (48 + n mod 10)])"

declare decimal.simps [simp del]

definition parse_decimal :: "string \<Rightarrow> nat" where
  "parse_decimal s = foldl (\<lambda>acc c. acc * 10 + (of_char c - 48)) 0 s"

definition as_bytes :: "string \<Rightarrow> bytes" where
  "as_bytes s = map (\<lambda>c. of_nat (of_char c)) s"

section \<open>Result and loops with early return\<close>

abbreviation Ok :: "'a \<Rightarrow> 'e + 'a" where
  "Ok \<equiv> Inr"

abbreviation Err :: "'e \<Rightarrow> 'e + 'a" where
  "Err \<equiv> Inl"

definition bind_res :: "'e + 'a \<Rightarrow> ('a \<Rightarrow> 'e + 'b) \<Rightarrow> 'e + 'b" where
  "bind_res m f = (case m of Inl e \<Rightarrow> Inl e | Inr x \<Rightarrow> f x)"

definition map_err :: "('e \<Rightarrow> 'f) \<Rightarrow> 'e + 'a \<Rightarrow> 'f + 'a" where
  "map_err g m = (case m of Inl e \<Rightarrow> Inl (g e) | Inr x \<Rightarrow> Inr x)"

definition ok_or :: "'a option \<Rightarrow> 'e \<Rightarrow> 'e + 'a" where
  "ok_or m e = (case m of None \<Rightarrow> Inl e | Some x \<Rightarrow> Inr x)"

definition ensure :: "bool \<Rightarrow> 'e \<Rightarrow> 'e + unit" where
  "ensure b e = (if b then Inr () else Inl e)"

definition is_ok :: "'e + 'a \<Rightarrow> bool" where
  "is_ok m = (case m of Inl _ \<Rightarrow> False | Inr _ \<Rightarrow> True)"

fun map_res :: "('a \<Rightarrow> 'e + 'b) \<Rightarrow> 'a list \<Rightarrow> 'e + 'b list" where
  "map_res f [] = Inr []"
| "map_res f (x # xs) = bind_res (f x) (\<lambda>y. bind_res (map_res f xs) (\<lambda>ys. Inr (y # ys)))"

fun fold_res :: "('a \<Rightarrow> 's \<Rightarrow> 'e + 's) \<Rightarrow> 'a list \<Rightarrow> 's \<Rightarrow> 'e + 's" where
  "fold_res f [] s = Inr s"
| "fold_res f (x # xs) s = bind_res (f x s) (\<lambda>s'. fold_res f xs s')"

definition is_some_and :: "('a \<Rightarrow> bool) \<Rightarrow> 'a option \<Rightarrow> bool" where
  "is_some_and p m = (case m of None \<Rightarrow> False | Some x \<Rightarrow> p x)"

definition is_none_or :: "('a \<Rightarrow> bool) \<Rightarrow> 'a option \<Rightarrow> bool" where
  "is_none_or p m = (case m of None \<Rightarrow> True | Some x \<Rightarrow> p x)"

definition or_else :: "'a option \<Rightarrow> 'a option \<Rightarrow> 'a option" where
  "or_else m m' = (case m of None \<Rightarrow> m' | Some x \<Rightarrow> Some x)"

fun last_opt :: "'a list \<Rightarrow> 'a option" where
  "last_opt [] = None"
| "last_opt (x # xs) = (if xs = [] then Some x else last_opt xs)"

definition first_opt :: "'a list \<Rightarrow> 'a option" where
  "first_opt xs = (case xs of [] \<Rightarrow> None | x # _ \<Rightarrow> Some x)"

section \<open>Ordered maps (BTreeMap) as sorted association lists\<close>

fun btree_insert :: "'k::linorder \<Rightarrow> 'v \<Rightarrow> ('k \<times> 'v) list \<Rightarrow> ('k \<times> 'v) list" where
  "btree_insert k v [] = [(k, v)]"
| "btree_insert k v ((k', v') # m) =
     (if k < k' then (k, v) # (k', v') # m
      else if k = k' then (k, v) # m
      else (k', v') # btree_insert k v m)"

definition btree_ok :: "('k::linorder \<times> 'v) list \<Rightarrow> bool" where
  "btree_ok m \<longleftrightarrow> sorted_wrt (<) (map fst m)"

section \<open>Lemmas on machine integers\<close>

lemma unat_u64_bound: "unat (x :: u64) < 18446744073709551616"
  using unsigned_less [of x, where ?'a = nat] by simp

lemma u64_succ_iff [u64_simps]: "checked_add (x :: u64) 1 = Some y \<longleftrightarrow> unat y = Suc (unat x)"
proof
  assume "checked_add x 1 = Some y"
  then have lt: "Suc (unat x) < 18446744073709551616" and y: "y = x + 1"
    by (auto simp: checked_add_def split: if_splits)
  from lt y show "unat y = Suc (unat x)" by (simp add: unat_word_ariths)
next
  assume eq: "unat y = Suc (unat x)"
  then have lt: "Suc (unat x) < 18446744073709551616" using unat_u64_bound [of y] by simp
  then have "unat (x + 1) = Suc (unat x)" by (simp add: unat_word_ariths)
  with eq have "y = x + 1" by (simp add: word_unat_eq_iff)
  with lt show "checked_add x 1 = Some y" by (simp add: checked_add_def)
qed

lemma unat_u64_max [simp]: "unat u64_max = 18446744073709551615"
  by (simp add: unsigned_minus_1_eq_mask mask_eq_exp_minus_1)

lemma u64_succ_none [u64_simps]: "checked_add (x :: u64) 1 = None \<longleftrightarrow> x = u64_max"
proof -
  have "Suc (unat x) < 18446744073709551616 \<longleftrightarrow> x \<noteq> u64_max"
    using unat_u64_bound [of x] by (auto simp: word_unat_eq_iff)
  then show ?thesis by (auto simp: checked_add_def split: if_splits)
qed

lemma u64_pred_iff [u64_simps]: "checked_sub (x :: u64) 1 = Some y \<longleftrightarrow> unat x = Suc (unat y)"
proof (cases "x = 0")
  case True
  then show ?thesis by (simp add: checked_sub_def)
next
  case False
  then have le: "1 \<le> x" and pos: "0 < unat x"
    by (simp_all add: word_le_nat_alt unat_gt_0 Suc_leI)
  then have "unat (x - 1) = unat x - 1"
    by (simp add: unat_sub)
  with le pos show ?thesis
    by (auto simp: checked_sub_def word_unat_eq_iff)
qed

lemma u64_saturating_succ:
  "unat (saturating_add (x :: u64) 1) = (if x = u64_max then unat u64_max else Suc (unat x))"
proof -
  have "Suc (unat x) < 18446744073709551616 \<longleftrightarrow> x \<noteq> u64_max"
    using unat_u64_bound [of x] by (auto simp: word_unat_eq_iff)
  then show ?thesis
    by (auto simp: saturating_add_def unat_word_ariths)
qed

lemma u64_eq_iff: "(x :: u64) = y \<longleftrightarrow> unat x = unat y"
  by (simp add: word_unat_eq_iff)

lemmas u64_order = word_less_nat_alt word_le_nat_alt u64_eq_iff

lemma sint_nonneg_iff: "0 \<le> sint (x :: u64) \<longleftrightarrow> unat x < 9223372036854775808"
proof -
  have eq: "sint x = (uint x + 9223372036854775808) mod 18446744073709551616 - 9223372036854775808"
    using int_word_sint [of "uint x", where ?'a = 64] by simp
  have bounds: "0 \<le> uint x" "uint x < 18446744073709551616"
    using unsigned_less [of x, where ?'a = int] by simp_all
  have "0 \<le> sint x \<longleftrightarrow> uint x < 9223372036854775808"
  proof (cases "uint x < 9223372036854775808")
    case True
    then have "sint x = uint x"
      unfolding eq using bounds by (simp add: mod_pos_pos_trivial)
    with True bounds show ?thesis by simp
  next
    case False
    have "(uint x + 9223372036854775808) mod 18446744073709551616 =
        (uint x + 9223372036854775808 - 18446744073709551616) mod 18446744073709551616"
      by (rule minus_mod_self2 [symmetric])
    with False bounds have "sint x = uint x - 18446744073709551616"
      unfolding eq by (simp add: mod_pos_pos_trivial)
    with False bounds show ?thesis by simp
  qed
  also have "\<dots> \<longleftrightarrow> unat x < 9223372036854775808"
    using uint_nat [of x] by linarith
  finally show ?thesis .
qed

lemma i64_try_from_u64_Some_iff:
  "i64_try_from_u64 x = Some y \<longleftrightarrow> y = x \<and> 0 \<le> sint x"
  by (auto simp: i64_try_from_u64_def sint_nonneg_iff)

lemma u64_try_from_i64_inverse:
  "i64_try_from_u64 x = Some y \<Longrightarrow> u64_try_from_i64 y = Some x"
  by (auto simp: i64_try_from_u64_Some_iff u64_try_from_i64_def)

section \<open>Lemmas on byte strings and decimal numerals\<close>

lemma length_be_bytes [simp]: "length (be_bytes k n) = k"
  by (induction k arbitrary: n) auto

lemma from_be_bytes_snoc [simp]: "from_be_bytes (bs @ [b]) = from_be_bytes bs * 256 + unat b"
  by (simp add: from_be_bytes_def)

lemma from_be_bytes_Nil [simp]: "from_be_bytes [] = 0"
  by (simp add: from_be_bytes_def)

lemma from_be_bytes_be_bytes: "n < 256 ^ k \<Longrightarrow> from_be_bytes (be_bytes k n) = n"
proof (induction k arbitrary: n)
  case 0
  then show ?case by simp
next
  case (Suc k)
  from Suc.prems have "n div 256 < 256 ^ k"
    by (simp add: less_mult_imp_div_less mult.commute)
  then have "from_be_bytes (be_bytes k (n div 256)) = n div 256"
    by (rule Suc.IH)
  moreover have "unat (of_nat (n mod 256) :: u8) = n mod 256"
    by (simp add: unat_of_nat take_bit_eq_mod)
  ultimately show ?case by simp
qed

lemma from_be_bytes_bound: "from_be_bytes bs < 256 ^ length bs"
proof (induction bs rule: rev_induct)
  case Nil
  then show ?case by simp
next
  case (snoc b bs)
  have "unat b < 256" using unsigned_less [of b, where ?'a = nat] by simp
  with snoc show ?case by (simp add: mult.commute)
qed

lemma be_bytes_from_be_bytes: "be_bytes (length bs) (from_be_bytes bs) = bs"
proof (induction bs rule: rev_induct)
  case Nil
  then show ?case by simp
next
  case (snoc b bs)
  have "unat b < 256" using unsigned_less [of b, where ?'a = nat] by simp
  with snoc show ?case by simp
qed

lemma length_u64_to_be_bytes [simp]: "length (u64_to_be_bytes x) = 8"
  by (simp add: u64_to_be_bytes_def)

lemma length_u32_to_be_bytes [simp]: "length (u32_to_be_bytes x) = 4"
  by (simp add: u32_to_be_bytes_def)

lemma u64_be_bytes_roundtrip [simp]: "u64_from_be_bytes (u64_to_be_bytes x) = x"
  using unat_u64_bound [of x]
  by (simp add: u64_from_be_bytes_def u64_to_be_bytes_def from_be_bytes_be_bytes)

lemma u32_be_bytes_roundtrip [simp]: "u32_from_be_bytes (u32_to_be_bytes x) = x"
  using unsigned_less [of x, where ?'a = nat]
  by (simp add: u32_from_be_bytes_def u32_to_be_bytes_def from_be_bytes_be_bytes)

lemma u64_from_be_bytes_inverse: "length bs = 8 \<Longrightarrow> u64_to_be_bytes (u64_from_be_bytes bs) = bs"
  using from_be_bytes_bound [of bs] be_bytes_from_be_bytes [of bs]
  by (simp add: u64_from_be_bytes_def u64_to_be_bytes_def unat_of_nat take_bit_eq_mod)

lemma u32_from_be_bytes_inverse: "length bs = 4 \<Longrightarrow> u32_to_be_bytes (u32_from_be_bytes bs) = bs"
  using from_be_bytes_bound [of bs] be_bytes_from_be_bytes [of bs]
  by (simp add: u32_from_be_bytes_def u32_to_be_bytes_def unat_of_nat take_bit_eq_mod)

lemma u64_to_be_bytes_inject [simp]: "u64_to_be_bytes x = u64_to_be_bytes y \<longleftrightarrow> x = y"
  by (metis u64_be_bytes_roundtrip)

lemma as_bytes_inject [simp]: "as_bytes s = as_bytes t \<longleftrightarrow> s = t"
proof -
  have unat_char: "unat (of_nat (of_char e) :: u8) = of_char e" for e :: char
    by (simp add: unat_of_nat take_bit_eq_mod)
  have "inj (\<lambda>c :: char. of_nat (of_char c) :: u8)"
  proof (rule injI)
    fix c d :: char
    assume "(of_nat (of_char c) :: u8) = of_nat (of_char d)"
    then have "(of_char c :: nat) = of_char d" by (metis unat_char)
    then show "c = d" by simp
  qed
  then show ?thesis by (auto simp: as_bytes_def inj_map_eq_map)
qed

lemma parse_decimal_snoc: "parse_decimal (s @ [c]) = parse_decimal s * 10 + (of_char c - 48)"
  by (simp add: parse_decimal_def)

lemma parse_decimal_decimal: "parse_decimal (decimal n) = n"
proof (induction n rule: decimal.induct)
  case (1 n)
  have digit: "(of_char (char_of (48 + d) :: char) :: nat) = 48 + d" if "d < 10" for d :: nat
    using that by simp
  show ?case
  proof (cases "n < 10")
    case True
    then show ?thesis by (simp add: decimal.simps [of n] parse_decimal_def digit)
  next
    case False
    with 1 show ?thesis by (simp add: decimal.simps [of n] parse_decimal_snoc digit)
  qed
qed

lemma decimal_inject [simp]: "decimal m = decimal n \<longleftrightarrow> m = n"
  by (metis parse_decimal_decimal)

section \<open>Lemmas on Result\<close>

lemma bind_res_simps [simp]:
  "bind_res (Inl e) f = Inl e"
  "bind_res (Inr x) f = f x"
  by (simp_all add: bind_res_def)

lemma bind_res_Ok_iff [result_simps]:
  "bind_res m f = Inr y \<longleftrightarrow> (\<exists>x. m = Inr x \<and> f x = Inr y)"
  by (cases m) simp_all

lemma bind_res_Err_iff:
  "bind_res m f = Inl e \<longleftrightarrow> m = Inl e \<or> (\<exists>x. m = Inr x \<and> f x = Inl e)"
  by (cases m) simp_all

lemma if_Err_Ok_iff [result_simps]:
  "((if b then Inl e else r) = Inr y) \<longleftrightarrow> \<not> b \<and> r = Inr y"
  "((if b then r else Inl e) = Inr y) \<longleftrightarrow> b \<and> r = Inr y"
  by simp_all

lemma ok_or_Ok_iff [result_simps]: "ok_or m e = Inr x \<longleftrightarrow> m = Some x"
  by (cases m) (simp_all add: ok_or_def)

lemma ok_or_simps [simp]: "ok_or (Some x) e = Inr x" "ok_or None e = Inl e"
  by (simp_all add: ok_or_def)

lemma ensure_Ok_iff [result_simps]: "ensure b e = Inr u \<longleftrightarrow> b"
  by (simp add: ensure_def)

lemma ensure_simps [simp]: "ensure True e = Inr ()" "ensure False e = Inl e"
  by (simp_all add: ensure_def)

lemma map_err_simps [simp]: "map_err g (Inl e) = Inl (g e)" "map_err g (Inr x) = Inr x"
  by (simp_all add: map_err_def)

lemma map_err_Ok_iff [result_simps]: "map_err g m = Inr x \<longleftrightarrow> m = Inr x"
  by (cases m) simp_all

lemma is_some_and_simps [simp]:
  "is_some_and p None \<longleftrightarrow> False"
  "is_some_and p (Some x) \<longleftrightarrow> p x"
  by (simp_all add: is_some_and_def)

lemma is_none_or_simps [simp]:
  "is_none_or p None \<longleftrightarrow> True"
  "is_none_or p (Some x) \<longleftrightarrow> p x"
  by (simp_all add: is_none_or_def)

lemma or_else_simps [simp]: "or_else None m = m" "or_else (Some x) m = Some x"
  by (simp_all add: or_else_def)

lemma map_res_Ok_iff: "map_res f xs = Inr ys \<longleftrightarrow> list_all2 (\<lambda>x y. f x = Inr y) xs ys"
  by (induction xs arbitrary: ys) (auto simp: bind_res_Ok_iff list_all2_Cons1)

lemma length_map_res: "map_res f xs = Inr ys \<Longrightarrow> length ys = length xs"
  by (auto simp: map_res_Ok_iff dest: list_all2_lengthD)

lemma map_res_set:
  "map_res f xs = Inr ys \<Longrightarrow>
   set ys = {y. \<exists>x \<in> set xs. f x = Inr y} \<and> (\<forall>x \<in> set xs. \<exists>y. f x = Inr y)"
  by (induction xs arbitrary: ys) (auto simp: bind_res_Ok_iff)

lemma map_res_total: "\<forall>x \<in> set xs. is_ok (f x) \<Longrightarrow> \<exists>ys. map_res f xs = Inr ys"
proof (induction xs)
  case Nil
  then show ?case by simp
next
  case (Cons x xs)
  then obtain y where "f x = Inr y" by (cases "f x") (auto simp: is_ok_def)
  with Cons show ?case by auto
qed

lemma is_ok_iff: "is_ok m \<longleftrightarrow> (\<exists>x. m = Inr x)"
  by (cases m) (simp_all add: is_ok_def)

lemma fold_res_append:
  "fold_res f (xs @ ys) s = bind_res (fold_res f xs s) (fold_res f ys)"
  by (induction xs arbitrary: s) (auto simp: bind_res_def split: sum.splits)

lemma fold_res_Err: "fold_res f xs s = Inl e \<Longrightarrow> \<exists>x \<in> set xs. \<exists>s'. f x s' = Inl e"
  by (induction xs arbitrary: s) (auto simp: bind_res_Err_iff)

lemma fold_res_invariant:
  assumes "fold_res f xs s = Inr t" and "P s"
    and "\<And>x s s'. x \<in> set xs \<Longrightarrow> P s \<Longrightarrow> f x s = Inr s' \<Longrightarrow> P s'"
  shows "P t"
  using assms by (induction xs arbitrary: s) (auto simp: bind_res_Ok_iff)

text \<open>
  The invariant of a loop that also speaks of the elements already processed.
\<close>

lemma fold_res_prefix_invariant:
  assumes "fold_res f xs s = Inr t" and "P [] s"
    and step: "\<And>pre x s s'. P pre s \<Longrightarrow> x \<in> set xs \<Longrightarrow> f x s = Inr s' \<Longrightarrow> P (pre @ [x]) s'"
  shows "P xs t"
proof -
  have "P (pre @ ys) t" if "fold_res f ys s = Inr t" "P pre s" "set ys \<subseteq> set xs" for pre ys s
    using that
  proof (induction ys arbitrary: pre s)
    case Nil
    then show ?case by simp
  next
    case (Cons y ys)
    from Cons.prems(1) obtain s' where y: "f y s = Inr s'" and ys: "fold_res f ys s' = Inr t"
      by (auto simp: bind_res_Ok_iff)
    have sub: "set ys \<subseteq> set xs" using Cons.prems(3) by simp
    have "P (pre @ [y]) s'" using step Cons.prems y by auto
    from Cons.IH [OF ys this sub] show ?case by simp
  qed
  from this [of xs s "[]"] assms(1,2) show ?thesis by simp
qed

section \<open>Lemmas on lists\<close>

lemma last_opt_conv: "last_opt xs = (if xs = [] then None else Some (last xs))"
  by (induction xs) auto

lemma last_opt_None_iff [simp]: "last_opt xs = None \<longleftrightarrow> xs = []"
  by (simp add: last_opt_conv)

lemma last_opt_snoc [simp]: "last_opt (xs @ [x]) = Some x"
  by (simp add: last_opt_conv)

lemma last_opt_in_set: "last_opt xs = Some x \<Longrightarrow> x \<in> set xs"
  by (auto simp: last_opt_conv split: if_splits)

lemma first_opt_simps [simp]: "first_opt [] = None" "first_opt (x # xs) = Some x"
  by (simp_all add: first_opt_def)

lemma find_Some_in_set: "find p xs = Some x \<Longrightarrow> x \<in> set xs \<and> p x"
  by (auto simp: find_Some_iff)

lemma sorted_wrt_snoc [simp]:
  "sorted_wrt P (xs @ [x]) \<longleftrightarrow> sorted_wrt P xs \<and> (\<forall>y \<in> set xs. P y x)"
  by (auto simp: sorted_wrt_append)

lemma list_all_enumerate: "list_all f (enumerate 0 xs) \<longleftrightarrow> (\<forall>i < length xs. f (i, xs ! i))"
  by (simp add: list_all_length nth_enumerate_eq)

lemma sort_eq_Nil_iff [simp]: "sort xs = [] \<longleftrightarrow> xs = []"
  by (metis length_0_conv length_sort)

lemma set_filter_map_id: "set (map f (filter P xs)) = f ` {x \<in> set xs. P x}"
  by auto

text \<open>Sorting and removing adjacent duplicates is a canonical form of a set.\<close>

lemma strict_sorted_remdups_adj: "sorted xs \<Longrightarrow> sorted_wrt (<) (remdups_adj (xs :: 'a::linorder list))"
  by (induction xs rule: remdups_adj.induct) (auto simp: order.strict_iff_order)

lemma strict_sorted_sort_dedup [simp]: "sorted_wrt (<) (remdups_adj (sort (xs :: 'a::linorder list)))"
  by (simp add: strict_sorted_remdups_adj)

lemma sort_dedup_eq_iff:
  "remdups_adj (sort xs) = remdups_adj (sort ys) \<longleftrightarrow> set xs = set (ys :: 'a::linorder list)"
  by (metis remdups_adj_set set_sort strict_sorted_equal strict_sorted_sort_dedup)

section \<open>Lemmas on ordered maps\<close>

lemma map_of_btree_insert: "btree_ok m \<Longrightarrow> map_of (btree_insert k v m) = (map_of m)(k \<mapsto> v)"
proof (induction m)
  case Nil
  then show ?case by simp
next
  case (Cons p m)
  obtain k' v' where p: "p = (k', v')" by (cases p)
  from Cons.prems have "btree_ok m" by (simp add: btree_ok_def p)
  then have IH: "map_of (btree_insert k v m) = (map_of m)(k \<mapsto> v)" by (rule Cons.IH)
  show ?case by (auto simp: p IH fun_eq_iff)
qed

lemma keys_btree_insert: "fst ` set (btree_insert k v m) = insert k (fst ` set m)"
  by (induction m) force+

lemma btree_ok_insert: "btree_ok m \<Longrightarrow> btree_ok (btree_insert k v m)"
proof (induction m)
  case Nil
  then show ?case by (simp add: btree_ok_def)
next
  case (Cons p m)
  obtain k' v' where p: "p = (k', v')" by (cases p)
  from Cons.prems have m: "btree_ok m" and lt: "\<forall>q \<in> set m. k' < fst q"
    by (simp_all add: btree_ok_def p)
  then have IH: "btree_ok (btree_insert k v m)" using Cons.IH by simp
  have keys: "fst q \<in> insert k (fst ` set m)" if "q \<in> set (btree_insert k v m)" for q
    using keys_btree_insert [of k v m] that by blast
  show ?case
    using m lt IH keys by (force simp: p btree_ok_def)
qed

lemma set_btree_insert_same:
  "btree_ok m \<Longrightarrow> map_of m k = None \<or> map_of m k = Some v \<Longrightarrow> set (btree_insert k v m) = insert (k, v) (set m)"
proof (induction m)
  case Nil
  then show ?case by simp
next
  case (Cons p m)
  obtain k' v' where p: "p = (k', v')" by (cases p)
  from Cons.prems(1) have "btree_ok m" by (simp add: btree_ok_def p)
  with Cons p show ?case by (auto split: if_splits)
qed

lemma btree_ok_Nil [simp]: "btree_ok []"
  by (simp add: btree_ok_def)

section \<open>Codecs\<close>

text \<open>
  The contract of an encoder and its decoder on the values \<open>wf\<close> admits, and its refinement
  for encodings of one fixed width, whose concatenations split again.
\<close>

locale byte_codec =
  fixes wf :: "'a \<Rightarrow> bool"
    and enc :: "'a \<Rightarrow> bytes"
    and dec :: "bytes \<Rightarrow> 'a option"
  assumes dec_enc: "wf x \<Longrightarrow> dec (enc x) = Some x"
begin

lemma enc_inject: "wf x \<Longrightarrow> wf y \<Longrightarrow> enc x = enc y \<longleftrightarrow> x = y"
  by (metis dec_enc option.inject)

end

locale fixed_codec = byte_codec +
  fixes width :: nat
  assumes length_enc: "wf x \<Longrightarrow> length (enc x) = width"
begin

lemma dec_take: "wf x \<Longrightarrow> dec (take width (enc x @ rest)) = Some x"
  by (simp add: dec_enc length_enc)

lemma drop_enc: "wf x \<Longrightarrow> drop width (enc x @ rest) = rest"
  by (simp add: length_enc)

lemma length_concat_enc: "list_all wf xs \<Longrightarrow> length (concat (map enc xs)) = width * length xs"
  by (induction xs) (simp_all add: length_enc)

lemma concat_enc_inject:
  "list_all wf xs \<Longrightarrow> list_all wf ys \<Longrightarrow> length xs = length ys \<Longrightarrow>
   concat (map enc xs) = concat (map enc ys) \<longleftrightarrow> xs = ys"
proof (induction xs arbitrary: ys)
  case Nil
  then show ?case by simp
next
  case (Cons x xs)
  then obtain y ys' where ys: "ys = y # ys'" by (cases ys) auto
  with Cons.prems have "length (enc x) = length (enc y)" by (simp add: length_enc)
  with Cons ys show ?case by (simp add: enc_inject)
qed

end

interpretation u64_codec: fixed_codec "\<lambda>_. True" u64_to_be_bytes "\<lambda>bs. Some (u64_from_be_bytes bs)" 8
  by unfold_locales simp_all

interpretation u32_codec: fixed_codec "\<lambda>_. True" u32_to_be_bytes "\<lambda>bs. Some (u32_from_be_bytes bs)" 4
  by unfold_locales simp_all

end
