(* ===== verification/Wire.thy ===== *)
theory Wire
  imports Prelude
begin

text \<open>
  The messages of \<open>evm_fork_cache_events_v1.proto\<close> that the components exchange, as the
  generated Rust structs hold them: a message is a record, a \<open>oneof\<close> is a datatype under
  \<open>option\<close>, a sub-message is an \<open>option\<close>, an enumeration field is the raw \<open>i32\<close> with its
  partial decoder. Fields carry the initials of their message.
\<close>

definition PROTOCOL_VERSION :: u32 where
  "PROTOCOL_VERSION = 1"

definition MAX_MESSAGE_SIZE_BYTES :: usize where
  "MAX_MESSAGE_SIZE_BYTES = 32 * 1024 * 1024"

record BlockRef =
  br_number :: u64
  br_hash :: bytes
  br_parent_hash :: bytes
  br_timestamp :: u64

record Cursor =
  cur_chain_id :: u64
  cur_query_revision :: u64
  cur_next_block :: u64
  cur_canonical_head :: "BlockRef option"
  cur_batch_sequence :: u64
  cur_provider_checkpoint :: bytes
  cur_owner_backfill_activation_block :: "u64 option"

record TopicValues =
  tv_values :: "bytes list"

record LogInterest =
  li_addresses :: "bytes list"
  li_topics :: "TopicValues list"

record BlockInterest =
  bi_mode :: i32

datatype InterestKind = KindLog LogInterest | KindBlock BlockInterest

record PortableInterest =
  pi_kind :: "InterestKind option"

datatype BlockMode = ModeUnspecified | ModeHeader | ModeFullBlock

definition block_mode_try_from :: "i32 \<Rightarrow> BlockMode option" where
  "block_mode_try_from x =
     (if x = 0 then Some ModeUnspecified else if x = 1 then Some ModeHeader
      else if x = 2 then Some ModeFullBlock else None)"

record Backfill =
  bf_from_block :: u64
  bf_to_block_excl :: "u64 option"
  bf_retained_baseline :: "BlockRef option"

record OwnerInterests =
  oi_owner_id :: string
  oi_interests :: "PortableInterest list"
  oi_backfill :: "Backfill option"
  oi_canonical :: bool

record ApplyDesiredState =
  ads_protocol_version :: u32
  ads_session_id :: string
  ads_chain_id :: u64
  ads_expected_revision :: u64
  ads_new_revision :: u64
  ads_owners :: "OwnerInterests list"

record DesiredStateApplied =
  dsa_session_id :: string
  dsa_revision :: u64
  dsa_activation_sequence :: u64

record Acknowledge =
  ack_session_id :: string
  ack_sequence :: u64
  ack_delivery_token :: bytes

record LogEvent =
  le_address :: bytes
  le_topics :: "bytes list"
  le_data :: bytes
  le_block_number :: u64
  le_block_hash :: bytes
  le_transaction_hash :: bytes
  le_transaction_index :: u64
  le_log_index :: u64
  le_block_timestamp :: u64
  le_removed :: bool

record BlockHeaderEvent =
  bh_block :: "BlockRef option"
  bh_consensus_header_rlp :: bytes
  bh_total_difficulty :: bytes
  bh_size :: bytes

record BlockProgressEvent =
  bp_block :: "BlockRef option"

datatype Event = EventLog LogEvent | EventBlockHeader BlockHeaderEvent
  | EventBlockProgress BlockProgressEvent

record ChainEvent =
  ce_event :: "Event option"

datatype DeliveryScope = ScopeUnspecified | ScopeCanonical | ScopeCanonicalProgress
  | ScopeOwnerCatchup

definition delivery_scope_try_from :: "i32 \<Rightarrow> DeliveryScope option" where
  "delivery_scope_try_from x =
     (if x = 0 then Some ScopeUnspecified else if x = 1 then Some ScopeCanonical
      else if x = 2 then Some ScopeCanonicalProgress else if x = 3 then Some ScopeOwnerCatchup
      else None)"

fun delivery_scope_to_i32 :: "DeliveryScope \<Rightarrow> i32" where
  "delivery_scope_to_i32 ScopeUnspecified = 0"
| "delivery_scope_to_i32 ScopeCanonical = 1"
| "delivery_scope_to_i32 ScopeCanonicalProgress = 2"
| "delivery_scope_to_i32 ScopeOwnerCatchup = 3"

record EventRecord =
  er_event :: "ChainEvent option"
  er_canonical_audience :: bool
  er_owner_ids :: "string list"
  er_scope :: i32

record DataPayload =
  dp_records :: "EventRecord list"

record Reorg =
  ro_common_ancestor :: "BlockRef option"
  ro_old_tip :: "BlockRef option"
  ro_new_tip :: "BlockRef option"

datatype FinalityKind = FinalityUnspecified | FinalitySafe | FinalityFinalized

definition finality_kind_try_from :: "i32 \<Rightarrow> FinalityKind option" where
  "finality_kind_try_from x =
     (if x = 0 then Some FinalityUnspecified else if x = 1 then Some FinalitySafe
      else if x = 2 then Some FinalityFinalized else None)"

record Finality =
  fin_kind :: i32
  fin_block :: "BlockRef option"

record Barrier =
  bar_id :: bytes
  bar_block :: "BlockRef option"

datatype Payload = PayloadData DataPayload | PayloadReorg Reorg | PayloadFinality Finality
  | PayloadBarrier Barrier

record Delivery =
  del_session_id :: string
  del_sequence :: u64
  del_query_revision :: u64
  del_delivery_token :: bytes
  del_cursor :: "Cursor option"
  del_payload :: "Payload option"
  del_checkpoint_neutral :: bool

text \<open>A block reference with constant hash bytes, for the examples of the components.\<close>

definition sample_block :: "u64 \<Rightarrow> u8 \<Rightarrow> u8 \<Rightarrow> BlockRef" where
  "sample_block n h p =
     \<lparr>br_number = n, br_hash = replicate 32 h, br_parent_hash = replicate 32 p, br_timestamp = n\<rparr>"

text \<open>The enumeration decoders invert the encoders.\<close>

lemma delivery_scope_roundtrip [simp]:
  "delivery_scope_try_from (delivery_scope_to_i32 s) = Some s"
  by (cases s) (simp_all add: delivery_scope_try_from_def)

lemma delivery_scope_try_from_Some:
  "delivery_scope_try_from x = Some s \<Longrightarrow> x = delivery_scope_to_i32 s"
  by (auto simp: delivery_scope_try_from_def split: if_splits)

lemma delivery_scope_to_i32_inject [simp]:
  "delivery_scope_to_i32 s = delivery_scope_to_i32 t \<longleftrightarrow> s = t"
  by (metis delivery_scope_roundtrip option.inject)

end
