(* ===== verification/Audience.thy ===== *)
theory Audience
  imports Wire
begin

text \<open>
  The routing half of \<open>hypersync/src/normalize.rs\<close>: which interest matches which event, which
  owners are active at a block, and the audience and delivery scope of an event.

  An owner is active at a block once the block reaches the activation boundary of the revision,
  inside the owner's own backfill range, or while a canonical owner's backfill makes the range
  global.
\<close>

definition event_block_number :: "ChainEvent \<Rightarrow> u64" where
  "event_block_number event =
     (case ce_event event of
        Some (EventLog log) \<Rightarrow> le_block_number log
      | Some (EventBlockHeader header) \<Rightarrow>
          (case bh_block header of None \<Rightarrow> 0 | Some block \<Rightarrow> br_number block)
      | Some (EventBlockProgress progress) \<Rightarrow>
          (case bp_block progress of None \<Rightarrow> 0 | Some block \<Rightarrow> br_number block)
      | None \<Rightarrow> 0)"

definition topic_at :: "'a list \<Rightarrow> nat \<Rightarrow> 'a option" where
  "topic_at topics i = (if i < length topics then Some (topics ! i) else None)"

definition interest_matches_event :: "PortableInterest \<Rightarrow> ChainEvent \<Rightarrow> bool" where
  "interest_matches_event interest event =
     (case (pi_kind interest, ce_event event) of
        (Some (KindBlock _), Some (EventBlockHeader _)) \<Rightarrow> True
      | (Some (KindLog interest), Some (EventLog log)) \<Rightarrow>
          (li_addresses interest = [] \<or> le_address log \<in> set (li_addresses interest)) \<and>
          list_all (\<lambda>(index, accepted). tv_values accepted = [] \<or>
              is_some_and (\<lambda>topic. topic \<in> set (tv_values accepted)) (topic_at (le_topics log) index))
            (enumerate 0 (li_topics interest))
      | _ \<Rightarrow> False)"

definition backfill_covers :: "Backfill option \<Rightarrow> u64 \<Rightarrow> bool" where
  "backfill_covers backfill block_number =
     is_some_and (\<lambda>backfill. bf_from_block backfill \<le> block_number \<and>
       is_none_or (\<lambda>stop. block_number < stop) (bf_to_block_excl backfill)) backfill"

definition global_backfill_active :: "ApplyDesiredState \<Rightarrow> u64 \<Rightarrow> bool" where
  "global_backfill_active desired_state block_number =
     list_ex (\<lambda>owner. oi_canonical owner \<and> backfill_covers (oi_backfill owner) block_number)
       (ads_owners desired_state)"

definition delivery_scope :: "ApplyDesiredState \<Rightarrow> u64 \<Rightarrow> u64 \<Rightarrow> DeliveryScope" where
  "delivery_scope desired_state block_number activation_block =
     (if activation_block \<le> block_number \<or> global_backfill_active desired_state block_number
      then ScopeCanonicalProgress else ScopeOwnerCatchup)"

definition owner_active :: "ApplyDesiredState \<Rightarrow> u64 \<Rightarrow> u64 \<Rightarrow> OwnerInterests \<Rightarrow> bool" where
  "owner_active desired_state block_number activation_block owner \<longleftrightarrow>
     global_backfill_active desired_state block_number \<or> activation_block \<le> block_number \<or>
     backfill_covers (oi_backfill owner) block_number"

definition is_block_interest :: "PortableInterest \<Rightarrow> bool" where
  "is_block_interest interest = (case pi_kind interest of Some (KindBlock _) \<Rightarrow> True | _ \<Rightarrow> False)"

definition has_active_block_interest :: "ApplyDesiredState \<Rightarrow> u64 \<Rightarrow> u64 \<Rightarrow> bool" where
  "has_active_block_interest desired_state block_number activation_block =
     list_ex (\<lambda>owner. owner_active desired_state block_number activation_block owner \<and>
         list_ex is_block_interest (oi_interests owner))
       (ads_owners desired_state)"

definition audience_step ::
    "ApplyDesiredState \<Rightarrow> ChainEvent \<Rightarrow> u64 \<Rightarrow> OwnerInterests \<Rightarrow> bool \<times> string list \<Rightarrow>
     bool \<times> string list" where
  "audience_step desired_state event activation_block owner acc =
     (let (canonical, owners) = acc;
          block_number = event_block_number event;
          canonical_phase = activation_block \<le> block_number;
          global_backfill = global_backfill_active desired_state block_number in
      if \<not> owner_active desired_state block_number activation_block owner then acc
      else if list_ex (\<lambda>interest. interest_matches_event interest event) (oi_interests owner) then
        (if global_backfill \<or> oi_canonical owner \<and> canonical_phase then (True, owners)
         else (canonical, owners @ [oi_owner_id owner]))
      else acc)"

definition is_progress :: "ChainEvent \<Rightarrow> bool" where
  "is_progress event = (case ce_event event of Some (EventBlockProgress _) \<Rightarrow> True | _ \<Rightarrow> False)"

definition event_audience :: "ApplyDesiredState \<Rightarrow> ChainEvent \<Rightarrow> u64 \<Rightarrow> bool \<times> string list" where
  "event_audience desired_state event activation_block =
     (let block_number = event_block_number event;
          canonical_phase = activation_block \<le> block_number;
          global_backfill = global_backfill_active desired_state block_number in
      if is_progress event \<and> (canonical_phase \<or> global_backfill) then (True, [])
      else
        (let (canonical, owners) =
               fold (audience_step desired_state event activation_block)
                 (ads_owners desired_state) (False, []);
             owners = remdups_adj (sort owners) in
         (canonical, if canonical then [] else owners)))"

section \<open>Who hears an event\<close>

text \<open>An owner that is active at the event's block and has an interest matching it.\<close>

definition listens :: "ApplyDesiredState \<Rightarrow> ChainEvent \<Rightarrow> u64 \<Rightarrow> OwnerInterests \<Rightarrow> bool" where
  "listens desired_state event activation_block owner \<longleftrightarrow>
     owner \<in> set (ads_owners desired_state) \<and>
     owner_active desired_state (event_block_number event) activation_block owner \<and>
     (\<exists>interest \<in> set (oi_interests owner). interest_matches_event interest event)"

text \<open>An owner whose match makes the event canonical rather than the owner's own.\<close>

definition speaks_globally :: "ApplyDesiredState \<Rightarrow> ChainEvent \<Rightarrow> u64 \<Rightarrow> OwnerInterests \<Rightarrow> bool" where
  "speaks_globally desired_state event activation_block owner \<longleftrightarrow>
     global_backfill_active desired_state (event_block_number event) \<or>
     oi_canonical owner \<and> activation_block \<le> event_block_number event"

lemma audience_fold:
  "fold (audience_step ds event activation) owners (c, os) =
     (c \<or> (\<exists>owner \<in> set owners. owner_active ds (event_block_number event) activation owner \<and>
         (\<exists>i \<in> set (oi_interests owner). interest_matches_event i event) \<and>
         speaks_globally ds event activation owner),
      os @ map oi_owner_id (filter (\<lambda>owner.
         owner_active ds (event_block_number event) activation owner \<and>
         (\<exists>i \<in> set (oi_interests owner). interest_matches_event i event) \<and>
         \<not> speaks_globally ds event activation owner) owners))"
  by (induction owners arbitrary: c os)
     (auto simp: audience_step_def Let_def list_ex_iff speaks_globally_def)

lemma listens_progress: "is_progress event \<Longrightarrow> \<not> listens ds event activation owner"
  by (auto simp: listens_def interest_matches_event_def is_progress_def
      split: option.splits Event.splits InterestKind.splits)

definition canonical_audience :: "ApplyDesiredState \<Rightarrow> ChainEvent \<Rightarrow> u64 \<Rightarrow> bool" where
  "canonical_audience ds event activation \<longleftrightarrow>
     is_progress event \<and>
       delivery_scope ds (event_block_number event) activation = ScopeCanonicalProgress \<or>
     (\<exists>owner. listens ds event activation owner \<and> speaks_globally ds event activation owner)"

definition listening_ids :: "ApplyDesiredState \<Rightarrow> ChainEvent \<Rightarrow> u64 \<Rightarrow> string list" where
  "listening_ids ds event activation =
     remdups_adj (sort (map oi_owner_id (filter (listens ds event activation) (ads_owners ds))))"

lemma set_listening_ids:
  "set (listening_ids ds event activation) = oi_owner_id ` {owner. listens ds event activation owner}"
  by (auto simp: listening_ids_def listens_def)

lemma event_audience_conv:
  "event_audience ds event activation =
     (canonical_audience ds event activation,
      if canonical_audience ds event activation then [] else listening_ids ds event activation)"
proof (cases "is_progress event \<and>
    delivery_scope ds (event_block_number event) activation = ScopeCanonicalProgress")
  case True
  then show ?thesis
    by (auto simp: event_audience_def delivery_scope_def canonical_audience_def split: if_splits)
next
  case False
  have c: "(\<exists>owner \<in> set (ads_owners ds).
        owner_active ds (event_block_number event) activation owner \<and>
        (\<exists>i \<in> set (oi_interests owner). interest_matches_event i event) \<and>
        speaks_globally ds event activation owner) \<longleftrightarrow> canonical_audience ds event activation"
    using False by (auto simp: listens_def canonical_audience_def)
  have f: "filter (\<lambda>owner. owner_active ds (event_block_number event) activation owner \<and>
        (\<exists>i \<in> set (oi_interests owner). interest_matches_event i event) \<and>
        \<not> speaks_globally ds event activation owner) (ads_owners ds) =
      filter (listens ds event activation) (ads_owners ds)" if "\<not> canonical_audience ds event activation"
    using that by (intro filter_cong) (auto simp: listens_def canonical_audience_def)
  have "event_audience ds event activation =
      (let (canonical, owners) =
             fold (audience_step ds event activation) (ads_owners ds) (False, []) in
       (canonical, if canonical then [] else remdups_adj (sort owners)))"
    using False by (auto simp: event_audience_def delivery_scope_def Let_def split: if_splits)
  also have "\<dots> = (canonical_audience ds event activation,
      if canonical_audience ds event activation then [] else listening_ids ds event activation)"
    unfolding audience_fold c by (auto simp: f listening_ids_def)
  finally show ?thesis .
qed

section \<open>Properties\<close>

text \<open>
  The same notions stated on the messages alone: the range of an owner's backfill, the events an
  interest selects, whether some canonical owner is replaying the block for everyone, and who
  hears an event at a block.
\<close>

definition replays_block :: "OwnerInterests \<Rightarrow> u64 \<Rightarrow> bool" where
  "replays_block owner n \<longleftrightarrow>
     (\<exists>first retained. oi_backfill owner =
          Some \<lparr>bf_from_block = first, bf_to_block_excl = None, bf_retained_baseline = retained\<rparr> \<and> unat first \<le> unat n) \<or>
     (\<exists>first stop retained. oi_backfill owner =
          Some \<lparr>bf_from_block = first, bf_to_block_excl = Some stop, bf_retained_baseline = retained\<rparr> \<and>
        unat n \<in> {unat first..<unat stop})"

definition replayed_for_all :: "ApplyDesiredState \<Rightarrow> u64 \<Rightarrow> bool" where
  "replayed_for_all ds n \<longleftrightarrow> (\<exists>owner \<in> set (ads_owners ds). oi_canonical owner \<and> replays_block owner n)"

definition selects :: "PortableInterest \<Rightarrow> ChainEvent \<Rightarrow> bool" where
  "selects interest event \<longleftrightarrow>
     (\<exists>blocks header. pi_kind interest = Some (KindBlock blocks) \<and> ce_event event = Some (EventBlockHeader header)) \<or>
     (\<exists>logs log. pi_kind interest = Some (KindLog logs) \<and> ce_event event = Some (EventLog log) \<and>
        (li_addresses logs = [] \<or> le_address log \<in> set (li_addresses logs)) \<and>
        (\<forall>i < length (li_topics logs). tv_values (li_topics logs ! i) = [] \<or>
           i < length (le_topics log) \<and> le_topics log ! i \<in> set (tv_values (li_topics logs ! i))))"

definition hears :: "ApplyDesiredState \<Rightarrow> ChainEvent \<Rightarrow> u64 \<Rightarrow> OwnerInterests \<Rightarrow> bool" where
  "hears ds event activation owner \<longleftrightarrow>
     (let n = event_block_number event in
      owner \<in> set (ads_owners ds) \<and>
      (unat activation \<le> unat n \<or> replayed_for_all ds n \<or> replays_block owner n) \<and>
      (\<exists>interest \<in> set (oi_interests owner). selects interest event))"

lemma backfill_covers_iff: "backfill_covers (oi_backfill owner) n \<longleftrightarrow> replays_block owner n"
proof (cases "oi_backfill owner")
  case None
  then show ?thesis by (simp add: backfill_covers_def replays_block_def)
next
  case (Some b)
  then show ?thesis
    by (cases b; cases "bf_to_block_excl b")
       (auto simp: backfill_covers_def replays_block_def word_le_nat_alt word_less_nat_alt)
qed

lemma global_backfill_iff: "global_backfill_active ds n \<longleftrightarrow> replayed_for_all ds n"
  by (simp add: global_backfill_active_def replayed_for_all_def backfill_covers_iff list_ex_iff)

lemma interest_matches_iff: "interest_matches_event interest event \<longleftrightarrow> selects interest event"
proof -
  have topics: "list_all (\<lambda>(index, accepted). tv_values accepted = [] \<or>
        is_some_and (\<lambda>topic. topic \<in> set (tv_values accepted)) (topic_at seen index)) (enumerate 0 ts) \<longleftrightarrow>
      (\<forall>i < length ts. tv_values (ts ! i) = [] \<or> i < length seen \<and> seen ! i \<in> set (tv_values (ts ! i)))" for seen ts
    by (auto simp: list_all_length nth_enumerate_eq topic_at_def)
  show ?thesis
    unfolding interest_matches_event_def selects_def topics
    by (auto split: option.splits InterestKind.splits Event.splits)
qed

lemma listens_iff: "listens ds event activation owner \<longleftrightarrow> hears ds event activation owner"
  by (auto simp: listens_def hears_def Let_def owner_active_def backfill_covers_iff global_backfill_iff
      interest_matches_iff word_le_nat_alt)

text \<open>
  C14: The audience of an event is exact. An owner hears an event when it has an interest that
  selects it and the block is at or after the activation boundary, or inside the owner's own
  backfill range, or inside the range of a canonical owner, which is replayed for everyone. The
  event is canonical precisely when some owner hears it and either the block is replayed for
  everyone or that owner is canonical and the block has reached the boundary, or when it is a
  progress event, which no owner hears, at a block that has reached the boundary or is replayed
  for everyone. Otherwise the owner ids are precisely the ids of the owners that hear it, in
  ascending order without duplicates; a canonical event carries no owner ids.
\<close>

theorem event_audience_exact:
  "\<exists>canonical owners. event_audience ds event activation = (canonical, owners) \<and>
    (canonical \<longleftrightarrow>
        (\<exists>progress. ce_event event = Some (EventBlockProgress progress)) \<and>
          (unat activation \<le> unat (event_block_number event) \<or> replayed_for_all ds (event_block_number event)) \<or>
        (\<exists>owner. hears ds event activation owner \<and>
          (replayed_for_all ds (event_block_number event) \<or>
           oi_canonical owner \<and> unat activation \<le> unat (event_block_number event)))) \<and>
    set owners = (if canonical then {} else oi_owner_id ` {owner. hears ds event activation owner}) \<and>
    sorted_wrt (<) owners"
proof -
  have "canonical_audience ds event activation \<longleftrightarrow>
      (\<exists>progress. ce_event event = Some (EventBlockProgress progress)) \<and>
        (unat activation \<le> unat (event_block_number event) \<or> replayed_for_all ds (event_block_number event)) \<or>
      (\<exists>owner. hears ds event activation owner \<and>
        (replayed_for_all ds (event_block_number event) \<or>
         oi_canonical owner \<and> unat activation \<le> unat (event_block_number event)))"
    by (auto simp: canonical_audience_def is_progress_def delivery_scope_def speaks_globally_def global_backfill_iff
        listens_iff word_le_nat_alt split: option.splits Event.splits)
  moreover have "sorted_wrt (<) (listening_ids ds event activation)" by (simp add: listening_ids_def)
  ultimately show ?thesis
    unfolding event_audience_conv by (auto simp: set_listening_ids listens_iff)
qed

text \<open>
  C27: Owner-scoped delivery never leaks catch-up data to the canonical audience: at a block
  before the activation boundary and outside every canonical backfill, the scope is owner
  catch-up and no event is canonical; every owner it is delivered to has a backfill range that
  covers the block.
\<close>

theorem catchup_stays_with_owner:
  assumes "delivery_scope ds (event_block_number event) activation = ScopeOwnerCatchup"
  shows "\<exists>owners. event_audience ds event activation = (False, owners) \<and>
    set owners = oi_owner_id ` {owner. listens ds event activation owner} \<and>
    {owner. listens ds event activation owner} \<subseteq>
      {owner \<in> set (ads_owners ds). backfill_covers (oi_backfill owner) (event_block_number event)}"
proof -
  have quiet: "\<not> speaks_globally ds event activation owner" for owner
    using assms by (auto simp: delivery_scope_def speaks_globally_def split: if_splits)
  have covers: "backfill_covers (oi_backfill owner) (event_block_number event)"
      if "listens ds event activation owner" for owner
    using assms that by (auto simp: delivery_scope_def listens_def owner_active_def split: if_splits)
  have "\<not> canonical_audience ds event activation"
    using assms quiet by (simp add: canonical_audience_def)
  then show ?thesis
    using covers by (auto simp: event_audience_conv set_listening_ids listens_def)
qed

definition sample_log :: "u64 \<Rightarrow> u8 \<Rightarrow> ChainEvent" where
  "sample_log n address =
     \<lparr>ce_event = Some (EventLog \<lparr>le_address = replicate 20 address, le_topics = [replicate 32 1],
        le_data = [], le_block_number = n, le_block_hash = replicate 32 9,
        le_transaction_hash = replicate 32 5, le_transaction_index = 0, le_log_index = 0,
        le_block_timestamp = n, le_removed = False\<rparr>)\<rparr>"

definition sample_interest :: "u8 \<Rightarrow> PortableInterest" where
  "sample_interest address =
     \<lparr>pi_kind = Some (KindLog \<lparr>li_addresses = [replicate 20 address],
        li_topics = [\<lparr>tv_values = [replicate 32 1, replicate 32 2]\<rparr>]\<rparr>)\<rparr>"

definition sample_desired :: ApplyDesiredState where
  "sample_desired =
     \<lparr>ads_protocol_version = 1, ads_session_id = ''s'', ads_chain_id = 1, ads_expected_revision = 0,
      ads_new_revision = 1,
      ads_owners =
        [\<lparr>oi_owner_id = ''pool'', oi_interests = [sample_interest 7],
          oi_backfill = Some \<lparr>bf_from_block = 10, bf_to_block_excl = Some 20,
            bf_retained_baseline = None\<rparr>, oi_canonical = False\<rparr>]\<rparr>"

theorem catchup_stays_with_owner_witness:
  "delivery_scope sample_desired (event_block_number (sample_log 12 7)) 20 = ScopeOwnerCatchup \<and>
   (\<exists>owners. event_audience sample_desired (sample_log 12 7) 20 = (False, owners) \<and>
      owners = [''pool''])"
proof -
  have scope: "delivery_scope sample_desired (event_block_number (sample_log 12 7)) 20 = ScopeOwnerCatchup"
    by (simp add: delivery_scope_def event_block_number_def sample_log_def sample_desired_def
        global_backfill_active_def)
  have "event_audience sample_desired (sample_log 12 7) 20 = (False, [''pool''])"
    by (simp add: event_audience_def audience_step_def event_block_number_def sample_log_def
        sample_desired_def global_backfill_active_def is_progress_def owner_active_def
        backfill_covers_def sample_interest_def interest_matches_event_def topic_at_def enumerate_eq_zip)
  with catchup_stays_with_owner [OF scope] scope show ?thesis by auto
qed

end
