(* ===== verification/Desired_State.thy ===== *)
theory Desired_State
  imports Wire
begin

text \<open>
  \<open>event-service/src/desired_state.rs\<close>: validation of a desired-state replacement and the
  in-memory registry that commits replacements by compare-and-swap on the revision.

  The loop over the owners carries the set of owner ids seen so far and whether canonical
  interests appeared. The registry is a map from session and chain to the committed request.

  The locale \<open>cas_authority\<close> is the contract of a store that commits desired states by
  compare-and-swap; the registry is its first provider, the durable session store its second.
\<close>

section \<open>Data\<close>

datatype DesiredStateError =
    InvalidState string
  | ProtocolVersion u32 u32
  | UnsupportedInterest string string
  | RevisionConflict u64 u64

type_synonym session_key = "string \<times> u64"

record DesiredStateRegistry =
  reg_sessions :: "session_key \<rightharpoonup> ApplyDesiredState"

section \<open>Validation\<close>

definition validate_baseline :: "Backfill \<Rightarrow> DesiredStateError + unit" where
  "validate_baseline backfill =
     (case bf_retained_baseline backfill of
        None \<Rightarrow> Ok ()
      | Some baseline \<Rightarrow>
          (if checked_add (br_number baseline) 1 \<noteq> Some (bf_from_block backfill)
             then Err (InvalidState ''retained backfill baseline must immediately precede its start'')
           else if length (br_hash baseline) \<noteq> 32 \<or> length (br_parent_hash baseline) \<noteq> 32
             then Err (InvalidState ''retained backfill baseline hashes must be 32 bytes'')
           else Ok ()))"

definition validate_backfill :: "Backfill option \<Rightarrow> DesiredStateError + unit" where
  "validate_backfill backfill =
     (case backfill of
        None \<Rightarrow> Ok ()
      | Some backfill \<Rightarrow>
          (if is_some_and (\<lambda>stop. stop < bf_from_block backfill \<or>
                 stop = bf_from_block backfill \<and> bf_retained_baseline backfill = None)
               (bf_to_block_excl backfill)
             then Err (InvalidState
               ''backfill end precedes its start or encodes an uncertified empty range'')
           else validate_baseline backfill))"

definition validate_interest :: "string \<Rightarrow> PortableInterest \<Rightarrow> DesiredStateError + unit" where
  "validate_interest owner_id interest =
     (case pi_kind interest of
        Some (KindBlock b) \<Rightarrow>
          (case block_mode_try_from (bi_mode b) of
             Some ModeHeader \<Rightarrow> Ok ()
           | Some ModeFullBlock \<Rightarrow> Err (UnsupportedInterest owner_id ''full block'')
           | _ \<Rightarrow> Err (InvalidState ''block interest mode is unspecified or unknown''))
      | Some (KindLog log) \<Rightarrow>
          (if list_ex (\<lambda>address. length address \<noteq> 20) (li_addresses log)
             then Err (InvalidState ''log addresses must be 20 bytes'')
           else if 4 < length (li_topics log)
             then Err (InvalidState ''log interests support at most four topic positions'')
           else if list_ex (\<lambda>topic. length topic \<noteq> 32) (concat (map tv_values (li_topics log)))
             then Err (InvalidState ''log topics must be 32 bytes'')
           else Ok ())
      | None \<Rightarrow> Err (InvalidState ''portable interest kind is missing''))"

definition validate_owner_identity ::
    "OwnerInterests \<Rightarrow> string set \<times> bool \<Rightarrow> DesiredStateError + string set \<times> bool" where
  "validate_owner_identity owner s =
     (let (owner_ids, has_canonical) = s in
      if oi_canonical owner then
        (if oi_owner_id owner \<noteq> []
           then Err (InvalidState ''canonical interests must not carry an owner id'')
         else if has_canonical
           then Err (InvalidState ''canonical interests appear more than once'')
         else Ok (owner_ids, True))
      else if oi_owner_id owner = [] then Err (InvalidState ''owner id is empty'')
      else if oi_owner_id owner \<in> owner_ids then Err (InvalidState ''owner ids must be unique'')
      else Ok (insert (oi_owner_id owner) owner_ids, has_canonical))"

definition validate_owner ::
    "OwnerInterests \<Rightarrow> string set \<times> bool \<Rightarrow> DesiredStateError + string set \<times> bool" where
  "validate_owner owner s =
     bind_res (validate_owner_identity owner s) (\<lambda>s'.
     bind_res (validate_backfill (oi_backfill owner)) (\<lambda>_.
     bind_res (map_res (validate_interest (oi_owner_id owner)) (oi_interests owner)) (\<lambda>_.
     Ok s')))"

definition validate_desired_state :: "ApplyDesiredState \<Rightarrow> DesiredStateError + unit" where
  "validate_desired_state request =
     (if ads_protocol_version request \<noteq> PROTOCOL_VERSION
        then Err (ProtocolVersion (ads_protocol_version request) PROTOCOL_VERSION)
      else if ads_session_id request = [] then Err (InvalidState ''session id is empty'')
      else if ads_expected_revision request = u64_max
        then Err (InvalidState ''expected revision has no representable successor'')
      else bind_res (fold_res validate_owner (ads_owners request) ({}, False)) (\<lambda>_. Ok ()))"

section \<open>The registry\<close>

definition registry_new :: DesiredStateRegistry where
  "registry_new = \<lparr>reg_sessions = Map.empty\<rparr>"

definition request_key :: "ApplyDesiredState \<Rightarrow> session_key" where
  "request_key request = (ads_session_id request, ads_chain_id request)"

definition committed_revision :: "ApplyDesiredState option \<Rightarrow> u64" where
  "committed_revision existing = (case existing of None \<Rightarrow> 0 | Some st \<Rightarrow> ads_new_revision st)"

definition registry_apply ::
    "DesiredStateRegistry \<Rightarrow> ApplyDesiredState \<Rightarrow>
     DesiredStateError + DesiredStateApplied \<times> DesiredStateRegistry" where
  "registry_apply reg request =
     bind_res (validate_desired_state request) (\<lambda>_.
     let key = request_key request;
         existing = reg_sessions reg key;
         committed = committed_revision existing;
         applied = \<lparr>dsa_session_id = ads_session_id request, dsa_revision = ads_new_revision request,
                    dsa_activation_sequence = 0\<rparr> in
     if ads_expected_revision request \<noteq> committed then
       (if existing = Some request then Ok (applied, reg)
        else Err (RevisionConflict (ads_expected_revision request) committed))
     else if checked_add committed 1 \<noteq> Some (ads_new_revision request)
       then Err (InvalidState ''new revision must immediately follow the committed revision'')
     else Ok (applied, reg\<lparr>reg_sessions := (reg_sessions reg)(key \<mapsto> request)\<rparr>))"

definition registry_committed :: "DesiredStateRegistry \<Rightarrow> string \<Rightarrow> u64 \<Rightarrow> ApplyDesiredState option" where
  "registry_committed reg session_id chain_id = reg_sessions reg (session_id, chain_id)"

section \<open>What validation accepts\<close>

definition wf_backfill :: "Backfill \<Rightarrow> bool" where
  "wf_backfill bf \<longleftrightarrow>
     (\<forall>stop. bf_to_block_excl bf = Some stop \<longrightarrow>
        bf_from_block bf < stop \<or> bf_from_block bf = stop \<and> bf_retained_baseline bf \<noteq> None) \<and>
     (\<forall>base. bf_retained_baseline bf = Some base \<longrightarrow>
        unat (bf_from_block bf) = Suc (unat (br_number base)) \<and>
        length (br_hash base) = 32 \<and> length (br_parent_hash base) = 32)"

definition wf_log_interest :: "LogInterest \<Rightarrow> bool" where
  "wf_log_interest log \<longleftrightarrow>
     (\<forall>address \<in> set (li_addresses log). length address = 20) \<and> length (li_topics log) \<le> 4 \<and>
     (\<forall>position \<in> set (li_topics log). \<forall>topic \<in> set (tv_values position). length topic = 32)"

definition wf_interest :: "PortableInterest \<Rightarrow> bool" where
  "wf_interest interest \<longleftrightarrow>
     (case pi_kind interest of
        None \<Rightarrow> False
      | Some (KindBlock b) \<Rightarrow> bi_mode b = 1
      | Some (KindLog log) \<Rightarrow> wf_log_interest log)"

definition wf_owner :: "OwnerInterests \<Rightarrow> bool" where
  "wf_owner owner \<longleftrightarrow>
     (oi_canonical owner \<longleftrightarrow> oi_owner_id owner = []) \<and>
     pred_option wf_backfill (oi_backfill owner) \<and> list_all wf_interest (oi_interests owner)"

definition wf_desired_state :: "ApplyDesiredState \<Rightarrow> bool" where
  "wf_desired_state request \<longleftrightarrow>
     ads_protocol_version request = 1 \<and> ads_session_id request \<noteq> [] \<and>
     ads_expected_revision request \<noteq> u64_max \<and> list_all wf_owner (ads_owners request) \<and>
     distinct (map oi_owner_id (ads_owners request))"

lemma validate_backfill_Ok_iff [result_simps]:
  "validate_backfill bf = Ok u \<longleftrightarrow> pred_option wf_backfill bf"
  by (cases bf)
     (auto simp: validate_backfill_def validate_baseline_def wf_backfill_def is_some_and_def result_simps
       u64_simps not_less order.order_iff_strict split: option.splits)

lemma validate_interest_Ok_iff [result_simps]: "validate_interest o_id i = Ok u \<longleftrightarrow> wf_interest i"
  by (auto simp: validate_interest_def wf_interest_def wf_log_interest_def block_mode_try_from_def
      result_simps list_ex_iff split: option.splits InterestKind.splits)

lemma validate_interests_Ok_iff [result_simps]:
  "(\<exists>us. map_res (validate_interest o_id) is = Ok us) \<longleftrightarrow> list_all wf_interest is"
  by (induction "is") (auto simp: result_simps)

text \<open>
  A canonical owner has the empty id, every other owner a nonempty one: the two uniqueness
  checks of the loop are one distinctness of ids.
\<close>

lemma validate_owner_Ok_iff:
  "validate_owner owner (ids, c) = Ok s \<longleftrightarrow>
     wf_owner owner \<and> oi_owner_id owner \<notin> (if c then insert [] ids else ids - {[]}) \<and>
     s = (if oi_canonical owner then (ids, True) else (insert (oi_owner_id owner) ids, c))"
proof -
  have "validate_owner owner (ids, c) = Ok s \<longleftrightarrow>
      validate_owner_identity owner (ids, c) = Ok s \<and> pred_option wf_backfill (oi_backfill owner) \<and>
      list_all wf_interest (oi_interests owner)"
    using validate_interests_Ok_iff [of "oi_owner_id owner" "oi_interests owner"]
    by (cases s) (auto simp: validate_owner_def bind_res_Ok_iff validate_backfill_Ok_iff)
  then show ?thesis
    by (auto simp: validate_owner_identity_def wf_owner_def)
qed

lemma validate_owners_Ok_iff:
  assumes "[] \<notin> ids"
  shows "(\<exists>t. fold_res validate_owner owners (ids, c) = Ok t) \<longleftrightarrow>
    list_all wf_owner owners \<and> distinct (map oi_owner_id owners) \<and>
    set (map oi_owner_id owners) \<inter> (if c then insert [] ids else ids) = {}"
  using assms
proof (induction owners arbitrary: ids c)
  case Nil
  then show ?case by simp
next
  case (Cons owner owners)
  let ?seen = "if c then insert [] ids else ids"
  have seen: "(if c then insert [] ids else ids - {[]}) = ?seen" using Cons.prems by auto
  show ?case
  proof (cases "wf_owner owner \<and> oi_owner_id owner \<notin> ?seen")
    case False
    then show ?thesis
      by (auto simp: bind_res_Ok_iff validate_owner_Ok_iff seen simp del: if_split)
  next
    case True
    then have canonical: "oi_canonical owner \<longleftrightarrow> oi_owner_id owner = []" by (simp add: wf_owner_def)
    let ?ids = "if oi_canonical owner then ids else insert (oi_owner_id owner) ids"
    have "validate_owner owner (ids, c) = Ok (?ids, c \<or> oi_canonical owner)"
      using True by (auto simp: validate_owner_Ok_iff seen simp del: if_split)
    moreover have "[] \<notin> ?ids" using Cons.prems canonical by auto
    ultimately show ?thesis
      using Cons.IH [of ?ids "c \<or> oi_canonical owner"] True canonical by auto
  qed
qed

lemma validate_desired_state_Ok_iff:
  "validate_desired_state request = Ok u \<longleftrightarrow> wf_desired_state request"
proof -
  have "validate_desired_state request = Ok u \<longleftrightarrow>
      ads_protocol_version request = 1 \<and> ads_session_id request \<noteq> [] \<and>
      ads_expected_revision request \<noteq> u64_max \<and>
      (\<exists>t. fold_res validate_owner (ads_owners request) ({}, False) = Ok t)"
    by (auto simp: validate_desired_state_def PROTOCOL_VERSION_def bind_res_Ok_iff)
  then show ?thesis
    using validate_owners_Ok_iff [of "{}" "ads_owners request" False]
    by (simp add: wf_desired_state_def)
qed

section \<open>Compare-and-swap authorities\<close>

text \<open>
  Running requests in order, each one against the state its predecessors left; a refused
  request changes nothing.
\<close>

fun apply_all :: "('s \<Rightarrow> 'r \<Rightarrow> 'e + 'a \<times> 's) \<Rightarrow> 's \<Rightarrow> 'r list \<Rightarrow> 's" where
  "apply_all f s [] = s"
| "apply_all f s (r # rs) = apply_all f (case f s r of Inl _ \<Rightarrow> s | Inr (_, s') \<Rightarrow> s') rs"

text \<open>
  The contract: a successful request is either the exact replay of the committed one, which
  changes nothing, or it expects the committed revision and commits its successor; whatever else
  moves the state, the revision of a session and chain only grows, and equal revisions mean the
  same committed request.
\<close>

locale cas_authority =
  fixes good :: "'s \<Rightarrow> bool"
    and committed :: "'s \<Rightarrow> session_key \<Rightarrow> ApplyDesiredState option"
    and commit :: "'s \<Rightarrow> ApplyDesiredState \<Rightarrow> 'c \<Rightarrow> 'e + 'a \<times> 's"
    and moves :: "'s \<Rightarrow> 's \<Rightarrow> bool"
  assumes commit_good: "good s \<Longrightarrow> commit s r c = Ok (a, s') \<Longrightarrow> good s'"
    and commit_own: "good s \<Longrightarrow> commit s r c = Ok (a, s') \<Longrightarrow>
      committed s' (request_key r) = Some r \<and>
      (committed s (request_key r) = Some r \<or>
       ads_expected_revision r = committed_revision (committed s (request_key r)))"
    and committed_successor: "good s \<Longrightarrow> committed s k = Some r \<Longrightarrow>
      unat (ads_new_revision r) = Suc (unat (ads_expected_revision r))"
    and moves_good: "good s \<Longrightarrow> moves s s' \<Longrightarrow> good s'"
    and moves_revision: "good s \<Longrightarrow> moves s s' \<Longrightarrow>
      committed s' k = committed s k \<or>
      unat (committed_revision (committed s k)) < unat (committed_revision (committed s' k))"
begin

lemma run_good: "moves\<^sup>*\<^sup>* s t \<Longrightarrow> good s \<Longrightarrow> good t"
  by (induction rule: rtranclp_induct) (auto intro: moves_good)

lemma run_monotone:
  assumes "moves\<^sup>*\<^sup>* s t" and "good s"
  shows "committed t k = committed s k \<or>
    unat (committed_revision (committed s k)) < unat (committed_revision (committed t k))"
  using assms
proof (induction rule: rtranclp_induct)
  case base
  then show ?case by simp
next
  case (step t u)
  from moves_revision [OF run_good [OF step.hyps(1) step.prems] step.hyps(2), of k] step.IH [OF step.prems]
  show ?case by auto
qed

text \<open>
  No lost update: of the requests that expect one revision of one session and chain, at most
  one is ever committed, whatever happens in between.
\<close>

lemma no_lost_update:
  assumes s: "good s" and first: "commit s r c = Ok (a, s')" and run: "moves\<^sup>*\<^sup>* s' t"
    and second: "commit t r' c' = Ok (a', s'')"
    and key: "request_key r' = request_key r"
    and exp: "ads_expected_revision r' = ads_expected_revision r"
  shows "r' = r"
proof -
  let ?k = "request_key r"
  have s': "good s'" using commit_good s first .
  have t: "good t" using run_good run s' .
  have r: "committed s' ?k = Some r" using commit_own [OF s first] by simp
  have succ: "unat (ads_new_revision r) = Suc (unat (ads_expected_revision r))"
    using committed_successor s' r by blast
  have r': "committed s'' ?k = Some r'" using commit_own [OF t second] key by simp
  have succ': "unat (ads_new_revision r') = Suc (unat (ads_expected_revision r'))"
    using committed_successor commit_good [OF t second] r' by blast
  have now: "committed t ?k = Some r \<or> unat (ads_new_revision r) < unat (committed_revision (committed t ?k))"
    using run_monotone [OF run s', of ?k] r by (simp add: committed_revision_def)
  have "committed t ?k = Some r' \<or> ads_expected_revision r' = committed_revision (committed t ?k)"
    using commit_own [OF t second] key by simp
  then show ?thesis
  proof
    assume "committed t ?k = Some r'"
    with now succ succ' exp show ?thesis by (simp add: committed_revision_def)
  next
    assume *: "ads_expected_revision r' = committed_revision (committed t ?k)"
    from now show ?thesis
    proof
      assume "committed t ?k = Some r"
      with * succ exp show ?thesis by (simp add: committed_revision_def)
    next
      assume "unat (ads_new_revision r) < unat (committed_revision (committed t ?k))"
      with * succ exp show ?thesis by simp
    qed
  qed
qed

end

section \<open>The registry is a compare-and-swap authority\<close>

definition registry_ok :: "DesiredStateRegistry \<Rightarrow> bool" where
  "registry_ok reg \<longleftrightarrow>
     (\<forall>k r. reg_sessions reg k = Some r \<longrightarrow> request_key r = k \<and> wf_desired_state r \<and>
        unat (ads_new_revision r) = Suc (unat (ads_expected_revision r)))"

lemma registry_ok_successor:
  "registry_ok reg \<Longrightarrow> reg_sessions reg k = Some r \<Longrightarrow>
   unat (ads_new_revision r) = Suc (unat (ads_expected_revision r))"
  by (cases k) (auto simp: registry_ok_def)

lemma registry_apply_Ok_iff:
  "registry_apply reg r = Ok (a, reg') \<longleftrightarrow>
     wf_desired_state r \<and>
     a = \<lparr>dsa_session_id = ads_session_id r, dsa_revision = ads_new_revision r,
          dsa_activation_sequence = 0\<rparr> \<and>
     (if ads_expected_revision r = committed_revision (reg_sessions reg (request_key r))
      then unat (ads_new_revision r) = Suc (unat (ads_expected_revision r)) \<and>
           reg' = reg\<lparr>reg_sessions := (reg_sessions reg)(request_key r \<mapsto> r)\<rparr>
      else reg_sessions reg (request_key r) = Some r \<and> reg' = reg)"
  by (auto simp: registry_apply_def bind_res_Ok_iff validate_desired_state_Ok_iff Let_def result_simps
      u64_simps)

definition registry_moves :: "DesiredStateRegistry \<Rightarrow> DesiredStateRegistry \<Rightarrow> bool" where
  "registry_moves reg reg' \<longleftrightarrow> (\<exists>r a. registry_apply reg r = Ok (a, reg'))"

lemma registry_apply_good: "registry_ok reg \<Longrightarrow> registry_apply reg r = Ok (a, reg') \<Longrightarrow> registry_ok reg'"
  by (auto simp: registry_apply_Ok_iff registry_ok_def split: if_splits)

lemma apply_all_moves: "registry_moves\<^sup>*\<^sup>* reg (apply_all registry_apply reg rs)"
proof (induction rs arbitrary: reg)
  case Nil
  then show ?case by simp
next
  case (Cons r rs)
  show ?case
  proof (cases "registry_apply reg r")
    case (Inl e)
    with Cons show ?thesis by simp
  next
    case (Inr p)
    obtain a reg' where p: "p = (a, reg')" by (cases p)
    with Inr have "registry_moves reg reg'" by (auto simp: registry_moves_def)
    with Cons [of reg'] Inr p show ?thesis by (simp add: converse_rtranclp_into_rtranclp)
  qed
qed

interpretation registry: cas_authority registry_ok "\<lambda>reg k. registry_committed reg (fst k) (snd k)"
  "\<lambda>reg r _. registry_apply reg r" registry_moves
proof unfold_locales
  fix s r a s'
  assume ok: "registry_ok s" and step: "registry_apply s r = Ok (a, s')"
  show "registry_ok s'" using registry_apply_good ok step .
  show "registry_committed s' (fst (request_key r)) (snd (request_key r)) = Some r \<and>
      (registry_committed s (fst (request_key r)) (snd (request_key r)) = Some r \<or>
       ads_expected_revision r =
         committed_revision (registry_committed s (fst (request_key r)) (snd (request_key r))))"
    using step by (auto simp: registry_apply_Ok_iff registry_committed_def split: if_splits)
next
  fix s r k
  assume "registry_ok s" "registry_committed s (fst k) (snd k) = Some r"
  then show "unat (ads_new_revision r) = Suc (unat (ads_expected_revision r))"
    by (simp add: registry_ok_successor registry_committed_def)
next
  fix s s' k
  assume ok: "registry_ok s" and step: "registry_moves s s'"
  then show "registry_ok s'" by (auto simp: registry_moves_def intro: registry_apply_good)
  from step show "registry_committed s' (fst k) (snd k) = registry_committed s (fst k) (snd k) \<or>
      unat (committed_revision (registry_committed s (fst k) (snd k))) <
        unat (committed_revision (registry_committed s' (fst k) (snd k)))"
    by (auto simp: registry_moves_def registry_apply_Ok_iff registry_committed_def committed_revision_def
        split: if_splits)
qed

lemma registry_ok_reachable: "registry_ok (apply_all registry_apply registry_new rs)"
  by (rule registry.run_good [OF apply_all_moves]) (simp add: registry_ok_def registry_new_def)

section \<open>Properties\<close>

text \<open>
  A request with one canonical owner, one owner with a backfill certified by its retained
  baseline and a second revision of it.
\<close>

definition sample_request :: "u64 \<Rightarrow> string \<Rightarrow> ApplyDesiredState" where
  "sample_request expected name =
     \<lparr>ads_protocol_version = 1, ads_session_id = ''s'', ads_chain_id = 1,
      ads_expected_revision = expected, ads_new_revision = expected + 1,
      ads_owners =
        [\<lparr>oi_owner_id = [], oi_interests = [\<lparr>pi_kind = Some (KindBlock \<lparr>bi_mode = 1\<rparr>)\<rparr>],
          oi_backfill = None, oi_canonical = True\<rparr>,
         \<lparr>oi_owner_id = name,
          oi_interests =
            [\<lparr>pi_kind = Some (KindLog \<lparr>li_addresses = [replicate 20 7],
                li_topics = [\<lparr>tv_values = [replicate 32 1, replicate 32 2]\<rparr>]\<rparr>)\<rparr>],
          oi_backfill = Some \<lparr>bf_from_block = 11, bf_to_block_excl = None,
            bf_retained_baseline = Some (sample_block 10 1 2)\<rparr>, oi_canonical = False\<rparr>]\<rparr>"

lemmas desired_state_eval = wf_desired_state_def wf_owner_def wf_backfill_def wf_interest_def
  wf_log_interest_def sample_request_def sample_block_def

text \<open>
  C23: A desired state passes validation exactly when it is well formed: the protocol version
  is 1, the session id is nonempty, the expected revision has a successor, owner ids are
  pairwise distinct with the empty id reserved for the one canonical owner, every backfill
  range is nonempty or certified by a retained baseline that immediately precedes it, and
  every interest is a header interest or a log interest with 20-byte addresses and at most
  four positions of 32-byte topics.
\<close>

theorem validate_desired_state_exact:
  "is_ok (validate_desired_state request) \<longleftrightarrow> wf_desired_state request"
  using validate_desired_state_Ok_iff [of request "()"]
  by (cases "validate_desired_state request") (simp_all add: is_ok_def)

text \<open>
  C12: No lost update. Starting from the empty registry, once a request commits, a different
  request of the same session and chain that expects the same revision is refused, whatever
  requests ran before and in between.
\<close>

theorem registry_no_lost_update:
  assumes "registry_apply (apply_all registry_apply registry_new before) r = Ok (a, reg)"
    and "registry_apply (apply_all registry_apply reg between) r' = Ok (a', reg')"
    and "request_key r' = request_key r" and "ads_expected_revision r' = ads_expected_revision r"
  shows "r' = r"
  using registry.no_lost_update [OF registry_ok_reachable assms(1) apply_all_moves assms(2-4)] .

theorem registry_no_lost_update_witness:
  "\<exists>a reg a' reg'.
     registry_apply (apply_all registry_apply registry_new []) (sample_request 0 ''a'') = Ok (a, reg) \<and>
     registry_apply (apply_all registry_apply reg [sample_request 0 ''b'']) (sample_request 0 ''a'') =
       Ok (a', reg') \<and> sample_request 0 ''a'' = sample_request 0 ''a''"
proof -
  have wf: "wf_desired_state (sample_request 0 n)" if "n = ''a'' \<or> n = ''b''" for n
    using that by (auto simp: desired_state_eval)
  have key: "request_key (sample_request 0 n) = (''s'', 1)" "ads_expected_revision (sample_request 0 n) = 0"
      "ads_new_revision (sample_request 0 n) = 1" for n
    by (simp_all add: request_key_def sample_request_def)
  let ?reg = "registry_new\<lparr>reg_sessions := (reg_sessions registry_new)((''s'', 1) \<mapsto> sample_request 0 ''a'')\<rparr>"
  let ?a = "\<lparr>dsa_session_id = ''s'', dsa_revision = 1, dsa_activation_sequence = 0\<rparr>"
  have sid: "ads_session_id (sample_request 0 n) = ''s''" for n by (simp add: sample_request_def)
  have one: "registry_apply (apply_all registry_apply registry_new []) (sample_request 0 ''a'') = Ok (?a, ?reg)"
    by (simp add: registry_apply_Ok_iff wf key sid registry_new_def committed_revision_def)
  have ne: "sample_request 0 ''a'' \<noteq> sample_request 0 ''b''" by (simp add: sample_request_def)
  have "\<not> registry_apply ?reg (sample_request 0 ''b'') = Ok p" for p
    using ne by (cases p) (simp add: registry_apply_Ok_iff wf key sid committed_revision_def)
  then have "apply_all registry_apply ?reg [sample_request 0 ''b''] = ?reg"
    by (auto split: sum.splits)
  then have two: "registry_apply (apply_all registry_apply ?reg [sample_request 0 ''b''])
      (sample_request 0 ''a'') = Ok (?a, ?reg)"
    by (simp add: registry_apply_Ok_iff wf key sid committed_revision_def)
  from registry_no_lost_update [OF one two refl refl] one two show ?thesis by blast
qed

text \<open>
  Replaying a committed request is idempotent: from any registry reached from the empty
  one, a request that succeeded succeeds again at once with the same answer and leaves the
  registry as it is.
\<close>

theorem registry_replay_idempotent:
  assumes "registry_apply (apply_all registry_apply registry_new before) r = Ok (a, reg)"
  shows "registry_apply reg r = Ok (a, reg) \<and>
    registry_committed reg (ads_session_id r) (ads_chain_id r) = Some r"
proof -
  have ok: "registry_ok reg" using registry_apply_good [OF registry_ok_reachable assms] .
  have r: "reg_sessions reg (request_key r) = Some r"
    using assms by (auto simp: registry_apply_Ok_iff split: if_splits)
  then have "unat (ads_new_revision r) = Suc (unat (ads_expected_revision r))"
    using ok by (simp add: registry_ok_successor)
  then have stale: "ads_expected_revision r \<noteq> ads_new_revision r" by auto
  have a: "wf_desired_state r" "a = \<lparr>dsa_session_id = ads_session_id r,
      dsa_revision = ads_new_revision r, dsa_activation_sequence = 0\<rparr>"
    using assms by (simp_all add: registry_apply_Ok_iff)
  have "registry_apply reg r = Ok (a, reg)"
    unfolding registry_apply_Ok_iff by (simp add: a r stale committed_revision_def)
  with r show ?thesis by (simp add: registry_committed_def request_key_def)
qed

theorem registry_replay_idempotent_witness:
  "\<exists>a reg. registry_apply (apply_all registry_apply registry_new []) (sample_request 0 ''a'') =
      Ok (a, reg) \<and> registry_apply reg (sample_request 0 ''a'') = Ok (a, reg) \<and>
    registry_committed reg ''s'' 1 = Some (sample_request 0 ''a'')"
proof -
  have "wf_desired_state (sample_request 0 ''a'')" by (simp add: desired_state_eval)
  then obtain a reg where one:
      "registry_apply (apply_all registry_apply registry_new []) (sample_request 0 ''a'') = Ok (a, reg)"
    by (simp add: registry_apply_Ok_iff registry_new_def committed_revision_def)
       (simp add: sample_request_def)
  have "ads_session_id (sample_request 0 ''a'') = ''s''" "ads_chain_id (sample_request 0 ''a'') = 1"
    by (simp_all add: sample_request_def)
  with registry_replay_idempotent [OF one] one show ?thesis by auto
qed

end
