(* ===== verification/Query_Plan.thy ===== *)
theory Query_Plan
  imports Audience Desired_State
begin

text \<open>
  \<open>hypersync/src/query_plan.rs\<close>: compiling the log and block interests of a committed desired
  state into one bounded provider query. Interests are canonicalised and collected in an
  ordered map, a match-all filter subsumes the others, and the number of filters is bounded.

  The filter type and its builder belong to the HyperSync client, so they are parameters: the
  record \<open>LogFilterBuilder\<close> holds the constructor and the five calls the code makes, and
  \<open>builder_laws\<close> states their documented meaning over the fields of a filter: a list of addresses
  and a list of values for each topic position, where an empty list admits everything and a call
  replaces the list of its field.
\<close>

section \<open>Data\<close>

definition MAX_BLOCKS_PER_QUERY :: usize where "MAX_BLOCKS_PER_QUERY = 1000"
definition MAX_LOGS_PER_QUERY :: usize where "MAX_LOGS_PER_QUERY = 5000"
definition MAX_COMPILED_LOG_FILTERS :: usize where "MAX_COMPILED_LOG_FILTERS = 4096"

type_synonym CanonicalLogFilter = "bytes list \<times> bytes list list"

datatype QueryPlanError =
    InvalidRange u64 u64
  | InvalidLogFilter string string
  | TooManyTopicPositions string usize
  | TooManyCompiledLogFilters usize
  | PlanPanic string

record 'f LogFilterBuilder =
  fb_all :: 'f
  fb_and_address :: "'f \<Rightarrow> bytes list \<Rightarrow> string + 'f"
  fb_and_topic0 :: "'f \<Rightarrow> bytes list \<Rightarrow> string + 'f"
  fb_and_topic1 :: "'f \<Rightarrow> bytes list \<Rightarrow> string + 'f"
  fb_and_topic2 :: "'f \<Rightarrow> bytes list \<Rightarrow> string + 'f"
  fb_and_topic3 :: "'f \<Rightarrow> bytes list \<Rightarrow> string + 'f"

datatype BlockField = FieldNumber | FieldHash | FieldParentHash | FieldTimestamp

datatype BlockFieldSelection = AllBlockFields | SomeBlockFields "BlockField list"

record 'f Query =
  q_from_block :: u64
  q_to_block_excl :: "u64 option"
  q_include_all_blocks :: bool
  q_all_log_fields :: bool
  q_max_num_blocks :: "usize option"
  q_max_num_logs :: "usize option"
  q_logs :: "'f list"
  q_block_fields :: BlockFieldSelection

record CompileState =
  cs_filters :: "(CanonicalLogFilter \<times> string) list"
  cs_filter_limit_exceeded :: bool
  cs_match_all :: bool
  cs_explicit_headers :: bool

section \<open>Compilation\<close>

definition validate_log_filter ::
    "string \<Rightarrow> bytes list \<Rightarrow> TopicValues list \<Rightarrow> QueryPlanError + unit" where
  "validate_log_filter owner_id addresses topics =
     (case find (\<lambda>address. length address \<noteq> 20) addresses of
        Some address \<Rightarrow> Err (InvalidLogFilter owner_id
          (''address must be 20 bytes, got '' @ decimal (length address)))
      | None \<Rightarrow>
          (case find (\<lambda>topic. length topic \<noteq> 32) (concat (map tv_values topics)) of
             Some topic \<Rightarrow> Err (InvalidLogFilter owner_id
               (''topic must be 32 bytes, got '' @ decimal (length topic)))
           | None \<Rightarrow> Ok ()))"

fun pop_trailing_empty :: "'a list list \<Rightarrow> 'a list list" where
  "pop_trailing_empty topics =
     (if topics \<noteq> [] \<and> last topics = [] then pop_trailing_empty (butlast topics) else topics)"

declare pop_trailing_empty.simps [simp del]

definition canonical_log_filter :: "bytes list \<Rightarrow> TopicValues list \<Rightarrow> CanonicalLogFilter" where
  "canonical_log_filter addresses topics =
     (remdups_adj (sort addresses),
      pop_trailing_empty (map (\<lambda>position. remdups_adj (sort (tv_values position))) topics))"

definition collect_filter :: "CanonicalLogFilter \<Rightarrow> string \<Rightarrow> CompileState \<Rightarrow> CompileState" where
  "collect_filter key owner_id s =
     (if fst key = [] \<and> snd key = [] then
        s\<lparr>cs_match_all := True, cs_filters := btree_insert key owner_id []\<rparr>
      else if \<not> cs_match_all s \<and> map_of (cs_filters s) key = None then
        (if length (cs_filters s) = MAX_COMPILED_LOG_FILTERS
         then s\<lparr>cs_filter_limit_exceeded := True\<rparr>
         else s\<lparr>cs_filters := btree_insert key owner_id (cs_filters s)\<rparr>)
      else s)"

definition compile_interest ::
    "string \<Rightarrow> PortableInterest \<Rightarrow> CompileState \<Rightarrow> QueryPlanError + CompileState" where
  "compile_interest owner_id interest s =
     (case pi_kind interest of
        Some (KindLog log) \<Rightarrow>
          (if 4 < length (li_topics log)
             then Err (TooManyTopicPositions owner_id (length (li_topics log)))
           else
             bind_res (validate_log_filter owner_id (li_addresses log) (li_topics log)) (\<lambda>_.
             Ok (collect_filter (canonical_log_filter (li_addresses log) (li_topics log)) owner_id s)))
      | Some (KindBlock _) \<Rightarrow> Ok (s\<lparr>cs_explicit_headers := True\<rparr>)
      | None \<Rightarrow> Ok s)"

definition compile_interests :: "ApplyDesiredState \<Rightarrow> QueryPlanError + CompileState" where
  "compile_interests desired_state =
     fold_res (\<lambda>owner. fold_res (compile_interest (oi_owner_id owner)) (oi_interests owner))
       (ads_owners desired_state)
       \<lparr>cs_filters = [], cs_filter_limit_exceeded = False, cs_match_all = False,
        cs_explicit_headers = False\<rparr>"

definition build_topic ::
    "'f LogFilterBuilder \<Rightarrow> string \<Rightarrow> nat \<times> bytes list \<Rightarrow> 'f \<Rightarrow> QueryPlanError + 'f" where
  "build_topic b owner_id it flt =
     (let (index, values) = it in
      if values = [] then Ok flt
      else if 3 < index then Err (PlanPanic ''canonicalized topics are bounded above'')
      else map_err (InvalidLogFilter owner_id)
        (if index = 0 then fb_and_topic0 b flt values
         else if index = 1 then fb_and_topic1 b flt values
         else if index = 2 then fb_and_topic2 b flt values
         else fb_and_topic3 b flt values))"

definition build_filter ::
    "'f LogFilterBuilder \<Rightarrow> CanonicalLogFilter \<times> string \<Rightarrow> QueryPlanError + 'f" where
  "build_filter b entry =
     (let ((addresses, topics), owner_id) = entry in
      bind_res
        (if addresses = [] then Ok (fb_all b)
         else map_err (InvalidLogFilter owner_id) (fb_and_address b (fb_all b) addresses))
        (fold_res (build_topic b owner_id) (enumerate 0 topics)))"

definition compile_query_with_limits ::
    "'f LogFilterBuilder \<Rightarrow> ApplyDesiredState \<Rightarrow> u64 \<Rightarrow> u64 option \<Rightarrow> usize \<Rightarrow> usize \<Rightarrow>
     QueryPlanError + 'f Query" where
  "compile_query_with_limits b desired_state from_block to_block_excl max_blocks max_logs =
     bind_res
       (case to_block_excl of
          Some stop \<Rightarrow> (if stop \<le> from_block then Err (InvalidRange from_block stop) else Ok ())
        | None \<Rightarrow> Ok ()) (\<lambda>_.
     bind_res (compile_interests desired_state) (\<lambda>s.
     if cs_filter_limit_exceeded s \<and> \<not> cs_match_all s
       then Err (TooManyCompiledLogFilters MAX_COMPILED_LOG_FILTERS)
     else
       bind_res (map_res (build_filter b) (cs_filters s)) (\<lambda>filters.
       Ok \<lparr>q_from_block = from_block, q_to_block_excl = to_block_excl, q_include_all_blocks = True,
           q_all_log_fields = True, q_max_num_blocks = Some (max max_blocks 1),
           q_max_num_logs = Some (max max_logs 1), q_logs = filters,
           q_block_fields =
             (if cs_explicit_headers s then AllBlockFields
              else SomeBlockFields [FieldNumber, FieldHash, FieldParentHash, FieldTimestamp])\<rparr>)))"

definition compile_query ::
    "'f LogFilterBuilder \<Rightarrow> ApplyDesiredState \<Rightarrow> u64 \<Rightarrow> u64 option \<Rightarrow> QueryPlanError + 'f Query" where
  "compile_query b desired_state from_block to_block_excl =
     compile_query_with_limits b desired_state from_block to_block_excl
       MAX_BLOCKS_PER_QUERY MAX_LOGS_PER_QUERY"

section \<open>What filters match\<close>

text \<open>The reading of a canonical filter: empty positions admit everything.\<close>

definition filter_matches :: "CanonicalLogFilter \<Rightarrow> bytes \<Rightarrow> bytes list \<Rightarrow> bool" where
  "filter_matches key address topics \<longleftrightarrow>
     (fst key = [] \<or> address \<in> set (fst key)) \<and>
     (\<forall>i < length (snd key). snd key ! i = [] \<or> i < length topics \<and> topics ! i \<in> set (snd key ! i))"

text \<open>
  The documented meaning of the builder. A filter has an address field and four topic fields;
  \<open>all\<close> leaves every field empty, a call replaces one field by values of the right width, and the
  provider returns the logs that are admitted by every field, an empty one admitting all. \<open>view\<close>
  reads the fields of a filter and \<open>m\<close> is what the provider returns for it.
\<close>

record LogFilterFields =
  lff_address :: "bytes list"
  lff_topic :: "nat \<Rightarrow> bytes list"

definition fields_match :: "LogFilterFields \<Rightarrow> bytes \<Rightarrow> bytes list \<Rightarrow> bool" where
  "fields_match fl address topics \<longleftrightarrow>
     (lff_address fl = [] \<or> address \<in> set (lff_address fl)) \<and>
     (\<forall>i < 4. lff_topic fl i = [] \<or> i < length topics \<and> topics ! i \<in> set (lff_topic fl i))"

definition replaces_topic ::
    "('f \<Rightarrow> LogFilterFields) \<Rightarrow> ('f \<Rightarrow> bytes list \<Rightarrow> string + 'f) \<Rightarrow> nat \<Rightarrow> bool" where
  "replaces_topic view call i \<longleftrightarrow>
     (\<forall>f vs. list_all (\<lambda>v. length v = 32) vs \<longrightarrow>
        (\<exists>f'. call f vs = Ok f' \<and> view f' = (view f)\<lparr>lff_topic := (lff_topic (view f))(i := vs)\<rparr>))"

definition builder_laws ::
    "'f LogFilterBuilder \<Rightarrow> ('f \<Rightarrow> LogFilterFields) \<Rightarrow> ('f \<Rightarrow> bytes \<Rightarrow> bytes list \<Rightarrow> bool) \<Rightarrow> bool" where
  "builder_laws b view m \<longleftrightarrow>
     view (fb_all b) = \<lparr>lff_address = [], lff_topic = (\<lambda>_. [])\<rparr> \<and>
     (\<forall>f vs. list_all (\<lambda>v. length v = 20) vs \<longrightarrow>
        (\<exists>f'. fb_and_address b f vs = Ok f' \<and> view f' = (view f)\<lparr>lff_address := vs\<rparr>)) \<and>
     replaces_topic view (fb_and_topic0 b) 0 \<and> replaces_topic view (fb_and_topic1 b) 1 \<and>
     replaces_topic view (fb_and_topic2 b) 2 \<and> replaces_topic view (fb_and_topic3 b) 3 \<and>
     (\<forall>f a ts. m f a ts \<longleftrightarrow> fields_match (view f) a ts)"

definition wf_key :: "CanonicalLogFilter \<Rightarrow> bool" where
  "wf_key key \<longleftrightarrow> (\<forall>a \<in> set (fst key). length a = 20) \<and> length (snd key) \<le> 4 \<and>
     (\<forall>vs \<in> set (snd key). \<forall>v \<in> set vs. length v = 32)"

section \<open>Canonical filters\<close>

lemma length_pop_trailing_empty: "length (pop_trailing_empty ts) \<le> length ts"
  by (induction ts rule: pop_trailing_empty.induct) (subst pop_trailing_empty.simps, auto)

lemma pop_trailing_empty_spec:
  "\<exists>n. ts = pop_trailing_empty ts @ replicate n []"
proof (induction ts rule: pop_trailing_empty.induct)
  case (1 ts)
  show ?case
  proof (cases "ts \<noteq> [] \<and> last ts = []")
    case True
    then obtain n where "butlast ts = pop_trailing_empty ts @ replicate n []"
      using 1 by (auto simp: pop_trailing_empty.simps [of ts])
    then have pop: "butlast ts @ [[]] = pop_trailing_empty ts @ replicate (Suc n) []"
      by (simp add: replicate_append_same)
    have "butlast ts @ [[]] = ts" using True append_butlast_last_id [of ts] by simp
    from trans [OF sym [OF this] pop] show ?thesis by (rule exI)
  next
    case False
    then have "pop_trailing_empty ts = ts" by (subst pop_trailing_empty.simps) (simp only: if_False)
    then have "ts = pop_trailing_empty ts @ replicate 0 []" by simp
    then show ?thesis by (rule exI)
  qed
qed

lemma filter_matches_pop:
  "filter_matches (as, pop_trailing_empty ts) a tps \<longleftrightarrow> filter_matches (as, ts) a tps"
proof -
  obtain us n where us: "pop_trailing_empty ts = us" "ts = us @ replicate n []"
    using pop_trailing_empty_spec by blast
  have "(\<forall>i < length us. us ! i = [] \<or> i < length tps \<and> tps ! i \<in> set (us ! i)) \<longleftrightarrow>
      (\<forall>i < length ts. ts ! i = [] \<or> i < length tps \<and> tps ! i \<in> set (ts ! i))"
    by (auto simp: us(2) nth_append)
  then show ?thesis by (simp add: filter_matches_def us(1))
qed

text \<open>A log interest matches an event exactly when its canonical filter does.\<close>

lemma canonical_log_filter_matches:
  "filter_matches (canonical_log_filter (li_addresses log) (li_topics log)) (le_address ev) (le_topics ev) \<longleftrightarrow>
   interest_matches_event \<lparr>pi_kind = Some (KindLog log)\<rparr> \<lparr>ce_event = Some (EventLog ev)\<rparr>"
  unfolding canonical_log_filter_def filter_matches_pop
  by (auto simp: filter_matches_def interest_matches_event_def list_all_enumerate topic_at_def)

lemma wf_canonical_log_filter:
  "length (li_topics log) \<le> 4 \<Longrightarrow>
   validate_log_filter o_id (li_addresses log) (li_topics log) = Ok u \<Longrightarrow>
   wf_key (canonical_log_filter (li_addresses log) (li_topics log))"
proof -
  assume *: "length (li_topics log) \<le> 4"
    "validate_log_filter o_id (li_addresses log) (li_topics log) = Ok u"
  let ?ts = "map (\<lambda>position. remdups_adj (sort (tv_values position))) (li_topics log)"
  obtain n where "?ts = pop_trailing_empty ?ts @ replicate n []" using pop_trailing_empty_spec by blast
  then have "set (pop_trailing_empty ?ts) \<subseteq> set ?ts" by (metis set_append Un_upper1)
  with * length_pop_trailing_empty [of ?ts] show ?thesis
    by (fastforce simp: wf_key_def canonical_log_filter_def validate_log_filter_def find_None_iff
        split: option.splits)
qed

section \<open>The collected filters\<close>

text \<open>The canonical filters of the log interests, in the order the loops visit them.\<close>

definition interest_keys :: "PortableInterest \<Rightarrow> CanonicalLogFilter list" where
  "interest_keys interest =
     (case pi_kind interest of
        Some (KindLog log) \<Rightarrow> [canonical_log_filter (li_addresses log) (li_topics log)]
      | _ \<Rightarrow> [])"

definition state_keys :: "ApplyDesiredState \<Rightarrow> CanonicalLogFilter list" where
  "state_keys desired_state =
     concat (map interest_keys (concat (map oi_interests (ads_owners desired_state))))"

abbreviation match_all_key :: CanonicalLogFilter where
  "match_all_key \<equiv> ([], [])"

text \<open>What the collecting loop maintains about the filters of the interests already visited.\<close>

definition collected :: "CanonicalLogFilter list \<Rightarrow> CompileState \<Rightarrow> bool" where
  "collected ks s \<longleftrightarrow>
     btree_ok (cs_filters s) \<and> length (cs_filters s) \<le> MAX_COMPILED_LOG_FILTERS \<and>
     (cs_match_all s \<longleftrightarrow> match_all_key \<in> set ks) \<and>
     (cs_match_all s \<longrightarrow> fst ` set (cs_filters s) = {match_all_key}) \<and>
     fst ` set (cs_filters s) \<subseteq> set ks \<and>
     (\<not> cs_match_all s \<and> \<not> cs_filter_limit_exceeded s \<longrightarrow> fst ` set (cs_filters s) = set ks) \<and>
     (cs_filter_limit_exceeded s \<longrightarrow> MAX_COMPILED_LOG_FILTERS < card (set ks)) \<and>
     (\<forall>k \<in> set ks. wf_key k)"

lemma btree_ok_distinct: "btree_ok m \<Longrightarrow> distinct (map fst m)"
  unfolding btree_ok_def using strict_sorted_iff by blast

lemma length_btree_card: "btree_ok m \<Longrightarrow> length m = card (fst ` set m)"
  by (metis btree_ok_distinct distinct_card length_map list.set_map)

lemma length_btree_insert:
  "btree_ok m \<Longrightarrow> map_of m k = None \<Longrightarrow> length (btree_insert k v m) = Suc (length m)"
  by (simp add: length_btree_card btree_ok_insert keys_btree_insert map_of_eq_None_iff)

lemma collected_collect_filter:
  assumes c: "collected ks s" and k: "wf_key k"
  shows "collected (ks @ [k]) (collect_filter k o_id s)"
proof -
  let ?K = "fst ` set (cs_filters s)"
  have mono: "card (set ks) \<le> card (set (ks @ [k]))" by (intro card_mono) auto
  consider (all) "k = match_all_key"
    | (known) "k \<noteq> match_all_key" "cs_match_all s \<or> k \<in> ?K"
    | (full) "k \<noteq> match_all_key" "\<not> cs_match_all s" "k \<notin> ?K"
        "length (cs_filters s) = MAX_COMPILED_LOG_FILTERS"
    | (room) "k \<noteq> match_all_key" "\<not> cs_match_all s" "k \<notin> ?K"
        "length (cs_filters s) \<noteq> MAX_COMPILED_LOG_FILTERS"
    by blast
  then show ?thesis
  proof cases
    case all
    with c k mono show ?thesis
      by (auto simp: collected_def collect_filter_def MAX_COMPILED_LOG_FILTERS_def btree_ok_def)
  next
    case known
    then have same: "collect_filter k o_id s = s"
      by (cases k) (auto simp: collect_filter_def map_of_eq_None_iff)
    from known c have "set (ks @ [k]) = set ks" if "\<not> cs_match_all s"
      using that by (auto simp: collected_def)
    with known c k mono show ?thesis by (auto simp: collected_def same)
  next
    case full
    then have step: "collect_filter k o_id s = s\<lparr>cs_filter_limit_exceeded := True\<rparr>"
      by (cases k) (auto simp: collect_filter_def map_of_eq_None_iff)
    have "card ?K = MAX_COMPILED_LOG_FILTERS"
      using full c length_btree_card [of "cs_filters s"] by (simp add: collected_def)
    then have "MAX_COMPILED_LOG_FILTERS < card (insert k ?K)"
      using full by simp
    also have "\<dots> \<le> card (set (ks @ [k]))"
      using c by (intro card_mono) (auto simp: collected_def)
    finally show ?thesis using full c k by (auto simp: collected_def step)
  next
    case room
    then have step: "collect_filter k o_id s = s\<lparr>cs_filters := btree_insert k o_id (cs_filters s)\<rparr>"
      by (cases k) (auto simp: collect_filter_def map_of_eq_None_iff)
    have "length (btree_insert k o_id (cs_filters s)) = Suc (length (cs_filters s))"
      using room c by (intro length_btree_insert) (auto simp: collected_def map_of_eq_None_iff)
    with room c k mono show ?thesis
      by (auto simp: collected_def step btree_ok_insert keys_btree_insert)
  qed
qed

text \<open>The interests the loops accept, and what holds once they have visited them.\<close>

definition compilable :: "PortableInterest \<Rightarrow> bool" where
  "compilable interest =
     (case pi_kind interest of Some (KindLog log) \<Rightarrow> wf_log_interest log | _ \<Rightarrow> True)"

definition visited :: "PortableInterest list \<Rightarrow> CompileState \<Rightarrow> bool" where
  "visited is s \<longleftrightarrow>
     collected (concat (map interest_keys is)) s \<and> list_all compilable is \<and>
     (cs_explicit_headers s \<longleftrightarrow> list_ex is_block_interest is)"

lemma validate_log_filter_Ok_iff:
  "length (li_topics log) \<le> 4 \<and> validate_log_filter o_id (li_addresses log) (li_topics log) = Ok u \<longleftrightarrow>
   wf_log_interest log"
proof -
  have addresses: "(\<forall>a \<in> set (li_addresses log). length a = 20) \<longleftrightarrow>
      find (\<lambda>a. length a \<noteq> 20) (li_addresses log) = None"
    by (auto simp: find_None_iff)
  have topics: "(\<forall>p \<in> set (li_topics log). \<forall>t \<in> set (tv_values p). length t = 32) \<longleftrightarrow>
      find (\<lambda>t. length t \<noteq> 32) (concat (map tv_values (li_topics log))) = None"
    by (auto simp: find_None_iff)
  show ?thesis
    unfolding wf_log_interest_def addresses topics validate_log_filter_def
    by (auto split: option.splits)
qed

lemma compile_interest_Ok_iff:
  "(\<exists>s'. compile_interest o_id interest s = Ok s') \<longleftrightarrow> compilable interest"
  using validate_log_filter_Ok_iff [of "case the (pi_kind interest) of KindLog l \<Rightarrow> l" o_id "()"]
  by (auto simp: compile_interest_def compilable_def bind_res_Ok_iff not_less
      split: option.splits InterestKind.splits)

lemma compile_interest_visited:
  assumes v: "visited is s" and step: "compile_interest o_id interest s = Ok s'"
  shows "visited (is @ [interest]) s'"
proof (cases "pi_kind interest")
  case None
  then have "s' = s" "interest_keys interest = []" "compilable interest" "\<not> is_block_interest interest"
    using step
    by (simp_all add: compile_interest_def interest_keys_def compilable_def is_block_interest_def)
  with v show ?thesis by (simp add: visited_def)
next
  case (Some kind)
  have ok: "compilable interest" using compile_interest_Ok_iff step by blast
  show ?thesis
  proof (cases kind)
    case (KindBlock b)
    then have "s' = s\<lparr>cs_explicit_headers := True\<rparr>" "interest_keys interest = []"
        "is_block_interest interest"
      using step Some by (simp_all add: compile_interest_def interest_keys_def is_block_interest_def)
    with v ok show ?thesis by (simp add: visited_def collected_def)
  next
    case (KindLog log)
    let ?k = "canonical_log_filter (li_addresses log) (li_topics log)"
    from KindLog Some step have s': "s' = collect_filter ?k o_id s"
      and valid: "length (li_topics log) \<le> 4"
        "validate_log_filter o_id (li_addresses log) (li_topics log) = Ok ()"
      by (auto simp: compile_interest_def bind_res_Ok_iff split: if_splits)
    have "collected (concat (map interest_keys is) @ [?k]) s'"
      using collected_collect_filter wf_canonical_log_filter [OF valid] v s' by (simp add: visited_def)
    moreover have "cs_explicit_headers s' = cs_explicit_headers s"
      by (simp add: s' collect_filter_def)
    ultimately show ?thesis
      using v ok Some KindLog by (simp add: visited_def interest_keys_def is_block_interest_def)
  qed
qed

lemma compile_owner_visited:
  "visited before s \<Longrightarrow> fold_res (compile_interest o_id) is s = Ok s' \<Longrightarrow> visited (before @ is) s'"
proof (induction "is" arbitrary: before s)
  case Nil
  then show ?case by simp
next
  case (Cons i "is")
  then obtain t where t: "compile_interest o_id i s = Ok t" "fold_res (compile_interest o_id) is t = Ok s'"
    by (auto simp: bind_res_Ok_iff)
  from Cons.IH [OF compile_interest_visited [OF Cons.prems(1) t(1)] t(2)] show ?case by simp
qed

lemma compile_owner_Ok_iff:
  "(\<exists>s'. fold_res (compile_interest o_id) is s = Ok s') \<longleftrightarrow> list_all compilable is"
proof (induction "is" arbitrary: s)
  case Nil
  then show ?case by simp
next
  case (Cons i "is")
  from Cons.IH compile_interest_Ok_iff [of o_id i s] show ?case
    by (auto simp: bind_res_Ok_iff)
qed

lemma compile_owners_visited:
  "visited before s \<Longrightarrow>
   fold_res (\<lambda>owner. fold_res (compile_interest (oi_owner_id owner)) (oi_interests owner)) owners s = Ok s' \<Longrightarrow>
   visited (before @ concat (map oi_interests owners)) s'"
proof (induction owners arbitrary: before s)
  case Nil
  then show ?case by simp
next
  case (Cons owner owners)
  then obtain t where t: "fold_res (compile_interest (oi_owner_id owner)) (oi_interests owner) s = Ok t"
      "fold_res (\<lambda>owner. fold_res (compile_interest (oi_owner_id owner)) (oi_interests owner)) owners t = Ok s'"
    by (auto simp: bind_res_Ok_iff)
  from Cons.IH [OF compile_owner_visited [OF Cons.prems(1) t(1)] t(2)] show ?case by simp
qed

lemma compile_owners_Ok_iff:
  "(\<exists>s'. fold_res (\<lambda>owner. fold_res (compile_interest (oi_owner_id owner)) (oi_interests owner)) owners s = Ok s') \<longleftrightarrow>
   list_all compilable (concat (map oi_interests owners))"
proof (induction owners arbitrary: s)
  case Nil
  then show ?case by simp
next
  case (Cons owner owners)
  from Cons.IH compile_owner_Ok_iff [of "oi_owner_id owner" "oi_interests owner" s] show ?case
    by (auto simp: bind_res_Ok_iff)
qed

abbreviation all_interests :: "ApplyDesiredState \<Rightarrow> PortableInterest list" where
  "all_interests desired_state \<equiv> concat (map oi_interests (ads_owners desired_state))"

lemma compile_interests_visited:
  "compile_interests desired_state = Ok s \<Longrightarrow> visited (all_interests desired_state) s"
  unfolding compile_interests_def
  by (drule compile_owners_visited [where before = "[]", rotated])
     (simp_all add: visited_def collected_def)

lemma compile_interests_Ok_iff:
  "(\<exists>s. compile_interests desired_state = Ok s) \<longleftrightarrow> list_all compilable (all_interests desired_state)"
  unfolding compile_interests_def by (rule compile_owners_Ok_iff)

section \<open>The built filters\<close>

text \<open>The loop skips empty positions, so no field is ever set to an empty list.\<close>

lemma build_topic_Ok:
  assumes laws: "builder_laws b view m" and i: "i < 4" and vs: "\<forall>v \<in> set vs. length v = 32"
  shows "\<exists>f'. build_topic b o_id (i, vs) f = Ok f' \<and> lff_address (view f') = lff_address (view f) \<and>
    lff_topic (view f') = (if vs = [] then lff_topic (view f) else (lff_topic (view f))(i := vs))"
proof (cases "vs = []")
  case True
  then show ?thesis by (simp add: build_topic_def)
next
  case False
  have vs': "list_all (\<lambda>v. length v = 32) vs" using vs by (simp add: list_all_iff)
  have "\<exists>call. replaces_topic view call i \<and>
      build_topic b o_id (i, vs) f = map_err (InvalidLogFilter o_id) (call f vs)"
    using laws i False
    by (auto simp: builder_laws_def build_topic_def numeral_eq_Suc less_Suc_eq)
  then obtain call where call: "replaces_topic view call i"
      "build_topic b o_id (i, vs) f = map_err (InvalidLogFilter o_id) (call f vs)"
    by blast
  from call(1) vs' obtain f' where "call f vs = Ok f'"
      "view f' = (view f)\<lparr>lff_topic := (lff_topic (view f))(i := vs)\<rparr>"
    unfolding replaces_topic_def by blast
  with call(2) False show ?thesis by simp
qed

lemma build_topics_Ok:
  assumes laws: "builder_laws b view m"
  shows "n + length tss \<le> 4 \<Longrightarrow> \<forall>vs \<in> set tss. \<forall>v \<in> set vs. length v = 32 \<Longrightarrow>
    \<forall>i \<ge> n. lff_topic (view f) i = [] \<Longrightarrow>
    \<exists>f'. fold_res (build_topic b o_id) (enumerate n tss) f = Ok f' \<and> lff_address (view f') = lff_address (view f) \<and>
      (\<forall>i. lff_topic (view f') i =
        (if i < n then lff_topic (view f) i else if i < n + length tss then tss ! (i - n) else []))"
proof (induction tss arbitrary: n f)
  case Nil
  then show ?case by auto
next
  case (Cons vs tss)
  obtain g where g: "build_topic b o_id (n, vs) f = Ok g" "lff_address (view g) = lff_address (view f)"
      "lff_topic (view g) = (if vs = [] then lff_topic (view f) else (lff_topic (view f))(n := vs))"
    using build_topic_Ok [OF laws, of n vs o_id f] Cons.prems by auto
  obtain f' where f': "fold_res (build_topic b o_id) (enumerate (Suc n) tss) g = Ok f'"
      "lff_address (view f') = lff_address (view g)"
      "\<And>i. lff_topic (view f') i =
        (if i < Suc n then lff_topic (view g) i else if i < Suc n + length tss then tss ! (i - Suc n) else [])"
    using Cons.IH [of "Suc n" g] Cons.prems g(3) by fastforce
  have at_n: "lff_topic (view g) n = vs" and before: "i < n \<Longrightarrow> lff_topic (view g) i = lff_topic (view f) i" for i
    using Cons.prems(3) by (simp_all add: g(3))
  have "lff_topic (view f') i = (if i < n then lff_topic (view f) i
      else if i < n + length (vs # tss) then (vs # tss) ! (i - n) else [])" for i
    unfolding f'(3) using at_n before by (cases i n rule: linorder_cases) (auto simp: nth_Cons')
  with g(1,2) f'(1,2) show ?case by auto
qed

lemma build_filter_Ok:
  assumes laws: "builder_laws b view m" and key: "wf_key key"
  shows "\<exists>f. build_filter b (key, o_id) = Ok f \<and> (\<forall>a ts. m f a ts \<longleftrightarrow> filter_matches key a ts)"
proof -
  obtain as tss where k: "key = (as, tss)" by (cases key)
  have wf: "list_all (\<lambda>v. length v = 20) as" "length tss \<le> 4" "\<forall>vs \<in> set tss. \<forall>v \<in> set vs. length v = 32"
    using key by (simp_all add: wf_key_def k list_all_iff)
  from laws have none: "view (fb_all b) = \<lparr>lff_address = [], lff_topic = (\<lambda>_. [])\<rparr>"
    and m: "\<And>f a ts. m f a ts \<longleftrightarrow> fields_match (view f) a ts"
    and address: "\<exists>f. fb_and_address b (fb_all b) as = Ok f \<and> view f = (view (fb_all b))\<lparr>lff_address := as\<rparr>"
    using wf(1) unfolding builder_laws_def by blast+
  obtain f where f: "(if as = [] then Ok (fb_all b)
        else map_err (InvalidLogFilter o_id) (fb_and_address b (fb_all b) as)) = Ok f"
      "lff_address (view f) = as" "\<And>i. lff_topic (view f) i = []"
    using address none by (cases "as = []") auto
  obtain f' where f': "fold_res (build_topic b o_id) (enumerate 0 tss) f = Ok f'"
      "lff_address (view f') = as" "\<And>i. lff_topic (view f') i = (if i < length tss then tss ! i else [])"
    using build_topics_Ok [OF laws, of 0 tss f o_id] wf(2,3) f(2,3) by auto
  have "m f' a ts \<longleftrightarrow> filter_matches key a ts" for a ts
    unfolding m fields_match_def filter_matches_def k fst_conv snd_conv f'(2,3) using wf(2) by auto
  moreover have "build_filter b (key, o_id) = Ok f'" using f(1) f'(1) by (simp add: k build_filter_def)
  ultimately show ?thesis by blast
qed

lemma build_filters_Ok:
  assumes laws: "builder_laws b view m" and keys: "\<forall>e \<in> set es. wf_key (fst e)"
  shows "\<exists>fs. map_res (build_filter b) es = Ok fs \<and> length fs = length es \<and>
    (\<forall>a ts. (\<exists>f \<in> set fs. m f a ts) \<longleftrightarrow> (\<exists>k \<in> fst ` set es. filter_matches k a ts))"
  using keys
proof (induction es)
  case Nil
  then show ?case by simp
next
  case (Cons e es)
  obtain f where "build_filter b e = Ok f" "\<And>a ts. m f a ts \<longleftrightarrow> filter_matches (fst e) a ts"
    using build_filter_Ok [OF laws, of "fst e" "snd e"] Cons.prems by auto
  with Cons show ?case by auto
qed

section \<open>Properties\<close>

lemma state_keys_interests:
  "concat (map interest_keys (all_interests desired_state)) = state_keys desired_state"
  by (simp add: state_keys_def)

lemma state_keys_match:
  "(\<exists>k \<in> set (state_keys ds). filter_matches k (le_address ev) (le_topics ev)) \<longleftrightarrow>
   (\<exists>i \<in> set (all_interests ds). interest_matches_event i \<lparr>ce_event = Some (EventLog ev)\<rparr>)"
proof -
  have one: "(\<exists>k \<in> set (interest_keys i). filter_matches k (le_address ev) (le_topics ev)) \<longleftrightarrow>
      interest_matches_event i \<lparr>ce_event = Some (EventLog ev)\<rparr>" for i
  proof (cases "\<exists>log. pi_kind i = Some (KindLog log)")
    case True
    then obtain log where "i = \<lparr>pi_kind = Some (KindLog log)\<rparr>" by (cases i) auto
    then show ?thesis by (simp add: interest_keys_def flip: canonical_log_filter_matches del: split_paired_Ex)
  next
    case False
    then show ?thesis
      by (auto simp: interest_keys_def interest_matches_event_def split: option.splits InterestKind.splits)
  qed
  show ?thesis
    unfolding state_keys_def set_concat set_map by (simp add: one [symmetric])
qed

lemma collected_matches:
  assumes c: "collected ks s" and ok: "\<not> cs_filter_limit_exceeded s \<or> cs_match_all s"
  shows "(\<exists>k \<in> fst ` set (cs_filters s). filter_matches k a ts) \<longleftrightarrow> (\<exists>k \<in> set ks. filter_matches k a ts)"
proof (cases "cs_match_all s")
  case True
  then have "fst ` set (cs_filters s) = {match_all_key}" "match_all_key \<in> set ks"
    using c by (simp_all add: collected_def)
  moreover have "filter_matches match_all_key a ts" by (simp add: filter_matches_def)
  ultimately show ?thesis by auto
next
  case False
  with c ok have "fst ` set (cs_filters s) = set ks" by (simp add: collected_def)
  then show ?thesis by simp
qed

lemma compile_query_cases:
  assumes "compile_query_with_limits b ds from_block to_excl max_blocks max_logs = Ok q"
  obtains s where "visited (all_interests ds) s" "\<not> cs_filter_limit_exceeded s \<or> cs_match_all s"
    "map_res (build_filter b) (cs_filters s) = Ok (q_logs q)"
    "q_block_fields q = AllBlockFields \<longleftrightarrow> cs_explicit_headers s"
    "q_max_num_blocks q = Some (max max_blocks 1)" "q_max_num_logs q = Some (max max_logs 1)"
  using assms compile_interests_visited [of ds]
  by (force simp: compile_query_with_limits_def bind_res_Ok_iff split: if_splits)

text \<open>
  C24: The compiled query asks the provider for exactly the logs the session wants. Whatever
  block and log limits are requested, a log matches one of the compiled filters if and only if
  it matches some log interest of some owner under the same matching that later routes the
  event; deduplication, trailing wildcard positions and the match-all shortcut lose and add
  nothing. \<open>builder_laws\<close> is the documented meaning of the client's filter builder on the fields
  of a filter, in which an empty list admits everything.
\<close>

theorem compile_query_matches:
  assumes laws: "builder_laws b view m"
    and q: "compile_query_with_limits b ds from_block to_excl max_blocks max_logs = Ok q"
  shows "(\<exists>f \<in> set (q_logs q). m f (le_address ev) (le_topics ev)) \<longleftrightarrow>
    (\<exists>owner \<in> set (ads_owners ds). \<exists>i \<in> set (oi_interests owner).
       interest_matches_event i \<lparr>ce_event = Some (EventLog ev)\<rparr>)"
proof -
  from q obtain s where s: "visited (all_interests ds) s" "\<not> cs_filter_limit_exceeded s \<or> cs_match_all s"
      "map_res (build_filter b) (cs_filters s) = Ok (q_logs q)"
    by (rule compile_query_cases)
  have c: "collected (state_keys ds) s" using s(1) by (simp add: visited_def state_keys_interests)
  then have "\<forall>e \<in> set (cs_filters s). wf_key (fst e)" by (auto simp: collected_def)
  from build_filters_Ok [OF laws this] s(3)
  have "(\<exists>f \<in> set (q_logs q). m f (le_address ev) (le_topics ev)) \<longleftrightarrow>
      (\<exists>k \<in> fst ` set (cs_filters s). filter_matches k (le_address ev) (le_topics ev))"
    by auto
  also have "\<dots> \<longleftrightarrow> (\<exists>k \<in> set (state_keys ds). filter_matches k (le_address ev) (le_topics ev))"
    using collected_matches [OF c s(2)] .
  also have "\<dots> \<longleftrightarrow> (\<exists>owner \<in> set (ads_owners ds). \<exists>i \<in> set (oi_interests owner).
       interest_matches_event i \<lparr>ce_event = Some (EventLog ev)\<rparr>)"
    unfolding state_keys_match by simp
  finally show ?thesis .
qed

text \<open>
  C25: Compilation is total and exact on validated desired states. With the documented builder, a
  desired state that passed validation compiles if and only if the range is nonempty and either
  some interest is match-all or at most 4096 distinct filters remain; no other error, in
  particular no rejected width and no unreachable topic index, can occur.
\<close>

theorem compile_query_exact:
  assumes laws: "builder_laws b view m" and wf: "is_ok (validate_desired_state ds)"
  shows "let result = compile_query_with_limits b ds from_block to_excl max_blocks max_logs in
    if \<not> is_none_or (\<lambda>stop. from_block < stop) to_excl
    then result = Err (InvalidRange from_block (the to_excl))
    else if match_all_key \<notin> set (state_keys ds) \<and> 4096 < card (set (state_keys ds))
    then result = Err (TooManyCompiledLogFilters 4096)
    else is_ok result"
proof -
  have "wf_desired_state ds"
    using wf validate_desired_state_Ok_iff [of ds "()"]
    by (cases "validate_desired_state ds") (simp_all add: is_ok_def)
  then have "list_all compilable (all_interests ds)"
    by (auto simp: wf_desired_state_def wf_owner_def wf_interest_def compilable_def list_all_iff
        split: option.splits InterestKind.splits)
  then obtain s where s: "compile_interests ds = Ok s" using compile_interests_Ok_iff by blast
  then have c: "collected (state_keys ds) s"
    using compile_interests_visited by (simp add: visited_def state_keys_interests)
  then have "\<forall>e \<in> set (cs_filters s). wf_key (fst e)" by (auto simp: collected_def)
  from build_filters_Ok [OF laws this] obtain fs where
    fs: "map_res (build_filter b) (cs_filters s) = Ok fs" by blast
  have over: "cs_filter_limit_exceeded s \<and> \<not> cs_match_all s \<longleftrightarrow>
      match_all_key \<notin> set (state_keys ds) \<and> 4096 < card (set (state_keys ds))"
    using c length_btree_card [of "cs_filters s"]
    by (auto simp: collected_def MAX_COMPILED_LOG_FILTERS_def)
  have range: "(case to_excl of
          Some stop \<Rightarrow> (if stop \<le> from_block then Err (InvalidRange from_block stop) else Ok ())
        | None \<Rightarrow> Ok ()) = (if is_none_or (\<lambda>stop. from_block < stop) to_excl then Ok ()
          else Err (InvalidRange from_block (the to_excl)))"
    by (cases to_excl) auto
  show ?thesis
    unfolding compile_query_with_limits_def range
    by (simp add: s fs over [symmetric] MAX_COMPILED_LOG_FILTERS_def is_ok_def)
qed

text \<open>
  C26: Every compiled query is bounded and sufficient: it holds at most 4096 filters, asks for at
  least one block and one log, and selects every header field exactly when some owner has a
  block interest, which is when complete headers have to be reconstructed.
\<close>

theorem compile_query_bounded:
  assumes q: "compile_query_with_limits b ds from_block to_excl max_blocks max_logs = Ok q"
  shows "length (q_logs q) \<le> 4096 \<and>
    (q_block_fields q = AllBlockFields \<longleftrightarrow>
       list_ex (\<lambda>owner. list_ex is_block_interest (oi_interests owner)) (ads_owners ds)) \<and>
    (\<exists>blocks logs. q_max_num_blocks q = Some blocks \<and> 0 < blocks \<and>
       q_max_num_logs q = Some logs \<and> 0 < logs)"
proof -
  from q obtain s where s: "visited (all_interests ds) s"
      "map_res (build_filter b) (cs_filters s) = Ok (q_logs q)"
      "q_block_fields q = AllBlockFields \<longleftrightarrow> cs_explicit_headers s"
      "q_max_num_blocks q = Some (max max_blocks 1)" "q_max_num_logs q = Some (max max_logs 1)"
    by (rule compile_query_cases)
  have "length (q_logs q) = length (cs_filters s)" using length_map_res [OF s(2)] .
  with s show ?thesis
    by (auto simp: visited_def collected_def MAX_COMPILED_LOG_FILTERS_def list_ex_iff)
qed

section \<open>Witnesses\<close>

text \<open>
  A builder over a filter with the five fields: a call checks the width of its values and replaces
  the field.
\<close>

record SampleFilter =
  sf_address :: "bytes list"
  sf_topic0 :: "bytes list"
  sf_topic1 :: "bytes list"
  sf_topic2 :: "bytes list"
  sf_topic3 :: "bytes list"

definition check_width :: "nat \<Rightarrow> bytes list \<Rightarrow> SampleFilter \<Rightarrow> string + SampleFilter" where
  "check_width n vs f = (if list_all (\<lambda>v. length v = n) vs then Ok f else Err ''invalid width'')"

definition sample_builder :: "SampleFilter LogFilterBuilder" where
  "sample_builder =
     \<lparr>fb_all = \<lparr>sf_address = [], sf_topic0 = [], sf_topic1 = [], sf_topic2 = [], sf_topic3 = []\<rparr>,
      fb_and_address = (\<lambda>f vs. check_width 20 vs (f\<lparr>sf_address := vs\<rparr>)),
      fb_and_topic0 = (\<lambda>f vs. check_width 32 vs (f\<lparr>sf_topic0 := vs\<rparr>)),
      fb_and_topic1 = (\<lambda>f vs. check_width 32 vs (f\<lparr>sf_topic1 := vs\<rparr>)),
      fb_and_topic2 = (\<lambda>f vs. check_width 32 vs (f\<lparr>sf_topic2 := vs\<rparr>)),
      fb_and_topic3 = (\<lambda>f vs. check_width 32 vs (f\<lparr>sf_topic3 := vs\<rparr>))\<rparr>"

definition sample_view :: "SampleFilter \<Rightarrow> LogFilterFields" where
  "sample_view f =
     \<lparr>lff_address = sf_address f,
      lff_topic = (\<lambda>_. [])(0 := sf_topic0 f, 1 := sf_topic1 f, 2 := sf_topic2 f, 3 := sf_topic3 f)\<rparr>"

definition sample_matches :: "SampleFilter \<Rightarrow> bytes \<Rightarrow> bytes list \<Rightarrow> bool" where
  "sample_matches f a ts \<longleftrightarrow>
     (sf_address f = [] \<or> a \<in> set (sf_address f)) \<and>
     list_all (\<lambda>(i, vs). vs = [] \<or> i < length ts \<and> ts ! i \<in> set vs)
       [(0, sf_topic0 f), (1, sf_topic1 f), (2, sf_topic2 f), (3, sf_topic3 f)]"

lemma sample_matches_fields: "sample_matches f a ts \<longleftrightarrow> fields_match (sample_view f) a ts"
  by (auto simp: sample_matches_def fields_match_def sample_view_def numeral_eq_Suc All_less_Suc)

lemma sample_builder_laws: "builder_laws sample_builder sample_view sample_matches"
  by (auto simp: builder_laws_def replaces_topic_def sample_builder_def sample_view_def check_width_def
      sample_matches_fields fun_upd_twist)

lemma sample_topics_ordered: "replicate 32 (1 :: u8) \<le> replicate 32 2"
  by code_simp

lemma sample_query:
  "compile_query_with_limits sample_builder sample_desired 10 (Some 20) 100 0 =
     Ok \<lparr>q_from_block = 10, q_to_block_excl = Some 20, q_include_all_blocks = True,
        q_all_log_fields = True, q_max_num_blocks = Some 100, q_max_num_logs = Some 1,
        q_logs = [\<lparr>sf_address = [replicate 20 7], sf_topic0 = [replicate 32 1, replicate 32 2], sf_topic1 = [],
          sf_topic2 = [], sf_topic3 = []\<rparr>],
        q_block_fields = SomeBlockFields [FieldNumber, FieldHash, FieldParentHash, FieldTimestamp]\<rparr>"
  by (simp add: compile_query_with_limits_def compile_interests_def compile_interest_def
      sample_desired_def sample_interest_def validate_log_filter_def canonical_log_filter_def
      collect_filter_def MAX_COMPILED_LOG_FILTERS_def build_filter_def build_topic_def
      sample_builder_def check_width_def pop_trailing_empty.simps sample_topics_ordered)

theorem compile_query_matches_witness:
  "\<exists>q. builder_laws sample_builder sample_view sample_matches \<and>
     compile_query_with_limits sample_builder sample_desired 10 (Some 20) 100 0 = Ok q \<and>
     ((\<exists>f \<in> set (q_logs q). sample_matches f (replicate 20 7) [replicate 32 1]) \<longleftrightarrow>
      (\<exists>owner \<in> set (ads_owners sample_desired). \<exists>i \<in> set (oi_interests owner).
         interest_matches_event i (sample_log 12 7)))"
  using compile_query_matches [OF sample_builder_laws sample_query,
      of "\<lparr>le_address = replicate 20 7, le_topics = [replicate 32 1],
        le_data = [], le_block_number = 12, le_block_hash = replicate 32 9,
        le_transaction_hash = replicate 32 5, le_transaction_index = 0, le_log_index = 0,
        le_block_timestamp = 12, le_removed = False\<rparr>"]
    sample_builder_laws sample_query
  by (simp add: sample_log_def)

theorem compile_query_exact_witness:
  "builder_laws sample_builder sample_view sample_matches \<and> is_ok (validate_desired_state sample_desired) \<and>
   is_ok (compile_query_with_limits sample_builder sample_desired 10 (Some 20) 100 0)"
proof -
  have "wf_desired_state sample_desired"
    by (simp add: desired_state_eval sample_desired_def sample_interest_def)
  then have wf: "is_ok (validate_desired_state sample_desired)"
    using validate_desired_state_Ok_iff [of sample_desired "()"] by (simp add: is_ok_def)
  have "card (set (state_keys sample_desired)) \<le> 4096"
    by (simp add: state_keys_def sample_desired_def interest_keys_def sample_interest_def)
  with compile_query_exact [OF sample_builder_laws wf, of 10 "Some 20" 100 0] wf sample_builder_laws
  show ?thesis by (simp add: Let_def)
qed

theorem compile_query_bounded_witness:
  "\<exists>q. compile_query_with_limits sample_builder sample_desired 10 (Some 20) 100 0 = Ok q \<and>
     length (q_logs q) \<le> 4096 \<and> q_block_fields q \<noteq> AllBlockFields"
  using compile_query_bounded [OF sample_query] sample_query
  by (simp add: sample_desired_def sample_interest_def is_block_interest_def)

end
