(* ===== verification/Canonical.thy ===== *)
theory Canonical
  imports Wire
begin

text \<open>
  \<open>hypersync/src/canonical.rs\<close>: the bounded canonical block history. The tracker is the record
  of its depth and its deque (oldest first). The model keeps the two loops of the source as
  recursions and the batch as a fold that stops at the first error. \<open>Panic\<close> stands for the two
  \<open>expect\<close> calls; no execution reaches it.

  The abstract description is \<open>graft\<close>: skip the blocks that are already retained, cut the
  history at the first new block, append the rest. The tracker implements it up to the eviction
  of the oldest blocks.
\<close>

section \<open>Data\<close>

record CanonicalTracker =
  ct_depth :: usize
  ct_blocks :: "BlockRef list"

record ReorgDelta =
  rd_common_ancestor :: BlockRef
  rd_old_tip :: BlockRef
  rd_new_tip :: BlockRef

datatype CanonicalError =
    ConflictingBlockMetadata u64
  | NonContiguousInput u64 u64
  | Gap u64 u64
  | HistoryExhausted u64
  | UnknownParent u64 bytes
  | InvalidHashWidth string usize
  | BlockNumberOverflow
  | Panic string

section \<open>Operations\<close>

definition tracker_new :: "usize \<Rightarrow> CanonicalTracker" where
  "tracker_new depth = \<lparr>ct_depth = max depth 1, ct_blocks = []\<rparr>"

definition tip :: "CanonicalTracker \<Rightarrow> BlockRef option" where
  "tip t = last_opt (ct_blocks t)"

definition is_empty :: "CanonicalTracker \<Rightarrow> bool" where
  "is_empty t \<longleftrightarrow> ct_blocks t = []"

definition block :: "CanonicalTracker \<Rightarrow> u64 \<Rightarrow> BlockRef option" where
  "block t n = find (\<lambda>b. br_number b = n) (ct_blocks t)"

definition block_by_hash :: "CanonicalTracker \<Rightarrow> bytes \<Rightarrow> BlockRef option" where
  "block_by_hash t h = find (\<lambda>b. br_hash b = h) (ct_blocks t)"

fun pop_front_to :: "usize \<Rightarrow> 'a list \<Rightarrow> 'a list" where
  "pop_front_to d [] = []"
| "pop_front_to d (x # xs) = (if d < length (x # xs) then pop_front_to d xs else x # xs)"

definition push :: "CanonicalTracker \<Rightarrow> BlockRef \<Rightarrow> CanonicalTracker" where
  "push t b = t\<lparr>ct_blocks := pop_front_to (ct_depth t) (ct_blocks t @ [b])\<rparr>"

function pop_back_above :: "u64 \<Rightarrow> BlockRef list \<Rightarrow> BlockRef list" where
  "pop_back_above n bs =
     (if bs \<noteq> [] \<and> n < br_number (last bs) then pop_back_above n (butlast bs) else bs)"
  by pat_completeness auto
termination
  by (relation "measure (\<lambda>(n, bs). length bs)") auto

declare pop_back_above.simps [simp del]

fun validate_input_order :: "BlockRef list \<Rightarrow> CanonicalError + unit" where
  "validate_input_order (a # b # bs) =
     bind_res (ok_or (checked_add (br_number a) 1) BlockNumberOverflow) (\<lambda>expected.
     if br_number b \<noteq> expected then Err (NonContiguousInput expected (br_number b))
     else validate_input_order (b # bs))"
| "validate_input_order bs = Ok ()"

definition validate_block :: "BlockRef \<Rightarrow> CanonicalError + unit" where
  "validate_block b =
     (if length (br_hash b) \<noteq> 32 then Err (InvalidHashWidth ''hash'' (length (br_hash b)))
      else if length (br_parent_hash b) \<noteq> 32
        then Err (InvalidHashWidth ''parent_hash'' (length (br_parent_hash b)))
      else Ok ())"

text \<open>One iteration of the loop of \<open>apply_blocks_in_place\<close>, on the tracker and the ancestor.\<close>

definition apply_block ::
    "BlockRef \<Rightarrow> CanonicalTracker \<times> BlockRef option \<Rightarrow>
     CanonicalError + CanonicalTracker \<times> BlockRef option" where
  "apply_block b s =
     (let (t, common_ancestor) = s in
      bind_res (validate_block b) (\<lambda>_.
      case block t (br_number b) of
        Some existing \<Rightarrow>
          (if br_hash existing = br_hash b then
             (if existing \<noteq> b then Err (ConflictingBlockMetadata (br_number b))
              else Ok (t, common_ancestor))
           else
             bind_res (ok_or (checked_sub (br_number b) 1)
                 (UnknownParent (br_number b) (br_parent_hash b))) (\<lambda>ancestor_number.
             bind_res (ok_or (block t ancestor_number) (HistoryExhausted ancestor_number)) (\<lambda>ancestor.
             if br_hash ancestor \<noteq> br_parent_hash b
               then Err (UnknownParent (br_number b) (br_parent_hash b))
             else Ok (push (t\<lparr>ct_blocks := pop_back_above (br_number ancestor) (ct_blocks t)\<rparr>) b,
                      if common_ancestor = None then Some ancestor else common_ancestor))))
      | None \<Rightarrow>
          (case tip t of
             None \<Rightarrow> Ok (push t b, common_ancestor)
           | Some p \<Rightarrow>
               (if br_number b = saturating_add (br_number p) 1 \<and> br_parent_hash b = br_hash p
                  then Ok (push t b, common_ancestor)
                else if saturating_add (br_number p) 1 < br_number b
                  then Err (Gap (saturating_add (br_number p) 1) (br_number b))
                else Err (HistoryExhausted (br_number b))))))"

definition apply_blocks_in_place ::
    "CanonicalTracker \<Rightarrow> BlockRef list \<Rightarrow>
     CanonicalError + CanonicalTracker \<times> ReorgDelta option" where
  "apply_blocks_in_place t blocks =
     (let old_tip = tip t in
      bind_res (fold_res apply_block blocks (t, None)) (\<lambda>(t', common_ancestor).
      case common_ancestor of
        None \<Rightarrow> Ok (t', None)
      | Some ancestor \<Rightarrow>
          bind_res (ok_or old_tip (Panic ''a reorg requires existing history'')) (\<lambda>old.
          bind_res (ok_or (tip t') (Panic ''replacement branch has a tip'')) (\<lambda>new.
          Ok (t', Some \<lparr>rd_common_ancestor = ancestor, rd_old_tip = old, rd_new_tip = new\<rparr>)))))"

definition apply_blocks ::
    "CanonicalTracker \<Rightarrow> BlockRef list \<Rightarrow>
     CanonicalError + CanonicalTracker \<times> ReorgDelta option" where
  "apply_blocks t blocks =
     bind_res (validate_input_order blocks) (\<lambda>_. apply_blocks_in_place t blocks)"

definition restore_blocks ::
    "CanonicalTracker \<Rightarrow> BlockRef list \<Rightarrow> CanonicalError + CanonicalTracker" where
  "restore_blocks t blocks =
     bind_res (apply_blocks (tracker_new (ct_depth t)) blocks) (\<lambda>(replacement, _).
     Ok replacement)"

section \<open>Specification\<close>

definition block_link :: "BlockRef \<Rightarrow> BlockRef \<Rightarrow> bool" where
  "block_link a b \<longleftrightarrow> unat (br_number b) = Suc (unat (br_number a)) \<and> br_parent_hash b = br_hash a"

definition linked :: "BlockRef list \<Rightarrow> bool" where
  "linked bs \<longleftrightarrow> successively block_link bs"

definition wf_block :: "BlockRef \<Rightarrow> bool" where
  "wf_block b \<longleftrightarrow> length (br_hash b) = 32 \<and> length (br_parent_hash b) = 32"

definition tracker_inv :: "CanonicalTracker \<Rightarrow> bool" where
  "tracker_inv t \<longleftrightarrow>
     1 \<le> ct_depth t \<and> length (ct_blocks t) \<le> ct_depth t \<and>
     linked (ct_blocks t) \<and> list_all wf_block (ct_blocks t)"

definition new_suffix :: "BlockRef list \<Rightarrow> BlockRef list \<Rightarrow> BlockRef list" where
  "new_suffix chain page = dropWhile (\<lambda>b. b \<in> set chain) page"

definition graft :: "BlockRef list \<Rightarrow> BlockRef list \<Rightarrow> BlockRef list" where
  "graft chain page =
     (case new_suffix chain page of
        [] \<Rightarrow> chain
      | x # rest \<Rightarrow> takeWhile (\<lambda>b. br_number b < br_number x) chain @ x # rest)"

definition displaces :: "BlockRef list \<Rightarrow> BlockRef list \<Rightarrow> bool" where
  "displaces chain page \<longleftrightarrow>
     (case new_suffix chain page of
        [] \<Rightarrow> False
      | x # _ \<Rightarrow> \<exists>b \<in> set chain. br_number b = br_number x)"

section \<open>Chains\<close>

lemma linked_simps [simp]: "linked []" "linked [b]"
  by (simp_all add: linked_def)

lemma linked_Cons2 [simp]: "linked (a # b # bs) \<longleftrightarrow> block_link a b \<and> linked (b # bs)"
  by (simp add: linked_def)

lemma linked_append_iff:
  "linked (xs @ ys) \<longleftrightarrow>
     linked xs \<and> linked ys \<and> (xs \<noteq> [] \<longrightarrow> ys \<noteq> [] \<longrightarrow> block_link (last xs) (hd ys))"
  by (auto simp: linked_def successively_append_iff)

lemma linked_nth:
  assumes "linked bs" and "i < length bs"
  shows "unat (br_number (bs ! i)) = unat (br_number (hd bs)) + i"
  using assms
proof (induction bs arbitrary: i rule: induct_list012)
  case (3 a b bs)
  show ?case
  proof (cases i)
    case (Suc j)
    with 3 have "unat (br_number ((b # bs) ! j)) = unat (br_number b) + j" by simp
    with 3 Suc show ?thesis by (simp add: block_link_def)
  qed simp
qed simp_all

lemma linked_number_inj:
  assumes "linked bs" "a \<in> set bs" "b \<in> set bs" "br_number a = br_number b"
  shows "a = b"
  using assms by (metis add_left_cancel in_set_conv_nth linked_nth)

lemma linked_le_last:
  assumes "linked bs" "b \<in> set bs"
  shows "unat (br_number b) \<le> unat (br_number (last bs))"
proof -
  from assms(2) obtain i where i: "i < length bs" "b = bs ! i" by (auto simp: in_set_conv_nth)
  then have "bs \<noteq> []" by auto
  with linked_nth [OF assms(1)] i show ?thesis by (simp add: last_conv_nth)
qed

lemma linked_drop: "linked bs \<Longrightarrow> linked (drop n bs)"
  by (metis append_take_drop_id linked_append_iff)

lemma linked_take: "linked bs \<Longrightarrow> linked (take n bs)"
  by (metis append_take_drop_id linked_append_iff)

lemma linked_takeWhile: "linked bs \<Longrightarrow> linked (takeWhile P bs)"
  by (metis linked_append_iff takeWhile_dropWhile_id)

lemma block_Some_iff:
  assumes "linked (ct_blocks t)"
  shows "block t n = Some b \<longleftrightarrow> b \<in> set (ct_blocks t) \<and> br_number b = n"
proof
  assume "block t n = Some b"
  then show "b \<in> set (ct_blocks t) \<and> br_number b = n"
    unfolding block_def by (rule find_Some_in_set)
next
  assume b: "b \<in> set (ct_blocks t) \<and> br_number b = n"
  then obtain b' where b': "block t n = Some b'"
    by (cases "block t n") (auto simp: block_def find_None_iff)
  then have "b' \<in> set (ct_blocks t) \<and> br_number b' = n"
    unfolding block_def by (rule find_Some_in_set)
  with b b' linked_number_inj [OF assms] show "block t n = Some b" by blast
qed

lemma block_None_iff: "block t n = None \<longleftrightarrow> (\<forall>b \<in> set (ct_blocks t). br_number b \<noteq> n)"
  by (auto simp: block_def find_None_iff)

lemma pop_front_to_drop: "pop_front_to d xs = drop (length xs - d) xs"
  by (induction xs) (auto simp: Suc_diff_le not_less)

lemma pop_front_to_short [simp]: "length xs \<le> d \<Longrightarrow> pop_front_to d xs = xs"
  by (simp add: pop_front_to_drop)

lemma pop_front_to_snoc:
  "1 \<le> d \<Longrightarrow> pop_front_to d (pop_front_to d xs @ ys) = pop_front_to d (xs @ ys)"
  by (cases "length xs \<le> d") (simp_all add: pop_front_to_drop add.commute)

text \<open>On a linked history, popping from the back keeps exactly the blocks up to the ancestor.\<close>

lemma pop_back_above_takeWhile:
  assumes "linked bs"
  shows "pop_back_above n bs = takeWhile (\<lambda>b. br_number b \<le> n) bs"
  using assms
proof (induction n bs rule: pop_back_above.induct)
  case (1 n bs)
  show ?case
  proof (cases "bs \<noteq> [] \<and> n < br_number (last bs)")
    case True
    then have bs: "bs = butlast bs @ [last bs]" by simp
    with 1 have "pop_back_above n (butlast bs) = takeWhile (\<lambda>b. br_number b \<le> n) (butlast bs)"
      using True linked_append_iff [of "butlast bs" "[last bs]"] by auto
    moreover have "takeWhile (\<lambda>b. br_number b \<le> n) bs = takeWhile (\<lambda>b. br_number b \<le> n) (butlast bs)"
      using True by (subst bs, subst takeWhile_tail) (simp_all add: not_le)
    ultimately show ?thesis using True by (simp add: pop_back_above.simps [of n bs])
  next
    case False
    then have "\<forall>b \<in> set bs. br_number b \<le> n"
      using linked_le_last [OF 1(2)] by (fastforce simp: u64_order)
    then have all: "takeWhile (\<lambda>b. br_number b \<le> n) bs = bs" by (simp add: takeWhile_eq_all_conv)
    have "pop_back_above n bs = bs" using False by (subst pop_back_above.simps) auto
    then show ?thesis by (simp only: all)
  qed
qed

section \<open>One block\<close>

definition numbered :: "BlockRef list \<Rightarrow> bool" where
  "numbered bs \<longleftrightarrow> successively (\<lambda>a b. unat (br_number b) = Suc (unat (br_number a))) bs"

lemma numbered_simps [simp]:
  "numbered []" "numbered [b]"
  "numbered (a # b # bs) \<longleftrightarrow> unat (br_number b) = Suc (unat (br_number a)) \<and> numbered (b # bs)"
  by (simp_all add: numbered_def)

lemma linked_numbered: "linked bs \<Longrightarrow> numbered bs"
  by (induction bs rule: induct_list012) (simp_all add: block_link_def)

lemma numbered_append2: "numbered (xs @ ys) \<Longrightarrow> numbered ys"
  by (simp add: numbered_def successively_append_iff)

lemma validate_input_order_Ok_iff [result_simps]:
  "validate_input_order bs = Ok u \<longleftrightarrow> numbered bs"
  by (induction bs rule: validate_input_order.induct)
     (auto simp: result_simps u64_simps)

lemma validate_block_Ok_iff [result_simps]: "validate_block b = Ok u \<longleftrightarrow> wf_block b"
  by (auto simp: validate_block_def wf_block_def)

lemma tip_Some_iff: "tip t = Some p \<longleftrightarrow> ct_blocks t \<noteq> [] \<and> p = last (ct_blocks t)"
  by (auto simp: tip_def last_opt_conv)

lemma last_pop_front_to: "1 \<le> d \<Longrightarrow> xs \<noteq> [] \<Longrightarrow> last (pop_front_to d xs) = last xs"
  by (simp add: pop_front_to_drop)

lemma pop_front_to_nonempty: "1 \<le> d \<Longrightarrow> xs \<noteq> [] \<Longrightarrow> pop_front_to d xs \<noteq> []"
  by (simp add: pop_front_to_drop not_le diff_less)

lemma tracker_inv_pop_front_to:
  assumes "1 \<le> ct_depth t" "linked bs" "list_all wf_block bs"
  shows "tracker_inv (t\<lparr>ct_blocks := pop_front_to (ct_depth t) bs\<rparr>)"
  using assms by (auto simp: tracker_inv_def pop_front_to_drop linked_drop list_all_iff dest: in_set_dropD)

lemma apply_block_retained:
  assumes "tracker_inv t" "b \<in> set (ct_blocks t)"
  shows "apply_block b (t, a) = Ok (t, a)"
proof -
  have "wf_block b" using assms by (auto simp: tracker_inv_def list_all_iff)
  then have "validate_block b = Ok ()" by (simp add: validate_block_def wf_block_def)
  moreover have "block t (br_number b) = Some b"
    using assms by (simp add: block_Some_iff tracker_inv_def)
  ultimately show ?thesis by (simp add: apply_block_def)
qed

lemma apply_block_extend_iff:
  assumes inv: "tracker_inv t" and p: "tip t = Some p"
    and succ: "unat (br_number b) = Suc (unat (br_number p))"
  shows "apply_block b (t, a) = Ok s \<longleftrightarrow> wf_block b \<and> block_link p b \<and> s = (push t b, a)"
proof -
  have "br_number c \<noteq> br_number b" if "c \<in> set (ct_blocks t)" for c
    using linked_le_last [of "ct_blocks t" c] that inv p succ
    by (auto simp: tracker_inv_def tip_Some_iff)
  then have none: "block t (br_number b) = None" by (simp add: block_None_iff)
  have "br_number p \<noteq> u64_max" using succ unat_u64_bound [of "br_number b"] by (auto simp: u64_eq_iff)
  then have sat: "saturating_add (br_number p) 1 = br_number b"
    using succ by (simp add: u64_eq_iff u64_saturating_succ)
  show ?thesis
    using succ by (auto simp: apply_block_def none p sat result_simps block_link_def)
qed

lemma extend_run_iff:
  assumes "tracker_inv t" "tip t = Some p" "numbered (p # ys)"
  shows "fold_res apply_block ys (t, a) = Ok s \<longleftrightarrow>
     linked (p # ys) \<and> list_all wf_block ys \<and>
     s = (t\<lparr>ct_blocks := pop_front_to (ct_depth t) (ct_blocks t @ ys)\<rparr>, a)"
  using assms
proof (induction ys arbitrary: t p)
  case Nil
  then show ?case by (auto simp: tracker_inv_def)
next
  case (Cons y ys)
  have d: "1 \<le> ct_depth t" using Cons.prems(1) by (simp add: tracker_inv_def)
  have step: "apply_block y (t, a) = Ok s' \<longleftrightarrow> wf_block y \<and> block_link p y \<and> s' = (push t y, a)" for s'
    using Cons.prems by (intro apply_block_extend_iff) simp_all
  have tip': "tip (push t y) = Some y"
    using d by (simp add: tip_Some_iff push_def last_pop_front_to pop_front_to_nonempty)
  have inv': "tracker_inv (push t y)" if "wf_block y" "block_link p y"
    unfolding push_def using Cons.prems that
    by (intro tracker_inv_pop_front_to) (auto simp: tracker_inv_def linked_append_iff tip_Some_iff)
  have IH: "fold_res apply_block ys (push t y, a) = Ok s \<longleftrightarrow>
      linked (y # ys) \<and> list_all wf_block ys \<and>
      s = (t\<lparr>ct_blocks := pop_front_to (ct_depth t) (ct_blocks t @ y # ys)\<rparr>, a)"
    if "wf_block y" "block_link p y"
    using Cons.IH [OF inv' [OF that] tip'] Cons.prems(3) pop_front_to_snoc [OF d, of "ct_blocks t @ [y]" ys]
    by (simp add: push_def)
  show ?case
    using IH by (auto simp: bind_res_Ok_iff step)
qed

section \<open>The first block that is not retained\<close>

lemma takeWhile_ancestor:
  assumes "linked bs" "unat (br_number x) = Suc (unat (br_number anc))"
  shows "takeWhile (\<lambda>b. br_number b \<le> br_number anc) bs = takeWhile (\<lambda>b. br_number b < br_number x) bs"
  using assms by (intro takeWhile_cong) (auto simp: u64_order)

lemma takeWhile_below_linked:
  assumes "linked bs" "anc \<in> set bs" "block_link anc x"
  shows "takeWhile (\<lambda>b. br_number b < br_number x) bs \<noteq> []"
    and "last (takeWhile (\<lambda>b. br_number b < br_number x) bs) = anc"
proof -
  from assms(2) obtain xs ys where bs: "bs = xs @ anc # ys" by (auto simp: in_set_conv_decomp)
  have less: "br_number b < br_number x" if "b \<in> set (xs @ [anc])" for b
  proof -
    have "linked (xs @ [anc])" using assms(1) bs linked_append_iff [of "xs @ [anc]" ys] by simp
    from linked_le_last [OF this that] assms(3) show ?thesis by (simp add: u64_order block_link_def)
  qed
  have stop: "takeWhile (\<lambda>b. br_number b < br_number x) ys = []"
  proof (cases ys)
    case (Cons y ys')
    then have "block_link anc y" using assms(1) by (auto simp: bs linked_append_iff)
    with assms(3) Cons show ?thesis by (simp add: block_link_def u64_order)
  qed simp
  have "takeWhile (\<lambda>b. br_number b < br_number x) ((xs @ [anc]) @ ys) = xs @ [anc]"
    using less stop by (subst takeWhile_append2) simp_all
  then show "takeWhile (\<lambda>b. br_number b < br_number x) bs \<noteq> []"
    and "last (takeWhile (\<lambda>b. br_number b < br_number x) bs) = anc"
    by (simp_all add: bs)
qed

lemma apply_block_conflict:
  assumes inv: "tracker_inv t" and e: "e \<in> set (ct_blocks t)" "br_number e = br_number x" and new: "e \<noteq> x"
  shows "apply_block x (t, None) = Ok s \<longleftrightarrow>
     wf_block x \<and> br_hash e \<noteq> br_hash x \<and>
     (\<exists>anc \<in> set (ct_blocks t). block_link anc x \<and>
       s = (t\<lparr>ct_blocks := pop_front_to (ct_depth t)
              (takeWhile (\<lambda>b. br_number b < br_number x) (ct_blocks t) @ [x])\<rparr>, Some anc))"
proof -
  have l: "linked (ct_blocks t)" using inv by (simp add: tracker_inv_def)
  then have found: "block t (br_number x) = Some e" using e by (simp add: block_Some_iff)
  have popped: "push (t\<lparr>ct_blocks := pop_back_above (br_number anc) (ct_blocks t)\<rparr>) x =
      t\<lparr>ct_blocks := pop_front_to (ct_depth t)
          (takeWhile (\<lambda>b. br_number b < br_number x) (ct_blocks t) @ [x])\<rparr>"
    if "block_link anc x" for anc
    using that l takeWhile_ancestor [OF l, of x anc]
    by (simp add: push_def pop_back_above_takeWhile block_link_def)
  show ?thesis
    using new popped
    by (auto simp: apply_block_def found result_simps u64_simps block_Some_iff [OF l] block_link_def)
qed

lemma apply_block_beyond:
  assumes inv: "tracker_inv t" and none: "\<forall>b \<in> set (ct_blocks t). br_number b \<noteq> br_number x"
    and ok: "apply_block x (t, None) = Ok s"
  shows "wf_block x \<and> (ct_blocks t = [] \<or> (\<exists>anc \<in> set (ct_blocks t). block_link anc x)) \<and>
     s = (t\<lparr>ct_blocks := pop_front_to (ct_depth t)
              (takeWhile (\<lambda>b. br_number b < br_number x) (ct_blocks t) @ [x])\<rparr>, None)"
proof (cases "tip t")
  case None
  then have "ct_blocks t = []" by (simp add: tip_def)
  with ok none None show ?thesis
    by (auto simp: apply_block_def block_def result_simps push_def)
next
  case (Some p)
  have nb: "block t (br_number x) = None" using none by (simp add: block_None_iff)
  from ok nb Some have wf: "wf_block x" and num: "br_number x = saturating_add (br_number p) 1"
    and par: "br_parent_hash x = br_hash p" and s: "s = (push t x, None)"
    by (auto simp: apply_block_def result_simps split: if_splits)
  have p: "p \<in> set (ct_blocks t)" "p = last (ct_blocks t)" using Some by (auto simp: tip_Some_iff)
  have "br_number p \<noteq> u64_max"
  proof
    assume "br_number p = u64_max"
    then have "br_number x = br_number p" by (simp add: num u64_eq_iff u64_saturating_succ)
    with none p show False by auto
  qed
  then have link: "block_link p x" by (simp add: block_link_def num par u64_saturating_succ)
  have below: "br_number b < br_number x" if "b \<in> set (ct_blocks t)" for b
    using linked_le_last [of "ct_blocks t" b] that inv p link
    by (auto simp: tracker_inv_def u64_order block_link_def)
  then have all: "takeWhile (\<lambda>b. br_number b < br_number x) (ct_blocks t) = ct_blocks t"
    by (simp add: takeWhile_eq_all_conv)
  from wf link p s show ?thesis by (auto simp: push_def all)
qed

lemma apply_block_new:
  assumes inv: "tracker_inv t" and new: "x \<notin> set (ct_blocks t)"
    and ok: "apply_block x (t, None) = Ok (t', a)"
  shows "wf_block x"
    and "ct_blocks t = [] \<or> (\<exists>anc \<in> set (ct_blocks t). block_link anc x)"
    and "t' = t\<lparr>ct_blocks := pop_front_to (ct_depth t)
              (takeWhile (\<lambda>b. br_number b < br_number x) (ct_blocks t) @ [x])\<rparr>"
    and "a \<noteq> None \<longleftrightarrow> (\<exists>b \<in> set (ct_blocks t). br_number b = br_number x)"
    and "\<forall>anc. a = Some anc \<longrightarrow> anc \<in> set (ct_blocks t) \<and> block_link anc x"
proof -
  have "wf_block x \<and> (ct_blocks t = [] \<or> (\<exists>anc \<in> set (ct_blocks t). block_link anc x)) \<and>
     t' = t\<lparr>ct_blocks := pop_front_to (ct_depth t)
              (takeWhile (\<lambda>b. br_number b < br_number x) (ct_blocks t) @ [x])\<rparr> \<and>
     (a \<noteq> None \<longleftrightarrow> (\<exists>b \<in> set (ct_blocks t). br_number b = br_number x)) \<and>
     (\<forall>anc. a = Some anc \<longrightarrow> anc \<in> set (ct_blocks t) \<and> block_link anc x)"
  proof (cases "\<exists>e \<in> set (ct_blocks t). br_number e = br_number x")
    case True
    then obtain e where "e \<in> set (ct_blocks t)" "br_number e = br_number x" by blast
    with new have "e \<noteq> x" by blast
    with apply_block_conflict [OF inv \<open>e \<in> _\<close> \<open>br_number e = _\<close>] ok True show ?thesis by auto
  next
    case False
    with apply_block_beyond [OF inv _ ok] show ?thesis by auto
  qed
  then show "wf_block x"
    and "ct_blocks t = [] \<or> (\<exists>anc \<in> set (ct_blocks t). block_link anc x)"
    and "t' = t\<lparr>ct_blocks := pop_front_to (ct_depth t)
              (takeWhile (\<lambda>b. br_number b < br_number x) (ct_blocks t) @ [x])\<rparr>"
    and "a \<noteq> None \<longleftrightarrow> (\<exists>b \<in> set (ct_blocks t). br_number b = br_number x)"
    and "\<forall>anc. a = Some anc \<longrightarrow> anc \<in> set (ct_blocks t) \<and> block_link anc x"
    by blast+
qed

lemma linked_graft_first:
  assumes "linked bs" "bs = [] \<or> (\<exists>anc \<in> set bs. block_link anc x)"
  shows "linked (takeWhile (\<lambda>b. br_number b < br_number x) bs @ [x])"
  using assms takeWhile_below_linked [of bs _ x]
  by (auto simp: linked_append_iff linked_takeWhile)

lemma retained_run:
  assumes "tracker_inv t" "set ys \<subseteq> set (ct_blocks t)"
  shows "fold_res apply_block ys (t, a) = Ok (t, a)"
  using assms by (induction ys) (simp_all add: apply_block_retained)

section \<open>A batch of blocks\<close>

lemma retained_prefix: "\<exists>pre. ys = pre @ new_suffix chain ys \<and> set pre \<subseteq> set chain"
  by (rule exI [of _ "takeWhile (\<lambda>b. b \<in> set chain) ys"])
     (auto simp: new_suffix_def dest: set_takeWhileD)

lemma new_suffix_hd: "new_suffix chain ys = x # rest \<Longrightarrow> x \<notin> set chain"
  by (auto simp: new_suffix_def dropWhile_eq_Cons_conv)

text \<open>
  The loop over a contiguous batch computes the graft of the batch on the retained chain,
  trimmed to the depth, and remembers an ancestor exactly when a retained block is displaced.
\<close>

lemma apply_run:
  assumes inv: "tracker_inv t" and num: "numbered ys"
    and ok: "fold_res apply_block ys (t, None) = Ok (t', a)"
  shows "t' = t\<lparr>ct_blocks := pop_front_to (ct_depth t) (graft (ct_blocks t) ys)\<rparr>"
    and "linked (graft (ct_blocks t) ys)"
    and "list_all wf_block (graft (ct_blocks t) ys)"
    and "a \<noteq> None \<longleftrightarrow> displaces (ct_blocks t) ys"
    and "\<forall>anc. a = Some anc \<longrightarrow>
           anc \<in> set (ct_blocks t) \<and> block_link anc (hd (new_suffix (ct_blocks t) ys))"
proof -
  let ?bs = "ct_blocks t" and ?d = "ct_depth t"
  have l: "linked ?bs" and d: "1 \<le> ?d" and w: "list_all wf_block ?bs"
    using inv by (auto simp: tracker_inv_def)
  obtain pre where ys: "ys = pre @ new_suffix ?bs ys" and pre: "set pre \<subseteq> set ?bs"
    using retained_prefix by blast
  have run: "fold_res apply_block (new_suffix ?bs ys) (t, None) = Ok (t', a)"
    using ok fold_res_append [of apply_block pre "new_suffix ?bs ys"] retained_run [OF inv pre] ys
    by simp
  have "t' = t\<lparr>ct_blocks := pop_front_to ?d (graft ?bs ys)\<rparr> \<and> linked (graft ?bs ys) \<and>
    list_all wf_block (graft ?bs ys) \<and> (a \<noteq> None \<longleftrightarrow> displaces ?bs ys) \<and>
    (\<forall>anc. a = Some anc \<longrightarrow> anc \<in> set ?bs \<and> block_link anc (hd (new_suffix ?bs ys)))"
  proof (cases "new_suffix ?bs ys")
    case Nil
    with run l w inv show ?thesis by (auto simp: graft_def displaces_def tracker_inv_def)
  next
    case (Cons x rest)
    let ?cut = "takeWhile (\<lambda>b. br_number b < br_number x) ?bs"
    from run Cons obtain t1 a1 where first: "apply_block x (t, None) = Ok (t1, a1)"
      and others: "fold_res apply_block rest (t1, a1) = Ok (t', a)"
      by (auto simp: bind_res_Ok_iff)
    note new = apply_block_new [OF inv new_suffix_hd [OF Cons] first]
    have linked1: "linked (?cut @ [x])" using linked_graft_first [OF l new(2)] .
    have wf1: "list_all wf_block (?cut @ [x])"
      using w new(1) by (auto simp: list_all_iff dest: set_takeWhileD)
    have inv1: "tracker_inv t1"
      unfolding new(3) using d linked1 wf1 by (rule tracker_inv_pop_front_to)
    have tip1: "tip t1 = Some x"
      using d by (simp add: new(3) tip_Some_iff last_pop_front_to pop_front_to_nonempty)
    have "numbered (x # rest)" using num ys Cons numbered_append2 [of pre "x # rest"] by simp
    from extend_run_iff [OF inv1 tip1 this, of a1 "(t', a)"] others
    have rest: "linked (x # rest)" "list_all wf_block rest" "a = a1"
      and t': "t' = t1\<lparr>ct_blocks := pop_front_to ?d (ct_blocks t1 @ rest)\<rparr>"
      by (auto simp: new(3))
    have "t' = t\<lparr>ct_blocks := pop_front_to ?d (?cut @ x # rest)\<rparr>"
      using pop_front_to_snoc [OF d, of "?cut @ [x]" rest] by (simp add: t' new(3))
    moreover have "linked (?cut @ x # rest)"
      using linked1 rest(1) by (auto simp: linked_append_iff)
    ultimately show ?thesis
      using Cons wf1 rest new(4,5) by (simp add: graft_def displaces_def)
  qed
  then show "t' = t\<lparr>ct_blocks := pop_front_to ?d (graft ?bs ys)\<rparr>"
    and "linked (graft ?bs ys)" and "list_all wf_block (graft ?bs ys)"
    and "a \<noteq> None \<longleftrightarrow> displaces ?bs ys"
    and "\<forall>anc. a = Some anc \<longrightarrow> anc \<in> set ?bs \<and> block_link anc (hd (new_suffix ?bs ys))"
    by blast+
qed

lemma apply_blocks_Ok:
  assumes "tracker_inv t" "apply_blocks t ys = Ok (t', r)"
  obtains a where "numbered ys" "fold_res apply_block ys (t, None) = Ok (t', a)"
    and "r = map_option (\<lambda>anc. \<lparr>rd_common_ancestor = anc, rd_old_tip = last (ct_blocks t),
                                 rd_new_tip = last (ct_blocks t')\<rparr>) a"
  using assms
  by (auto simp: apply_blocks_def apply_blocks_in_place_def Let_def result_simps tip_Some_iff
      split: option.splits)

lemma last_graft:
  assumes "new_suffix chain ys \<noteq> []"
  shows "last (graft chain ys) = last ys"
proof -
  obtain pre where "ys = pre @ new_suffix chain ys" using retained_prefix by blast
  then have "last ys = last (new_suffix chain ys)" using assms by (metis last_appendR)
  then show ?thesis using assms by (cases "new_suffix chain ys") (simp_all add: graft_def)
qed

lemma graft_nonempty: "chain \<noteq> [] \<or> ys \<noteq> [] \<Longrightarrow> graft chain ys \<noteq> []"
  by (auto simp: graft_def new_suffix_def split: list.split)

lemma apply_block_new_ok:
  assumes inv: "tracker_inv t" and new: "x \<notin> set (ct_blocks t)" and wf: "wf_block x"
    and anc: "ct_blocks t = [] \<or> (\<exists>anc \<in> set (ct_blocks t). block_link anc x)"
    and meta: "\<forall>b \<in> set (ct_blocks t). br_number b = br_number x \<longrightarrow> br_hash b \<noteq> br_hash x"
  shows "\<exists>s. apply_block x (t, None) = Ok s"
proof (cases "\<exists>e \<in> set (ct_blocks t). br_number e = br_number x")
  case True
  then obtain e where e: "e \<in> set (ct_blocks t)" "br_number e = br_number x" by blast
  moreover have "e \<noteq> x" using e new by blast
  moreover have "\<exists>anc \<in> set (ct_blocks t). block_link anc x" using anc e by auto
  ultimately show ?thesis using apply_block_conflict [OF inv e] wf meta by blast
next
  case False
  show ?thesis
  proof (cases "ct_blocks t = []")
    case True
    with wf show ?thesis
      by (auto simp: apply_block_def block_def tip_def validate_block_def wf_block_def)
  next
    case nonempty: False
    with anc obtain a where a: "a \<in> set (ct_blocks t)" "block_link a x" by blast
    have l: "linked (ct_blocks t)" using inv by (simp add: tracker_inv_def)
    let ?cut = "takeWhile (\<lambda>b. br_number b < br_number x) (ct_blocks t)"
    let ?rest = "dropWhile (\<lambda>b. br_number b < br_number x) (ct_blocks t)"
    have "?rest = []"
    proof (rule ccontr)
      assume "?rest \<noteq> []"
      moreover have "linked (?cut @ ?rest)" using l by simp
      ultimately have "block_link a (hd ?rest)"
        using takeWhile_below_linked [OF l a] by (metis linked_append_iff)
      moreover have "hd ?rest \<in> set (ct_blocks t)"
        using \<open>?rest \<noteq> []\<close> by (meson hd_in_set set_dropWhileD)
      ultimately show False using a(2) False by (auto simp: block_link_def u64_eq_iff)
    qed
    then have "?cut = ct_blocks t" by (metis append_Nil2 takeWhile_dropWhile_id)
    then have "tip t = Some a"
      using takeWhile_below_linked(2) [OF l a] nonempty by (simp only: tip_Some_iff) simp
    with apply_block_extend_iff [OF inv this, of x] a wf show ?thesis
      by (auto simp: block_link_def)
  qed
qed

lemma apply_run_ok:
  assumes inv: "tracker_inv t" and page: "linked ys" "list_all wf_block ys"
    and meta: "\<forall>y \<in> set ys. \<forall>b \<in> set (ct_blocks t).
      br_number b = br_number y \<longrightarrow> br_hash b = br_hash y \<longrightarrow> b = y"
    and anchor: "ct_blocks t = [] \<or> hd ys \<in> set (ct_blocks t) \<or>
      (\<exists>anc \<in> set (ct_blocks t). block_link anc (hd ys))"
  shows "\<exists>s. fold_res apply_block ys (t, None) = Ok s"
proof -
  obtain pre where ys: "ys = pre @ new_suffix (ct_blocks t) ys" and pre: "set pre \<subseteq> set (ct_blocks t)"
    using retained_prefix by blast
  have skip: "fold_res apply_block ys (t, None) =
      fold_res apply_block (new_suffix (ct_blocks t) ys) (t, None)"
    using fold_res_append [of apply_block pre "new_suffix (ct_blocks t) ys"] retained_run [OF inv pre] ys
    by simp
  show ?thesis
  proof (cases "new_suffix (ct_blocks t) ys")
    case Nil
    then show ?thesis by (simp add: skip)
  next
    case (Cons x rest)
    have x: "x \<notin> set (ct_blocks t)" using new_suffix_hd [OF Cons] .
    have split: "ys = pre @ x # rest" using ys Cons by simp
    have "ct_blocks t = [] \<or> (\<exists>anc \<in> set (ct_blocks t). block_link anc x)"
    proof (cases "pre = []")
      case True
      with anchor x split show ?thesis by auto
    next
      case False
      then have "block_link (last pre) x" using page(1) by (simp add: split linked_append_iff)
      moreover have "last pre \<in> set (ct_blocks t)" using pre False by auto
      ultimately show ?thesis by blast
    qed
    moreover have "wf_block x" using page(2) by (simp add: split)
    moreover have "\<forall>b \<in> set (ct_blocks t). br_number b = br_number x \<longrightarrow> br_hash b \<noteq> br_hash x"
      using meta x by (auto simp: split)
    ultimately obtain t1 a1 where first: "apply_block x (t, None) = Ok (t1, a1)"
      using apply_block_new_ok [OF inv x] by fastforce
    note new = apply_block_new [OF inv x first]
    have d: "1 \<le> ct_depth t" and l: "linked (ct_blocks t)" and w: "list_all wf_block (ct_blocks t)"
      using inv by (auto simp: tracker_inv_def)
    have inv1: "tracker_inv t1"
      unfolding new(3) using d linked_graft_first [OF l new(2)] w new(1)
      by (intro tracker_inv_pop_front_to) (auto simp: list_all_iff dest: set_takeWhileD)
    have tip1: "tip t1 = Some x"
      using d by (simp add: new(3) tip_Some_iff last_pop_front_to pop_front_to_nonempty)
    have rest: "linked (x # rest)" "list_all wf_block rest"
      using page by (auto simp: split linked_append_iff)
    with extend_run_iff [OF inv1 tip1 linked_numbered [OF rest(1)]]
    show ?thesis by (simp add: skip Cons first)
  qed
qed

section \<open>The contract the source engine relies on\<close>

text \<open>
  A canonical history, as its client sees it: a chain of linked blocks, a partial operation that
  applies a page, the report of a displaced branch, and a restore from a retained suffix.
\<close>

locale chain_history =
  fixes inv :: "'t \<Rightarrow> bool"
    and chain :: "'t \<Rightarrow> BlockRef list"
    and apply_page :: "'t \<Rightarrow> BlockRef list \<Rightarrow> 'e + 't \<times> ReorgDelta option"
  assumes chain_linked: "inv t \<Longrightarrow> linked (chain t)"
    and apply_inv: "inv t \<Longrightarrow> apply_page t page = Ok (t', r) \<Longrightarrow> inv t'"
    and apply_suffix: "inv t \<Longrightarrow> apply_page t page = Ok (t', r) \<Longrightarrow>
      \<exists>evicted. graft (chain t) page = evicted @ chain t'"
    and apply_keeps_tip: "inv t \<Longrightarrow> apply_page t page = Ok (t', r) \<Longrightarrow> page \<noteq> [] \<Longrightarrow> chain t' \<noteq> []"
begin

lemma pages_inv:
  assumes "inv t" "fold_res (\<lambda>page t. bind_res (apply_page t page) (\<lambda>(t', _). Ok t')) pages t = Ok t'"
  shows "inv t'"
  using assms(2,1)
  by (rule fold_res_invariant) (auto simp: bind_res_Ok_iff dest: apply_inv)

lemma apply_last:
  assumes "inv t" "apply_page t page = Ok (t', r)" "new_suffix (chain t) page \<noteq> []"
  shows "last (chain t') = last page"
proof -
  obtain evicted where g: "graft (chain t) page = evicted @ chain t'"
    using apply_suffix [OF assms(1,2)] by blast
  have "page \<noteq> []" using assms(3) by (auto simp: new_suffix_def)
  then have "chain t' \<noteq> []" using apply_keeps_tip [OF assms(1,2)] by blast
  with g last_graft [OF assms(3)] show ?thesis by simp
qed

end

lemma apply_blocks_inv:
  assumes "tracker_inv t" "apply_blocks t page = Ok (t', r)"
  shows "tracker_inv t'"
proof -
  from apply_blocks_Ok [OF assms] obtain a where
    run: "numbered page" "fold_res apply_block page (t, None) = Ok (t', a)" by blast
  note graft = apply_run [OF assms(1) run]
  show ?thesis
    unfolding graft(1) using assms(1) graft(2,3)
    by (intro tracker_inv_pop_front_to) (simp_all add: tracker_inv_def)
qed

lemma apply_blocks_chain:
  assumes "tracker_inv t" "apply_blocks t page = Ok (t', r)"
  shows "t' = t\<lparr>ct_blocks := drop (length (graft (ct_blocks t) page) - ct_depth t)
                (graft (ct_blocks t) page)\<rparr>"
proof -
  from apply_blocks_Ok [OF assms] obtain a where
    run: "numbered page" "fold_res apply_block page (t, None) = Ok (t', a)" by blast
  from apply_run(1) [OF assms(1) run] show ?thesis by (simp add: pop_front_to_drop)
qed

lemma apply_blocks_nonempty:
  assumes "tracker_inv t" "apply_blocks t page = Ok (t', r)" "page \<noteq> [] \<or> ct_blocks t \<noteq> []"
  shows "ct_blocks t' \<noteq> []"
  using apply_blocks_chain [OF assms(1,2)] graft_nonempty [of "ct_blocks t" page] assms
  by (auto simp: tracker_inv_def not_le diff_less)

interpretation tracker: chain_history tracker_inv ct_blocks apply_blocks
proof
  fix t t' :: CanonicalTracker and page r
  assume inv: "tracker_inv t"
  then show "linked (ct_blocks t)" by (simp add: tracker_inv_def)
  assume ok: "apply_blocks t page = Ok (t', r)"
  show "tracker_inv t'" using inv ok by (rule apply_blocks_inv)
  have "ct_blocks t' = drop (length (graft (ct_blocks t) page) - ct_depth t) (graft (ct_blocks t) page)"
    using apply_blocks_chain [OF inv ok] by simp
  then have "graft (ct_blocks t) page =
      take (length (graft (ct_blocks t) page) - ct_depth t) (graft (ct_blocks t) page) @ ct_blocks t'"
    by (metis append_take_drop_id)
  then show "\<exists>evicted. graft (ct_blocks t) page = evicted @ ct_blocks t'" by blast
  show "ct_blocks t' \<noteq> []" if "page \<noteq> []"
    using apply_blocks_nonempty [OF inv ok] that by blast
qed

lemma validate_input_order_no_panic: "validate_input_order bs \<noteq> Err (Panic msg)"
  by (induction bs rule: validate_input_order.induct) (auto simp: bind_res_Err_iff ok_or_def split: option.splits)

lemma apply_block_no_panic: "apply_block b s \<noteq> Err (Panic msg)"
  by (auto simp: apply_block_def bind_res_Err_iff validate_block_def ok_or_def
      split: prod.splits option.splits if_splits)

lemma ancestor_in_graft:
  assumes "linked chain" "b \<in> set chain" "anc \<in> set chain" "br_number b \<le> br_number anc"
    "block_link anc (hd (new_suffix chain page))"
  shows "b \<in> set (graft chain page)"
proof (cases "new_suffix chain page")
  case Nil
  with assms(2) show ?thesis by (simp add: graft_def)
next
  case (Cons x rest)
  then have x: "block_link anc x" using assms(5) by simp
  have "b \<in> set (takeWhile (\<lambda>b. br_number b < br_number x) chain)"
  proof (rule ccontr)
    let ?P = "\<lambda>b. br_number b < br_number x"
    assume "b \<notin> set (takeWhile ?P chain)"
    then have b: "b \<in> set (dropWhile ?P chain)"
      using assms(2) by (metis Un_iff set_append takeWhile_dropWhile_id)
    then have "\<not> ?P (hd (dropWhile ?P chain))" by (metis hd_dropWhile empty_iff list.set(1))
    moreover have "unat (br_number (hd (dropWhile ?P chain))) \<le> unat (br_number b)"
    proof -
      have l: "linked (dropWhile ?P chain)"
        using assms(1) by (metis linked_append_iff takeWhile_dropWhile_id)
      from b obtain i where "i < length (dropWhile ?P chain)" "b = dropWhile ?P chain ! i"
        by (auto simp: in_set_conv_nth)
      with linked_nth [OF l] show ?thesis by simp
    qed
    ultimately show False using assms(4) x by (auto simp: u64_order block_link_def)
  qed
  then show ?thesis by (simp add: graft_def Cons)
qed

section \<open>Properties\<close>

definition sample_tracker :: CanonicalTracker where
  "sample_tracker = \<lparr>ct_depth = 4, ct_blocks = [sample_block 1 1 0, sample_block 2 2 1, sample_block 3 3 2]\<rparr>"

definition sample_fork :: "BlockRef list" where
  "sample_fork = [sample_block 2 2 1, sample_block 3 13 2, sample_block 4 14 13]"

lemmas sample_tracker_simps = sample_tracker_def sample_fork_def sample_block_def tracker_inv_def
  wf_block_def block_link_def

lemmas tracker_eval = apply_blocks_def apply_blocks_in_place_def apply_block_def block_def tip_def
  push_def checked_add_def checked_sub_def saturating_add_def validate_block_def pop_back_above.simps

lemma sample_tracker_inv: "tracker_inv sample_tracker"
  by (simp add: sample_tracker_simps)

lemma sample_fork_run:
  "apply_blocks sample_tracker sample_fork =
     Ok (\<lparr>ct_depth = 4, ct_blocks = [sample_block 1 1 0, sample_block 2 2 1, sample_block 3 13 2,
          sample_block 4 14 13]\<rparr>,
         Some \<lparr>rd_common_ancestor = sample_block 2 2 1, rd_old_tip = sample_block 3 3 2,
               rd_new_tip = sample_block 4 14 13\<rparr>)"
  by (simp add: sample_tracker_simps tracker_eval)

lemma no_panic:
  assumes "tracker_inv t"
  shows "apply_blocks t page \<noteq> Err (Panic msg)"
proof
  assume "apply_blocks t page = Err (Panic msg)"
  then obtain t' a where num: "numbered page" and run: "fold_res apply_block page (t, None) = Ok (t', a)"
    and bad: "a \<noteq> None" "tip t = None \<or> tip t' = None"
    using validate_input_order_no_panic [of page msg]
      fold_res_Err [of apply_block page "(t, None)" "Panic msg"] apply_block_no_panic
    by (auto simp: apply_blocks_def apply_blocks_in_place_def Let_def bind_res_Err_iff result_simps
        ok_or_def split: option.splits)
  note graft = apply_run [OF assms num run]
  from graft(5) bad(1) obtain anc where "anc \<in> set (ct_blocks t)" by blast
  then have "ct_blocks t \<noteq> []" by auto
  moreover have "1 \<le> ct_depth t" using assms by (simp add: tracker_inv_def)
  ultimately have "ct_blocks t' \<noteq> []"
    using graft_nonempty [of "ct_blocks t" page] by (simp add: graft(1) pop_front_to_nonempty)
  with \<open>ct_blocks t \<noteq> []\<close> bad(2) show False by (simp add: tip_def)
qed

text \<open>
  C17: applying a page to a well-formed tracker never reaches an \<open>expect\<close> that would panic, and
  every successful application leaves a linked history of valid blocks within the depth.
\<close>

theorem apply_blocks_safe:
  assumes "tracker_inv t"
  shows "apply_blocks t page \<noteq> Err (Panic msg) \<and>
    (\<forall>t' r. apply_blocks t page = Ok (t', r) \<longrightarrow> tracker_inv t')"
  using no_panic [OF assms] tracker.apply_inv [OF assms] by blast

theorem apply_blocks_safe_witness:
  "tracker_inv sample_tracker \<and> apply_blocks sample_tracker sample_fork \<noteq> Err (Panic ''none'') \<and>
   (\<exists>t' r. apply_blocks sample_tracker sample_fork = Ok (t', r) \<and> tracker_inv t')"
  using sample_tracker_inv apply_blocks_safe [OF sample_tracker_inv] sample_fork_run by blast

text \<open>
  C5: the tracker refines the abstract chain: after a page the history is the graft of the page
  on the old history (skip what is retained, cut at the first new block, append the rest), less
  the oldest blocks beyond the depth; the graft is one linked chain and the depth is unchanged.
\<close>

theorem apply_blocks_refines_graft:
  assumes "tracker_inv t" and "apply_blocks t page = Ok (t', r)"
  shows "ct_blocks t' = drop (length (graft (ct_blocks t) page) - ct_depth t) (graft (ct_blocks t) page)
    \<and> ct_depth t' = ct_depth t \<and> linked (graft (ct_blocks t) page)"
proof -
  from apply_blocks_Ok [OF assms] obtain a where
    run: "numbered page" "fold_res apply_block page (t, None) = Ok (t', a)" by blast
  from apply_run(2) [OF assms(1) run] apply_blocks_chain [OF assms] show ?thesis by simp
qed

theorem apply_blocks_refines_graft_witness:
  "\<exists>t' r. apply_blocks sample_tracker sample_fork = Ok (t', r) \<and>
     ct_blocks t' = graft (ct_blocks sample_tracker) sample_fork \<and> length (ct_blocks t') = 4"
  using apply_blocks_refines_graft [OF sample_tracker_inv sample_fork_run]
  by (simp add: sample_fork_run) (simp add: sample_tracker_simps graft_def new_suffix_def)

lemma reorg_report:
  assumes "tracker_inv t" and "apply_blocks t page = Ok (t', r)"
  shows "(r \<noteq> None \<longleftrightarrow> displaces (ct_blocks t) page) \<and>
    (\<forall>delta. r = Some delta \<longrightarrow>
       rd_common_ancestor delta \<in> set (ct_blocks t) \<and>
       block_link (rd_common_ancestor delta) (hd (new_suffix (ct_blocks t) page)) \<and>
       (\<forall>b \<in> set (ct_blocks t). br_number b \<le> br_number (rd_common_ancestor delta) \<longrightarrow>
          b \<in> set (graft (ct_blocks t) page)) \<and>
       tip t = Some (rd_old_tip delta) \<and> tip t' = Some (rd_new_tip delta) \<and>
       rd_new_tip delta = last page \<and>
       br_number (rd_common_ancestor delta) < br_number (rd_old_tip delta) \<and>
       br_number (rd_common_ancestor delta) < br_number (rd_new_tip delta))"
proof -
  from apply_blocks_Ok [OF assms] obtain a where
    run: "numbered page" "fold_res apply_block page (t, None) = Ok (t', a)"
    and r: "r = map_option (\<lambda>anc. \<lparr>rd_common_ancestor = anc, rd_old_tip = last (ct_blocks t),
                                 rd_new_tip = last (ct_blocks t')\<rparr>) a" by blast
  note graft = apply_run [OF assms(1) run]
  have l: "linked (ct_blocks t)" using assms(1) by (simp add: tracker_inv_def)
  have "rd_common_ancestor delta \<in> set (ct_blocks t) \<and>
       block_link (rd_common_ancestor delta) (hd (new_suffix (ct_blocks t) page)) \<and>
       (\<forall>b \<in> set (ct_blocks t). br_number b \<le> br_number (rd_common_ancestor delta) \<longrightarrow>
          b \<in> set (graft (ct_blocks t) page)) \<and>
       tip t = Some (rd_old_tip delta) \<and> tip t' = Some (rd_new_tip delta) \<and>
       rd_new_tip delta = last page \<and>
       br_number (rd_common_ancestor delta) < br_number (rd_old_tip delta) \<and>
       br_number (rd_common_ancestor delta) < br_number (rd_new_tip delta)"
    if delta: "r = Some delta" for delta
  proof -
    from r delta obtain anc where a: "a = Some anc" and delta_eq: "rd_common_ancestor delta = anc"
      "rd_old_tip delta = last (ct_blocks t)" "rd_new_tip delta = last (ct_blocks t')"
      by (cases a) auto
    from graft(4) a have disp: "displaces (ct_blocks t) page" by simp
    then obtain x rest b where ns: "new_suffix (ct_blocks t) page = x # rest"
      and b: "b \<in> set (ct_blocks t)" "br_number b = br_number x"
      by (auto simp: displaces_def split: list.splits)
    have anc: "anc \<in> set (ct_blocks t)" "block_link anc x" using graft(5) a ns by auto
    have "unat (br_number x) \<le> unat (br_number (last (ct_blocks t)))"
      using linked_le_last [OF l b(1)] b(2) by simp
    then have old: "br_number anc < br_number (last (ct_blocks t))"
      using anc(2) by (simp add: u64_order block_link_def)
    have last: "last (ct_blocks t') = last page"
      using tracker.apply_last [OF assms] ns by simp
    have "linked (x # rest)" using graft(2) ns by (auto simp: graft_def linked_append_iff)
    then have "unat (br_number x) \<le> unat (br_number (last (x # rest)))"
      using linked_le_last by force
    moreover have "last page = last (x # rest)"
      using retained_prefix [of page "ct_blocks t"] ns by (metis last_appendR list.distinct(1))
    ultimately have new: "br_number anc < br_number (last page)"
      using anc(2) by (simp add: u64_order block_link_def)
    have "page \<noteq> []" using ns by (auto simp: new_suffix_def)
    then have "ct_blocks t' \<noteq> []" using apply_blocks_nonempty [OF assms] by blast
    moreover have "ct_blocks t \<noteq> []" using b by auto
    ultimately show ?thesis
      using anc old new last ns ancestor_in_graft [OF l _ anc(1)] by (simp add: delta_eq tip_Some_iff)
  qed
  moreover have "r \<noteq> None \<longleftrightarrow> displaces (ct_blocks t) page" using graft(4) r by auto
  ultimately show ?thesis by blast
qed

text \<open>A reorganisation is reported exactly when some retained block is not on the new chain.\<close>

lemma anchored_suffix:
  assumes inv: "tracker_inv t" and ok: "apply_blocks t page = Ok (t', r)" and x: "new_suffix (ct_blocks t) page = x # rest"
  shows "ct_blocks t = [] \<or> (\<exists>anc \<in> set (ct_blocks t). block_link anc x)"
proof -
  from apply_blocks_Ok [OF inv ok] obtain a where run: "fold_res apply_block page (t, None) = Ok (t', a)" by blast
  obtain pre where pre: "page = pre @ x # rest" "set pre \<subseteq> set (ct_blocks t)"
    using retained_prefix [of page "ct_blocks t"] x by auto
  from run obtain s where "apply_block x (t, None) = Ok s"
    unfolding pre(1) by (auto simp: fold_res_append retained_run [OF inv pre(2)] bind_res_Ok_iff)
  then show ?thesis using apply_block_new(2) [OF inv new_suffix_hd [OF x]] by (cases s) blast
qed

lemma reorg_iff_lost:
  assumes inv: "tracker_inv t" and ok: "apply_blocks t page = Ok (t', r)"
  shows "r \<noteq> None \<longleftrightarrow> \<not> set (ct_blocks t) \<subseteq> set (graft (ct_blocks t) page)"
proof (cases "new_suffix (ct_blocks t) page")
  case Nil
  then show ?thesis using reorg_report [OF assms] by (simp add: displaces_def graft_def)
next
  case (Cons x rest)
  let ?bs = "ct_blocks t" and ?cut = "takeWhile (\<lambda>b. br_number b < br_number x) (ct_blocks t)"
  have l: "linked ?bs" using inv by (simp add: tracker_inv_def)
  have graft: "graft ?bs page = ?cut @ x # rest" by (simp add: graft_def Cons)
  have lg: "linked (graft ?bs page)"
    using apply_blocks_Ok [OF assms] apply_run(2) [OF inv] by metis
  have "\<not> set ?bs \<subseteq> set (graft ?bs page)" if b: "b \<in> set ?bs" "br_number b = br_number x" for b
  proof
    assume "set ?bs \<subseteq> set (graft ?bs page)"
    with b have "b = x" by (intro linked_number_inj [OF lg]) (auto simp: graft)
    with b(1) new_suffix_hd [OF Cons] show False by simp
  qed
  moreover have "\<exists>b \<in> set ?bs. br_number b = br_number x" if lost: "\<not> set ?bs \<subseteq> set (graft ?bs page)"
  proof -
    from lost have "?cut \<noteq> ?bs" unfolding graft set_append by (metis Un_upper1)
    then obtain y ys where split: "?bs = ?cut @ y # ys"
      by (metis append_Nil2 neq_Nil_conv takeWhile_dropWhile_id)
    have "?bs \<noteq> []" using lost by auto
    then obtain anc where anc: "anc \<in> set ?bs" "block_link anc x" using anchored_suffix [OF assms Cons] by blast
    note cut = takeWhile_below_linked [OF l anc]
    have "linked (?cut @ y # ys)" using l split by simp
    then have "block_link anc y" using cut by (simp add: linked_append_iff)
    with anc(2) have "br_number y = br_number x" by (simp add: block_link_def u64_eq_iff)
    with split show ?thesis by (metis in_set_conv_decomp)
  qed
  ultimately show ?thesis using reorg_report [OF assms] by (auto simp: displaces_def Cons)
qed

text \<open>
  C18: a reorganisation is reported exactly when the page displaces a retained block. Its common
  ancestor is retained, is the parent of the first new block and keeps its whole retained
  prefix on the new chain; the old tip is the previous tip, the new tip the last block of the
  page, and both lie above the ancestor.
\<close>

theorem apply_blocks_reports_reorg:
  assumes "tracker_inv t" and "apply_blocks t page = Ok (t', r)"
  shows "(r \<noteq> None \<longleftrightarrow> displaces (ct_blocks t) page) \<and>
    (\<forall>delta. r = Some delta \<longrightarrow>
       rd_common_ancestor delta \<in> set (ct_blocks t) \<and>
       block_link (rd_common_ancestor delta) (hd (new_suffix (ct_blocks t) page)) \<and>
       (\<forall>b \<in> set (ct_blocks t). br_number b \<le> br_number (rd_common_ancestor delta) \<longrightarrow>
          b \<in> set (graft (ct_blocks t) page)) \<and>
       tip t = Some (rd_old_tip delta) \<and> tip t' = Some (rd_new_tip delta) \<and>
       rd_new_tip delta = last page \<and>
       br_number (rd_common_ancestor delta) < br_number (rd_old_tip delta) \<and>
       br_number (rd_common_ancestor delta) < br_number (rd_new_tip delta))"
  using reorg_report [OF assms] .

theorem apply_blocks_reports_reorg_witness:
  "\<exists>t' delta. apply_blocks sample_tracker sample_fork = Ok (t', Some delta) \<and>
     displaces (ct_blocks sample_tracker) sample_fork \<and>
     rd_common_ancestor delta = sample_block 2 2 1 \<and> rd_new_tip delta = last sample_fork"
  using apply_blocks_reports_reorg [OF sample_tracker_inv sample_fork_run]
  by (simp add: sample_fork_run)

text \<open>
  C19: a page is never refused without reason: a linked page of valid blocks that starts at a
  retained block or at the child of one (or meets an empty history), and that repeats no
  retained hash with other metadata, is applied.
\<close>

theorem apply_blocks_accepts:
  assumes "tracker_inv t" and "linked page" "list_all wf_block page"
    and "\<forall>y \<in> set page. \<forall>b \<in> set (ct_blocks t).
      br_number b = br_number y \<longrightarrow> br_hash b = br_hash y \<longrightarrow> b = y"
    and "ct_blocks t = [] \<or> hd page \<in> set (ct_blocks t) \<or>
      (\<exists>anc \<in> set (ct_blocks t). block_link anc (hd page))"
  shows "\<exists>t' r. apply_blocks t page = Ok (t', r)"
proof -
  obtain t' a where run: "fold_res apply_block page (t, None) = Ok (t', a)"
    using apply_run_ok [OF assms] by auto
  have order: "validate_input_order page = Ok ()"
    using linked_numbered [OF assms(2)] by (simp add: validate_input_order_Ok_iff)
  have "apply_blocks t page \<noteq> Err e" for e
  proof
    assume err: "apply_blocks t page = Err e"
    then obtain msg where "e = Panic msg"
      by (auto simp: apply_blocks_def apply_blocks_in_place_def Let_def order run bind_res_Err_iff
          ok_or_def split: option.splits)
    with err no_panic [OF assms(1)] show False by blast
  qed
  then show ?thesis by (cases "apply_blocks t page") auto
qed

theorem apply_blocks_accepts_witness:
  "\<exists>t' r. apply_blocks sample_tracker sample_fork = Ok (t', r)"
  by (rule apply_blocks_accepts [OF sample_tracker_inv]) (auto simp: sample_tracker_simps)

lemma restore_run:
  assumes "tracker_inv t" and "d = ct_depth t"
  shows "apply_blocks (tracker_new d) (ct_blocks t) = Ok (t, None)"
proof -
  have fresh: "tracker_inv (tracker_new (d))" by (simp add: tracker_new_def tracker_inv_def)
  have d: "1 \<le> ct_depth t" using assms(1) by (simp add: tracker_inv_def)
  have "\<exists>s. fold_res apply_block (ct_blocks t) (tracker_new (d), None) = Ok s"
    using assms(1) by (intro apply_run_ok [OF fresh]) (auto simp: tracker_inv_def tracker_new_def)
  then obtain t' a where run: "fold_res apply_block (ct_blocks t) (tracker_new (d), None) = Ok (t', a)"
    by auto
  have num: "numbered (ct_blocks t)" using assms(1) by (simp add: tracker_inv_def linked_numbered)
  note graft = apply_run [OF fresh num run]
  have whole: "graft [] (ct_blocks t) = ct_blocks t"
    by (simp add: graft_def new_suffix_def split: list.split)
  have none: "a = None"
    using graft(4) by (simp add: tracker_new_def displaces_def split: list.splits)
  have "t' = t"
    using graft(1) d assms whole by (simp add: tracker_new_def max_def tracker_inv_def)
  moreover have "validate_input_order (ct_blocks t) = Ok ()"
    using num by (simp add: validate_input_order_Ok_iff)
  ultimately show ?thesis
    using run none by (simp add: apply_blocks_def apply_blocks_in_place_def)
qed

text \<open>
  C20: a history survives a restart: restoring a tracker from the blocks another tracker of the
  same depth retains succeeds and yields exactly that history.
\<close>

theorem restore_blocks_roundtrip:
  assumes "tracker_inv t" and "ct_depth old = ct_depth t"
  shows "restore_blocks old (ct_blocks t) = Ok t"
  using restore_run [OF assms] by (simp add: restore_blocks_def)

theorem restore_blocks_roundtrip_witness:
  "restore_blocks (tracker_new 4) (ct_blocks sample_tracker) = Ok sample_tracker"
  using restore_blocks_roundtrip [OF sample_tracker_inv, of "tracker_new 4"]
  by (simp add: tracker_new_def sample_tracker_def)

end
