(* ===== verification/Checkpoint.thy ===== *)
theory Checkpoint
  imports Canonical
begin

text \<open>
  The opaque provider checkpoint of \<open>hypersync/src/normalize.rs\<close>: the 88-byte rollback guard and
  the versioned source checkpoint (magic, optional guard, activation block, counted canonical
  history), with their decoders. The decoder keeps the explicit offset of the source.

  \<open>RollbackGuard\<close> is the struct of the HyperSync client; its hashes have the client's fixed
  width, which \<open>wf_guard\<close> states.
\<close>

section \<open>Data\<close>

datatype NormalizeError =
    MissingField string
  | LogWithoutBlock u64
  | NonContiguousLogTopics
  | InvalidWidth string usize usize
  | InvalidField string
  | QuantityOverflow string
  | CheckpointWidth usize
  | InvalidCheckpoint string
  | HeaderHashMismatch bytes bytes

record RollbackGuard =
  rg_block_number :: u64
  rg_timestamp :: i64
  rg_hash :: bytes
  rg_first_block_number :: u64
  rg_first_parent_hash :: bytes

record DecodedSourceCheckpoint =
  dsc_rollback_guard :: "RollbackGuard option"
  dsc_activation_block :: "u64 option"
  dsc_canonical_blocks :: "BlockRef list"

definition SOURCE_CHECKPOINT_MAGIC :: bytes where
  "SOURCE_CHECKPOINT_MAGIC = [69, 70, 67, 72, 83, 67, 80, 50]"

definition ENCODED_BLOCK_REF_LEN :: usize where
  "ENCODED_BLOCK_REF_LEN = 80"

definition default_checkpoint :: DecodedSourceCheckpoint where
  "default_checkpoint =
     \<lparr>dsc_rollback_guard = None, dsc_activation_block = None, dsc_canonical_blocks = []\<rparr>"

section \<open>Operations\<close>

definition slice :: "'a list \<Rightarrow> nat \<Rightarrow> nat \<Rightarrow> 'a list" where
  "slice xs a b = take (b - a) (drop a xs)"

definition slice_get :: "'a list \<Rightarrow> nat \<Rightarrow> nat \<Rightarrow> 'a list option" where
  "slice_get xs a b = (if a \<le> b \<and> b \<le> length xs then Some (slice xs a b) else None)"

definition encode_rollback_guard :: "RollbackGuard \<Rightarrow> bytes" where
  "encode_rollback_guard g =
     u64_to_be_bytes (rg_block_number g) @ rg_hash g @ u64_to_be_bytes (rg_timestamp g) @
     u64_to_be_bytes (rg_first_block_number g) @ rg_first_parent_hash g"

definition decode_rollback_guard :: "bytes \<Rightarrow> NormalizeError + RollbackGuard option" where
  "decode_rollback_guard encoded =
     (if encoded = [] then Ok None
      else if length encoded \<noteq> 88 then Err (CheckpointWidth (length encoded))
      else Ok (Some
        \<lparr>rg_block_number = u64_from_be_bytes (slice encoded 0 8),
         rg_timestamp = u64_from_be_bytes (slice encoded 40 48),
         rg_hash = slice encoded 8 40,
         rg_first_block_number = u64_from_be_bytes (slice encoded 48 56),
         rg_first_parent_hash = slice encoded 56 88\<rparr>))"

definition encode_block_ref :: "BlockRef \<Rightarrow> bytes" where
  "encode_block_ref b =
     u64_to_be_bytes (br_number b) @ br_hash b @ br_parent_hash b @ u64_to_be_bytes (br_timestamp b)"

definition encode_block :: "BlockRef \<Rightarrow> bytes \<Rightarrow> NormalizeError + bytes" where
  "encode_block b encoded =
     (if length (br_hash b) \<noteq> 32 \<or> length (br_parent_hash b) \<noteq> 32
        then Err (InvalidCheckpoint ''canonical history contains an invalid hash width'')
      else Ok (encoded @ encode_block_ref b))"

definition encode_source_checkpoint ::
    "RollbackGuard option \<Rightarrow> u64 \<Rightarrow> BlockRef list \<Rightarrow> NormalizeError + bytes" where
  "encode_source_checkpoint guard activation_block blocks =
     (if 2 ^ 32 \<le> length blocks then Err (InvalidCheckpoint ''canonical history is too large'')
      else
        let block_count = (of_nat (length blocks) :: u32);
            encoded = SOURCE_CHECKPOINT_MAGIC @ [if guard \<noteq> None then 1 else 0] @
              (case guard of None \<Rightarrow> [] | Some g \<Rightarrow> encode_rollback_guard g) @
              u64_to_be_bytes activation_block @ u32_to_be_bytes block_count
        in fold_res encode_block blocks encoded)"

definition read_fixed :: "bytes \<Rightarrow> usize \<Rightarrow> usize \<Rightarrow> NormalizeError + bytes \<times> usize" where
  "read_fixed encoded offset width =
     (let stop = usize_saturating_add offset width in
      bind_res (ok_or (slice_get encoded offset stop) (InvalidCheckpoint ''truncated checkpoint''))
        (\<lambda>bs. Ok (bs, stop)))"

definition read_u64 :: "bytes \<Rightarrow> usize \<Rightarrow> NormalizeError + u64 \<times> usize" where
  "read_u64 encoded offset =
     bind_res (read_fixed encoded offset 8) (\<lambda>(bs, offset').
     if length bs \<noteq> 8 then Err (InvalidCheckpoint ''invalid integer width'')
     else Ok (u64_from_be_bytes bs, offset'))"

fun read_blocks :: "nat \<Rightarrow> bytes \<Rightarrow> usize \<Rightarrow> NormalizeError + BlockRef list \<times> usize" where
  "read_blocks 0 encoded offset = Ok ([], offset)"
| "read_blocks (Suc n) encoded offset =
     bind_res (read_u64 encoded offset) (\<lambda>(number, offset).
     bind_res (read_fixed encoded offset 32) (\<lambda>(hash, offset).
     bind_res (read_fixed encoded offset 32) (\<lambda>(parent_hash, offset).
     bind_res (read_u64 encoded offset) (\<lambda>(timestamp, offset).
     bind_res (read_blocks n encoded offset) (\<lambda>(blocks, offset).
     Ok (\<lparr>br_number = number, br_hash = hash, br_parent_hash = parent_hash,
          br_timestamp = timestamp\<rparr> # blocks, offset))))))"

definition read_guard :: "bytes \<Rightarrow> usize \<Rightarrow> NormalizeError + RollbackGuard option \<times> usize" where
  "read_guard encoded offset =
     (let tag = encoded ! offset in
      if tag = 0 then Ok (None, offset + 1)
      else if tag = 1 then
        (let start = offset + 1; stop = usize_saturating_add start 88 in
         bind_res (ok_or (slice_get encoded start stop) (InvalidCheckpoint ''truncated rollback guard''))
           (\<lambda>guard. bind_res (decode_rollback_guard guard) (\<lambda>g. Ok (g, stop))))
      else Err (InvalidCheckpoint ''invalid rollback-guard tag''))"

definition decode_source_checkpoint :: "bytes \<Rightarrow> NormalizeError + DecodedSourceCheckpoint" where
  "decode_source_checkpoint encoded =
     (if encoded = [] then Ok default_checkpoint
      else if length encoded = 88 then
        bind_res (decode_rollback_guard encoded) (\<lambda>guard.
        Ok (default_checkpoint\<lparr>dsc_rollback_guard := guard\<rparr>))
      else if length encoded < length SOURCE_CHECKPOINT_MAGIC + 1 + 4 \<or>
          slice encoded 0 (length SOURCE_CHECKPOINT_MAGIC) \<noteq> SOURCE_CHECKPOINT_MAGIC
        then Err (InvalidCheckpoint ''unknown checkpoint encoding'')
      else
        bind_res (read_guard encoded (length SOURCE_CHECKPOINT_MAGIC)) (\<lambda>(guard, offset).
        bind_res (read_u64 encoded offset) (\<lambda>(activation_block, offset).
        let count_end = usize_saturating_add offset 4 in
        bind_res (ok_or (slice_get encoded offset count_end)
            (InvalidCheckpoint ''missing canonical-history count'')) (\<lambda>count_bytes.
        if length count_bytes \<noteq> 4 then Err (InvalidCheckpoint ''invalid history count'')
        else
        let count = unat (u32_from_be_bytes count_bytes); offset = count_end;
            expected = usize_saturating_add offset (usize_saturating_mul count ENCODED_BLOCK_REF_LEN) in
        if length encoded \<noteq> expected
          then Err (InvalidCheckpoint ''canonical-history length does not match its count'')
        else
        bind_res (read_blocks count encoded offset) (\<lambda>(blocks, _).
        Ok \<lparr>dsc_rollback_guard = guard, dsc_activation_block = Some activation_block,
            dsc_canonical_blocks = blocks\<rparr>)))))"

section \<open>Reading at an offset\<close>

definition wf_guard :: "RollbackGuard \<Rightarrow> bool" where
  "wf_guard g \<longleftrightarrow> length (rg_hash g) = 32 \<and> length (rg_first_parent_hash g) = 32"

definition at_offset :: "bytes \<Rightarrow> usize \<Rightarrow> bytes \<Rightarrow> bool" where
  "at_offset encoded offset rest \<longleftrightarrow>
     length encoded < usize_max \<and> offset \<le> length encoded \<and> drop offset encoded = rest"

lemma at_offset_advance:
  assumes "at_offset encoded offset (xs @ rest)"
  shows "at_offset encoded (offset + length xs) rest"
    and "offset + length xs \<le> length encoded"
    and "usize_saturating_add offset (length xs) = offset + length xs"
    and "slice_get encoded offset (offset + length xs) = Some xs"
proof -
  have len: "offset + length xs \<le> length encoded"
    using assms by (auto simp: at_offset_def dest: arg_cong [where f = length])
  then show "offset + length xs \<le> length encoded" .
  with assms show "usize_saturating_add offset (length xs) = offset + length xs"
    by (simp add: usize_saturating_add_def at_offset_def)
  have "drop (offset + length xs) encoded = drop (length xs) (drop offset encoded)"
    by (simp add: add.commute)
  with len assms show "at_offset encoded (offset + length xs) rest" by (simp add: at_offset_def)
  show "slice_get encoded offset (offset + length xs) = Some xs"
    using len assms by (simp add: slice_get_def slice_def at_offset_def)
qed

lemma read_fixed_at:
  assumes "at_offset encoded offset (xs @ rest)" and "length xs = width"
  shows "read_fixed encoded offset width = Ok (xs, offset + width)"
  using at_offset_advance [OF assms(1)] assms(2) by (simp add: read_fixed_def Let_def)

lemma read_u64_at:
  assumes "at_offset encoded offset (u64_to_be_bytes n @ rest)"
  shows "read_u64 encoded offset = Ok (n, offset + 8)"
  using read_fixed_at [OF assms, of 8] by (simp add: read_u64_def)

lemma length_encode_block_ref: "wf_block b \<Longrightarrow> length (encode_block_ref b) = 80"
  by (simp add: encode_block_ref_def wf_block_def)

lemma read_blocks_at:
  assumes "at_offset encoded offset (concat (map encode_block_ref bs) @ rest)" and "list_all wf_block bs"
  shows "read_blocks (length bs) encoded offset = Ok (bs, offset + 80 * length bs)"
  using assms
proof (induction bs arbitrary: offset)
  case Nil
  then show ?case by simp
next
  case (Cons b bs)
  let ?rest = "concat (map encode_block_ref bs) @ rest"
  have w: "length (br_hash b) = 32" "length (br_parent_hash b) = 32"
    using Cons.prems(2) by (auto simp: wf_block_def)
  have 0: "at_offset encoded offset (u64_to_be_bytes (br_number b) @ br_hash b @ br_parent_hash b @
      u64_to_be_bytes (br_timestamp b) @ ?rest)"
    using Cons.prems(1) by (simp add: encode_block_ref_def [of b])
  note 1 = at_offset_advance(1) [OF 0, simplified]
  note 2 = at_offset_advance(1) [OF 1, unfolded w]
  note 3 = at_offset_advance(1) [OF 2, unfolded w]
  note 4 = at_offset_advance(1) [OF 3, simplified]
  have "at_offset encoded (offset + 80) ?rest" using 4 by (simp add: add.commute)
  from Cons.IH [OF this] Cons.prems(2)
  have IH: "read_blocks (length bs) encoded (offset + 80) = Ok (bs, offset + 80 + 80 * length bs)"
    by simp
  show ?case
    using IH read_u64_at [OF 0] read_fixed_at [OF 1 w(1)] read_fixed_at [OF 2 w(2)] read_u64_at [OF 3]
    by (simp add: add.assoc)
qed

section \<open>Round trips\<close>

lemma length_encode_rollback_guard: "wf_guard g \<Longrightarrow> length (encode_rollback_guard g) = 88"
  by (simp add: encode_rollback_guard_def wf_guard_def)

lemma decode_encode_guard: "wf_guard g \<Longrightarrow> decode_rollback_guard (encode_rollback_guard g) = Ok (Some g)"
  by (auto simp: decode_rollback_guard_def length_encode_rollback_guard)
     (simp add: encode_rollback_guard_def wf_guard_def slice_def)+

interpretation guard_codec: fixed_codec wf_guard encode_rollback_guard
  "\<lambda>bs. case decode_rollback_guard bs of Inl _ \<Rightarrow> None | Inr g \<Rightarrow> g" 88
  by unfold_locales (simp_all add: decode_encode_guard length_encode_rollback_guard)

definition wf_checkpoint :: "RollbackGuard option \<times> u64 \<times> BlockRef list \<Rightarrow> bool" where
  "wf_checkpoint cp \<longleftrightarrow>
     (case cp of (guard, _, blocks) \<Rightarrow>
        pred_option wf_guard guard \<and> list_all wf_block blocks \<and> length blocks < 2 ^ 32)"

definition checkpoint_bytes :: "RollbackGuard option \<Rightarrow> u64 \<Rightarrow> BlockRef list \<Rightarrow> bytes" where
  "checkpoint_bytes guard activation_block blocks =
     SOURCE_CHECKPOINT_MAGIC @ [if guard \<noteq> None then 1 else 0] @
     (case guard of None \<Rightarrow> [] | Some g \<Rightarrow> encode_rollback_guard g) @
     u64_to_be_bytes activation_block @ u32_to_be_bytes (of_nat (length blocks)) @
     concat (map encode_block_ref blocks)"

lemma fold_encode_block_Ok_iff:
  "fold_res encode_block blocks encoded = Ok r \<longleftrightarrow>
     list_all wf_block blocks \<and> r = encoded @ concat (map encode_block_ref blocks)"
  by (induction blocks arbitrary: encoded) (auto simp: result_simps encode_block_def wf_block_def)

lemma encode_source_checkpoint_Ok_iff:
  "encode_source_checkpoint guard a blocks = Ok r \<longleftrightarrow>
     length blocks < 2 ^ 32 \<and> list_all wf_block blocks \<and> r = checkpoint_bytes guard a blocks"
  by (auto simp: encode_source_checkpoint_def checkpoint_bytes_def Let_def result_simps
      fold_encode_block_Ok_iff not_le)

lemma length_concat_blocks:
  "list_all wf_block bs \<Longrightarrow> length (concat (map encode_block_ref bs)) = 80 * length bs"
  by (induction bs) (simp_all add: length_encode_block_ref)

lemma length_checkpoint_bytes:
  assumes "wf_checkpoint (guard, a, blocks)"
  shows "length (checkpoint_bytes guard a blocks) =
    21 + (case guard of None \<Rightarrow> 0 | Some _ \<Rightarrow> 88) + 80 * length blocks"
  using assms
  by (auto simp: checkpoint_bytes_def wf_checkpoint_def SOURCE_CHECKPOINT_MAGIC_def length_concat_blocks
      length_encode_rollback_guard split: option.splits)

lemma read_guard_at:
  assumes "at_offset encoded 8 ([if guard \<noteq> None then 1 else 0] @
      (case guard of None \<Rightarrow> [] | Some g \<Rightarrow> encode_rollback_guard g) @ rest)"
    and "pred_option wf_guard guard"
  shows "\<exists>offset. read_guard encoded 8 = Ok (guard, offset) \<and> at_offset encoded offset rest"
proof (cases guard)
  case None
  from assms(1) None have "at_offset encoded 8 ([0] @ rest)" by simp
  note step = at_offset_advance [OF this]
  have "encoded ! 8 = 0"
    using assms(1) None by (simp add: at_offset_def) (metis hd_drop_conv_nth le_neq_implies_less length_drop list.sel(1) drop_eq_Nil2 list.distinct(1))
  with step None show ?thesis by (simp add: read_guard_def)
next
  case (Some g)
  from assms(1) Some have at: "at_offset encoded 8 ([1] @ encode_rollback_guard g @ rest)" by simp
  have g: "wf_guard g" using assms(2) Some by simp
  note step1 = at_offset_advance(1) [OF at]
  note step2 = at_offset_advance [OF step1, unfolded length_encode_rollback_guard [OF g]]
  have "encoded ! 8 = 1"
    using at by (simp add: at_offset_def) (metis hd_drop_conv_nth le_neq_implies_less length_drop list.sel(1) drop_eq_Nil2 list.distinct(1))
  with step2 Some show ?thesis by (simp add: read_guard_def decode_encode_guard [OF g])
qed

lemma decode_checkpoint_bytes:
  assumes wf: "wf_checkpoint (guard, a, blocks)"
  shows "decode_source_checkpoint (checkpoint_bytes guard a blocks) =
    Ok \<lparr>dsc_rollback_guard = guard, dsc_activation_block = Some a, dsc_canonical_blocks = blocks\<rparr>"
proof -
  let ?e = "checkpoint_bytes guard a blocks"
  let ?n = "length blocks"
  have w: "pred_option wf_guard guard" "list_all wf_block blocks" "?n < 4294967296"
    using wf by (auto simp: wf_checkpoint_def)
  have len: "length ?e = 21 + (case guard of None \<Rightarrow> 0 | Some _ \<Rightarrow> 88) + 80 * ?n"
    using wf by (rule length_checkpoint_bytes)
  have small: "length ?e < usize_max" using w(3) by (auto simp: len split: option.splits)
  have not88: "length ?e \<noteq> 88" using len by (auto split: option.splits) presburger+
  have magic: "slice ?e 0 8 = SOURCE_CHECKPOINT_MAGIC" "length SOURCE_CHECKPOINT_MAGIC = 8"
    by (simp_all add: checkpoint_bytes_def slice_def SOURCE_CHECKPOINT_MAGIC_def)
  have "at_offset ?e 8 ([if guard \<noteq> None then 1 else 0] @
      (case guard of None \<Rightarrow> [] | Some g \<Rightarrow> encode_rollback_guard g) @
      u64_to_be_bytes a @ u32_to_be_bytes (of_nat ?n) @ concat (map encode_block_ref blocks))"
    using small by (simp add: at_offset_def len) (simp add: checkpoint_bytes_def SOURCE_CHECKPOINT_MAGIC_def)
  from read_guard_at [OF this w(1)] obtain off where guard: "read_guard ?e 8 = Ok (guard, off)"
    and at1: "at_offset ?e off (u64_to_be_bytes a @ u32_to_be_bytes (of_nat ?n) @
        concat (map encode_block_ref blocks))" by blast
  note at2 = at_offset_advance(1) [OF at1, unfolded length_u64_to_be_bytes]
  note count = at_offset_advance [OF at2, unfolded length_u32_to_be_bytes]
  have plus: "off + 8 + 4 = off + 12" by simp
  have n: "unat (of_nat ?n :: u32) = ?n" using w(3) by (simp add: unat_of_nat take_bit_eq_mod)
  have total: "length ?e = off + 12 + 80 * ?n"
  proof -
    have "length (drop (off + 8 + 4) ?e) = 80 * ?n" and "off + 8 + 4 \<le> length ?e"
      using count(1,2) w(2) by (auto simp: at_offset_def length_concat_blocks)
    then show ?thesis by simp
  qed
  have blocks: "read_blocks ?n ?e (off + 12) = Ok (blocks, off + 12 + 80 * ?n)"
    using read_blocks_at [of ?e "off + 12" blocks "[]"] count(1) w(2) by (simp only: plus append_Nil2)
  have sat: "usize_saturating_add (off + 12) (usize_saturating_mul ?n 80) = length ?e"
    using small total by (simp add: usize_saturating_add_def usize_saturating_mul_def)
  have "length ?e \<noteq> 0" "\<not> length ?e < 13" using len by simp_all
  then show ?thesis
    using not88 magic guard read_u64_at [OF at1] count(3,4)
    by (simp add: decode_source_checkpoint_def Let_def plus n sat blocks ENCODED_BLOCK_REF_LEN_def)
qed

interpretation checkpoint_codec: byte_codec wf_checkpoint
  "\<lambda>(guard, a, blocks). case encode_source_checkpoint guard a blocks of Inl _ \<Rightarrow> [] | Inr bs \<Rightarrow> bs"
  "\<lambda>bs. case decode_source_checkpoint bs of
      Inl _ \<Rightarrow> None
    | Inr cp \<Rightarrow> map_option (\<lambda>a. (dsc_rollback_guard cp, a, dsc_canonical_blocks cp)) (dsc_activation_block cp)"
proof
  fix cp :: "RollbackGuard option \<times> u64 \<times> BlockRef list"
  assume wf: "wf_checkpoint cp"
  obtain guard a blocks where cp: "cp = (guard, a, blocks)" by (cases cp)
  have "encode_source_checkpoint guard a blocks = Ok (checkpoint_bytes guard a blocks)"
    using wf by (simp add: encode_source_checkpoint_Ok_iff wf_checkpoint_def cp)
  with decode_checkpoint_bytes wf cp
  show "(case decode_source_checkpoint (case cp of (guard, a, blocks) \<Rightarrow>
        case encode_source_checkpoint guard a blocks of Inl _ \<Rightarrow> [] | Inr bs \<Rightarrow> bs) of
      Inl _ \<Rightarrow> None
    | Inr cp \<Rightarrow> map_option (\<lambda>a. (dsc_rollback_guard cp, a, dsc_canonical_blocks cp)) (dsc_activation_block cp))
    = Some cp" by simp
qed

section \<open>Accepted bytes are the canonical encoding\<close>

lemma slice_getD: "slice_get xs a b = Some ys \<Longrightarrow> a \<le> b \<and> b \<le> length xs \<and> length ys = b - a \<and>
    drop a xs = ys @ drop b xs"
  by (auto simp: slice_get_def slice_def split: if_splits)
     (metis append_take_drop_id drop_drop le_add_diff_inverse2)

lemma read_fixedD:
  assumes "read_fixed encoded offset width = Ok (bs, offset')" and "length encoded < usize_max"
  shows "offset' = offset + width \<and> offset' \<le> length encoded \<and> length bs = width \<and>
    drop offset encoded = bs @ drop offset' encoded"
proof -
  from assms(1) have get: "slice_get encoded offset (usize_saturating_add offset width) = Some bs"
    and stop: "offset' = usize_saturating_add offset width"
    by (auto simp: read_fixed_def Let_def result_simps)
  note d = slice_getD [OF get]
  with assms(2) have "usize_saturating_add offset width = offset + width"
    by (auto simp: usize_saturating_add_def min_def split: if_splits)
  with d stop show ?thesis by auto
qed

lemma read_u64D:
  assumes "read_u64 encoded offset = Ok (n, offset')" and "length encoded < usize_max"
  shows "offset' = offset + 8 \<and> offset' \<le> length encoded \<and>
    drop offset encoded = u64_to_be_bytes n @ drop offset' encoded"
  using assms
  by (auto simp: read_u64_def result_simps u64_from_be_bytes_inverse dest!: read_fixedD)

lemma read_blocksD:
  assumes "read_blocks n encoded offset = Ok (bs, offset')" and "length encoded < usize_max"
  shows "length bs = n \<and> list_all wf_block bs \<and> offset' = offset + 80 * n \<and>
    drop offset encoded = concat (map encode_block_ref bs) @ drop offset' encoded"
  using assms(1)
proof (induction n arbitrary: offset bs)
  case 0
  then show ?case by simp
next
  case (Suc n)
  from Suc.prems obtain number o1 hash o2 parent o3 timestamp o4 rest where
    r: "read_u64 encoded offset = Ok (number, o1)" "read_fixed encoded o1 32 = Ok (hash, o2)"
      "read_fixed encoded o2 32 = Ok (parent, o3)" "read_u64 encoded o3 = Ok (timestamp, o4)"
      "read_blocks n encoded o4 = Ok (rest, offset')"
    and bs: "bs = \<lparr>br_number = number, br_hash = hash, br_parent_hash = parent, br_timestamp = timestamp\<rparr> # rest"
    by (auto simp: result_simps)
  note d1 = read_u64D [OF r(1) assms(2)] and d2 = read_fixedD [OF r(2) assms(2)]
    and d3 = read_fixedD [OF r(3) assms(2)] and d4 = read_u64D [OF r(4) assms(2)] and IH = Suc.IH [OF r(5)]
  have "drop offset encoded = encode_block_ref (hd bs) @ drop o4 encoded"
    using d1 d2 d3 d4 by (simp add: bs encode_block_ref_def)
  with d1 d2 d3 d4 IH show ?case by (simp add: bs wf_block_def)
qed

lemma decode_guardD:
  assumes "decode_rollback_guard bs = Ok guard" "bs \<noteq> []"
  shows "\<exists>g. guard = Some g \<and> wf_guard g \<and> bs = encode_rollback_guard g"
proof -
  from assms have len: "length bs = 88" by (auto simp: decode_rollback_guard_def split: if_splits)
  have pieces: "bs = slice bs 0 8 @ slice bs 8 40 @ slice bs 40 48 @ slice bs 48 56 @ slice bs 56 88"
  proof -
    have cut: "drop a bs = slice bs a b @ drop b bs" if "a \<le> b" "b \<le> 88" for a b
    proof -
      have "slice_get bs a b = Some (slice bs a b)" using that len by (simp add: slice_get_def)
      from slice_getD [OF this] show ?thesis by blast
    qed
    have d0: "bs = slice bs 0 8 @ drop 8 bs" using cut [of 0 8] by simp
    have d8: "drop 8 bs = slice bs 8 40 @ drop 40 bs" by (rule cut) simp_all
    have d40: "drop 40 bs = slice bs 40 48 @ drop 48 bs" by (rule cut) simp_all
    have d48: "drop 48 bs = slice bs 48 56 @ drop 56 bs" by (rule cut) simp_all
    have d56: "drop 56 bs = slice bs 56 88" using len by (simp add: slice_def)
    show ?thesis using d0 unfolding d8 d40 d48 d56 .
  qed
  have ls: "length (slice bs 0 8) = 8" "length (slice bs 40 48) = 8" "length (slice bs 48 56) = 8"
    "length (slice bs 8 40) = 32" "length (slice bs 56 88) = 32"
    using len by (simp_all add: slice_def)
  let ?g = "\<lparr>rg_block_number = u64_from_be_bytes (slice bs 0 8),
         rg_timestamp = u64_from_be_bytes (slice bs 40 48), rg_hash = slice bs 8 40,
         rg_first_block_number = u64_from_be_bytes (slice bs 48 56),
         rg_first_parent_hash = slice bs 56 88\<rparr>"
  have 1: "guard = Some ?g" using assms len by (auto simp: decode_rollback_guard_def)
  have 2: "wf_guard ?g" using ls by (simp add: wf_guard_def)
  have 3: "encode_rollback_guard ?g = bs"
    unfolding encode_rollback_guard_def RollbackGuard.simps
      u64_from_be_bytes_inverse [OF ls(1)] u64_from_be_bytes_inverse [OF ls(2)]
      u64_from_be_bytes_inverse [OF ls(3)]
    by (rule pieces [symmetric])
  show ?thesis by (rule exI [of _ ?g]) (intro conjI 1 2 3 [symmetric])
qed

lemma read_guardD:
  assumes "read_guard encoded offset = Ok (guard, offset')" "offset < length encoded"
    "length encoded < usize_max"
  shows "pred_option wf_guard guard \<and> offset' \<le> length encoded \<and>
    drop offset encoded = [if guard \<noteq> None then 1 else 0] @
      (case guard of None \<Rightarrow> [] | Some g \<Rightarrow> encode_rollback_guard g) @ drop offset' encoded"
proof -
  have cons: "drop offset encoded = encoded ! offset # drop (offset + 1) encoded"
    using assms(2) by (simp add: Cons_nth_drop_Suc)
  from assms(1) consider
      "encoded ! offset = 0" "guard = None" "offset' = offset + 1"
    | bs where "encoded ! offset = 1" "decode_rollback_guard bs = Ok guard"
        "slice_get encoded (offset + 1) (usize_saturating_add (offset + 1) 88) = Some bs"
        "offset' = usize_saturating_add (offset + 1) 88"
    by (auto simp: read_guard_def Let_def result_simps split: if_splits)
  then show ?thesis
  proof cases
    case 1
    with cons assms(2) show ?thesis by simp
  next
    case (2 bs)
    note d = slice_getD [OF 2(3)]
    with assms(3) have stop: "usize_saturating_add (offset + 1) 88 = offset + 1 + 88"
      by (auto simp: usize_saturating_add_def min_def split: if_splits)
    have "bs \<noteq> []" using d stop by auto
    from decode_guardD [OF 2(2) this] obtain g where "guard = Some g" "wf_guard g" "bs = encode_rollback_guard g"
      by blast
    with 2 d cons show ?thesis by simp
  qed
qed

lemma decode_checkpointD:
  assumes ok: "decode_source_checkpoint encoded = Ok cp" and small: "length encoded < usize_max"
    and versioned: "dsc_activation_block cp = Some a"
  shows "wf_checkpoint (dsc_rollback_guard cp, a, dsc_canonical_blocks cp) \<and>
    encoded = checkpoint_bytes (dsc_rollback_guard cp) a (dsc_canonical_blocks cp)"
proof -
  have m: "length SOURCE_CHECKPOINT_MAGIC = 8" by (simp add: SOURCE_CHECKPOINT_MAGIC_def)
  let ?g = "dsc_rollback_guard cp" and ?bs = "dsc_canonical_blocks cp"
  from ok versioned obtain off o1 cb o2 where
    long: "13 \<le> length encoded" and magic: "slice encoded 0 8 = SOURCE_CHECKPOINT_MAGIC"
    and r: "read_guard encoded 8 = Ok (?g, off)" "read_u64 encoded off = Ok (a, o1)"
      "slice_get encoded o1 (usize_saturating_add o1 4) = Some cb" "length cb = 4"
      "read_blocks (unat (u32_from_be_bytes cb)) encoded (usize_saturating_add o1 4) = Ok (?bs, o2)"
    and total: "length encoded = usize_saturating_add (usize_saturating_add o1 4)
        (usize_saturating_mul (unat (u32_from_be_bytes cb)) 80)"
    by (auto simp: decode_source_checkpoint_def default_checkpoint_def Let_def result_simps m
        ENCODED_BLOCK_REF_LEN_def split: if_splits)
  note d1 = read_guardD [OF r(1) _ small] and d2 = read_u64D [OF r(2) small] and d3 = slice_getD [OF r(3)]
  have stop: "usize_saturating_add o1 4 = o1 + 4"
    using d3 small by (auto simp: usize_saturating_add_def min_def split: if_splits)
  note d4 = read_blocksD [OF r(5) small]
  let ?n = "unat (u32_from_be_bytes cb)"
  have n32: "?n < 4294967296" using unsigned_less [of "u32_from_be_bytes cb", where ?'a = nat] by simp
  have "length encoded = o1 + 4 + 80 * ?n"
    using total stop small by (auto simp: usize_saturating_add_def usize_saturating_mul_def min_def split: if_splits)
  then have "drop o2 encoded = []" using d4 stop by simp
  moreover have "cb = u32_to_be_bytes (of_nat (length ?bs))"
    using d4 r(4) u32_from_be_bytes_inverse [OF r(4)] by simp
  moreover have "encoded = SOURCE_CHECKPOINT_MAGIC @ drop 8 encoded"
    using magic by (metis append_take_drop_id slice_def diff_zero drop0)
  moreover have "drop 8 encoded = [if ?g \<noteq> None then 1 else 0] @
      (case ?g of None \<Rightarrow> [] | Some g \<Rightarrow> encode_rollback_guard g) @ drop off encoded"
    using d1 long by simp
  moreover have "drop off encoded = u64_to_be_bytes a @ drop o1 encoded" using d2 by blast
  moreover have "drop o1 encoded = cb @ drop (usize_saturating_add o1 4) encoded" using d3 by blast
  moreover have "drop (usize_saturating_add o1 4) encoded = concat (map encode_block_ref ?bs) @ drop o2 encoded"
    using d4 by blast
  ultimately have "encoded = checkpoint_bytes ?g a ?bs"
    unfolding checkpoint_bytes_def by (metis append_Nil2 append_assoc)
  moreover have "wf_checkpoint (?g, a, ?bs)"
    using d1 d4 n32 long by (simp add: wf_checkpoint_def)
  ultimately show ?thesis by blast
qed

section \<open>Properties\<close>

definition sample_guard :: RollbackGuard where
  "sample_guard = \<lparr>rg_block_number = 3, rg_timestamp = 3, rg_hash = replicate 32 3,
     rg_first_block_number = 2, rg_first_parent_hash = replicate 32 1\<rparr>"

lemma sample_checkpoint_wf: "wf_checkpoint (Some sample_guard, 2, ct_blocks sample_tracker)"
  by (simp add: wf_checkpoint_def wf_guard_def sample_guard_def sample_tracker_simps)

text \<open>
  C21: a checkpoint survives its encoding: whatever guard, activation block and valid canonical
  history the encoder is given, it succeeds and the decoder returns exactly them.
\<close>

theorem source_checkpoint_roundtrip:
  assumes "wf_checkpoint (guard, activation_block, blocks)"
  shows "\<exists>encoded. encode_source_checkpoint guard activation_block blocks = Ok encoded \<and>
    decode_source_checkpoint encoded =
      Ok \<lparr>dsc_rollback_guard = guard, dsc_activation_block = Some activation_block,
          dsc_canonical_blocks = blocks\<rparr>"
  using assms decode_checkpoint_bytes [OF assms]
  by (simp add: encode_source_checkpoint_Ok_iff wf_checkpoint_def)

theorem source_checkpoint_roundtrip_witness:
  "\<exists>encoded. encode_source_checkpoint (Some sample_guard) 2 (ct_blocks sample_tracker) = Ok encoded \<and>
    decode_source_checkpoint encoded =
      Ok \<lparr>dsc_rollback_guard = Some sample_guard, dsc_activation_block = Some 2,
          dsc_canonical_blocks = ct_blocks sample_tracker\<rparr>"
  by (rule source_checkpoint_roundtrip [OF sample_checkpoint_wf])

text \<open>
  C22: the versioned format is canonical: bytes the decoder accepts as a versioned checkpoint are
  the encoding of what it returns, so no two byte strings decode to the same checkpoint and no
  truncated, extended or mistagged string is accepted.
\<close>

theorem source_checkpoint_canonical:
  assumes "decode_source_checkpoint encoded = Ok cp" and "length encoded < usize_max"
    and "dsc_activation_block cp = Some activation_block"
  shows "encode_source_checkpoint (dsc_rollback_guard cp) activation_block (dsc_canonical_blocks cp)
    = Ok encoded"
  using decode_checkpointD [OF assms] by (simp add: encode_source_checkpoint_Ok_iff wf_checkpoint_def)

theorem source_checkpoint_canonical_witness:
  "encode_source_checkpoint None 7 [] = Ok (checkpoint_bytes None 7 [])"
proof -
  have wf: "wf_checkpoint (None, 7, [])" by (simp add: wf_checkpoint_def)
  have "length (checkpoint_bytes None 7 []) < usize_max"
    using length_checkpoint_bytes [OF wf] by simp
  from source_checkpoint_canonical [OF decode_checkpoint_bytes [OF wf] this] show ?thesis by simp
qed

end
