(* ===== verification/Source_Page.thy ===== *)
theory Source_Page
  imports Checkpoint
begin

text \<open>
  Provider pages, and the field readers of \<open>hypersync/src/normalize.rs\<close> that turn the optional
  fields of a provider row into protocol values or an error.

  \<open>SourceBlock\<close> and \<open>SourceLog\<close> hold the fields of the HyperSync client's \<open>Block\<close> and \<open>Log\<close>
  that the code reads. Hashes, addresses, data and quantities are byte strings, as the code
  reads them with \<open>as_ref\<close>.
\<close>

section \<open>Data\<close>

record Withdrawal =
  wd_index :: "bytes option"
  wd_validator_index :: "bytes option"
  wd_address :: "bytes option"
  wd_amount :: "bytes option"

record SourceBlock =
  sb_number :: "u64 option"
  sb_hash :: "bytes option"
  sb_parent_hash :: "bytes option"
  sb_timestamp :: "bytes option"
  sb_nonce :: "bytes option"
  sb_sha3_uncles :: "bytes option"
  sb_logs_bloom :: "bytes option"
  sb_transactions_root :: "bytes option"
  sb_state_root :: "bytes option"
  sb_receipts_root :: "bytes option"
  sb_miner :: "bytes option"
  sb_difficulty :: "bytes option"
  sb_total_difficulty :: "bytes option"
  sb_extra_data :: "bytes option"
  sb_size :: "bytes option"
  sb_gas_limit :: "bytes option"
  sb_gas_used :: "bytes option"
  sb_base_fee_per_gas :: "bytes option"
  sb_blob_gas_used :: "bytes option"
  sb_excess_blob_gas :: "bytes option"
  sb_parent_beacon_block_root :: "bytes option"
  sb_withdrawals_root :: "bytes option"
  sb_mix_hash :: "bytes option"
  sb_send_count :: "bytes option"
  sb_send_root :: "bytes option"
  sb_uncles :: "bytes list option"
  sb_withdrawals :: "Withdrawal list option"

record SourceLog =
  sl_removed :: "bool option"
  sl_log_index :: "u64 option"
  sl_transaction_index :: "u64 option"
  sl_transaction_hash :: "bytes option"
  sl_block_hash :: "bytes option"
  sl_block_number :: "u64 option"
  sl_address :: "bytes option"
  sl_data :: "bytes option"
  sl_topics :: "bytes option list"

record SourcePage =
  sp_archive_height :: "u64 option"
  sp_next_block :: u64
  sp_blocks :: "SourceBlock list"
  sp_logs :: "SourceLog list"
  sp_rollback_guard :: "RollbackGuard option"

definition source_page_new :: "u64 \<Rightarrow> SourceBlock list \<Rightarrow> SourceLog list \<Rightarrow> SourcePage" where
  "source_page_new next_block blocks logs =
     \<lparr>sp_archive_height = None, sp_next_block = next_block, sp_blocks = blocks, sp_logs = logs,
      sp_rollback_guard = None\<rparr>"

definition with_archive_height :: "SourcePage \<Rightarrow> u64 option \<Rightarrow> SourcePage" where
  "with_archive_height page archive_height = page\<lparr>sp_archive_height := archive_height\<rparr>"

definition with_rollback_guard :: "SourcePage \<Rightarrow> RollbackGuard option \<Rightarrow> SourcePage" where
  "with_rollback_guard page rollback_guard = page\<lparr>sp_rollback_guard := rollback_guard\<rparr>"

section \<open>Field readers\<close>

definition required_fixed :: "nat \<Rightarrow> bytes option \<Rightarrow> string \<Rightarrow> NormalizeError + bytes" where
  "required_fixed n value field =
     bind_res (ok_or value (MissingField field)) (\<lambda>bs.
     if length bs = n then Ok bs else Err (InvalidWidth field n (length bs)))"

definition transpose :: "('e + 'a) option \<Rightarrow> 'e + 'a option" where
  "transpose m = (case m of None \<Rightarrow> Ok None | Some r \<Rightarrow> bind_res r (\<lambda>x. Ok (Some x)))"

definition optional_b256 :: "bytes option \<Rightarrow> string \<Rightarrow> NormalizeError + bytes option" where
  "optional_b256 value field = transpose (map_option (\<lambda>v. required_fixed 32 (Some v) field) value)"

definition be_padded_u64 :: "bytes \<Rightarrow> u64" where
  "be_padded_u64 bs = u64_from_be_bytes (replicate (8 - length bs) 0 @ bs)"

definition quantity_to_u64_field :: "bytes \<Rightarrow> string \<Rightarrow> NormalizeError + u64" where
  "quantity_to_u64_field bs field =
     (if 8 < length bs then Err (QuantityOverflow field) else Ok (be_padded_u64 bs))"

definition required_quantity_u64 :: "bytes option \<Rightarrow> string \<Rightarrow> NormalizeError + u64" where
  "required_quantity_u64 value field =
     bind_res (ok_or value (MissingField field)) (\<lambda>v. quantity_to_u64_field v field)"

definition optional_quantity_u64 :: "bytes option \<Rightarrow> string \<Rightarrow> NormalizeError + u64 option" where
  "optional_quantity_u64 value field =
     transpose (map_option (\<lambda>v. quantity_to_u64_field v field) value)"

definition quantity_to_u256 :: "bytes \<Rightarrow> string \<Rightarrow> NormalizeError + nat" where
  "quantity_to_u256 bs field =
     (if 32 < length bs then Err (QuantityOverflow field) else Ok (from_be_bytes bs))"

definition required_bytes :: "bytes option \<Rightarrow> string \<Rightarrow> NormalizeError + bytes" where
  "required_bytes value field = ok_or value (MissingField field)"

definition required_u64 :: "u64 option \<Rightarrow> string \<Rightarrow> NormalizeError + u64" where
  "required_u64 value field = ok_or value (MissingField field)"

definition quantity_to_u64 :: "bytes \<Rightarrow> NormalizeError + u64" where
  "quantity_to_u64 bs =
     (if 8 < length bs then Err (QuantityOverflow ''block.timestamp'') else Ok (be_padded_u64 bs))"

definition block_ref :: "SourceBlock \<Rightarrow> NormalizeError + BlockRef" where
  "block_ref b =
     bind_res (ok_or (sb_number b) (MissingField ''block.number'')) (\<lambda>number.
     bind_res (required_fixed 32 (sb_hash b) ''block.hash'') (\<lambda>hash.
     bind_res (required_fixed 32 (sb_parent_hash b) ''block.parent_hash'') (\<lambda>parent_hash.
     bind_res (transpose (map_option quantity_to_u64 (sb_timestamp b))) (\<lambda>ts.
     bind_res (ok_or ts (MissingField ''block.timestamp'')) (\<lambda>timestamp.
     Ok \<lparr>br_number = number, br_hash = hash, br_parent_hash = parent_hash,
         br_timestamp = timestamp\<rparr>)))))"

definition push_topic :: "bytes option \<Rightarrow> bytes list \<times> bool \<Rightarrow> NormalizeError + bytes list \<times> bool" where
  "push_topic topic s =
     (let (normalized, saw_missing) = s in
      case topic of
        Some t \<Rightarrow>
          (if saw_missing then Err NonContiguousLogTopics
           else bind_res (required_fixed 32 (Some t) ''log.topic'') (\<lambda>v. Ok (normalized @ [v], saw_missing)))
      | None \<Rightarrow> Ok (normalized, True))"

definition normalize_topics :: "bytes option list \<Rightarrow> NormalizeError + bytes list" where
  "normalize_topics topics =
     bind_res (fold_res push_topic topics ([], False)) (\<lambda>(normalized, _). Ok normalized)"

section \<open>Lemmas\<close>

lemma required_fixed_Ok_iff [result_simps]:
  "required_fixed n v field = Ok bs \<longleftrightarrow> v = Some bs \<and> length bs = n"
  by (auto simp: required_fixed_def bind_res_Ok_iff ok_or_Ok_iff)

lemma transpose_simps [simp]:
  "transpose None = Ok None"
  "transpose (Some r) = bind_res r (\<lambda>x. Ok (Some x))"
  by (simp_all add: transpose_def)

text \<open>A block reference is read exactly from a row with all four identity fields well formed.\<close>

lemma block_ref_Ok_iff:
  "block_ref b = Ok r \<longleftrightarrow>
     sb_number b = Some (br_number r) \<and> sb_hash b = Some (br_hash r) \<and>
     sb_parent_hash b = Some (br_parent_hash r) \<and> wf_block r \<and>
     (\<exists>ts. sb_timestamp b = Some ts \<and> length ts \<le> 8 \<and> br_timestamp r = be_padded_u64 ts)"
  by (cases "sb_timestamp b"; cases r)
     (auto simp: block_ref_def bind_res_Ok_iff ok_or_Ok_iff required_fixed_Ok_iff quantity_to_u64_def wf_block_def)

text \<open>Topics are a prefix of present 32-byte values followed by absent positions.\<close>

lemma push_topics_Ok_iff:
  "fold_res push_topic topics (acc, m) = Ok (out, m') \<longleftrightarrow>
     (\<exists>vs n. topics = map Some vs @ replicate n None \<and> (m \<longrightarrow> vs = []) \<and>
        list_all (\<lambda>v. length v = 32) vs \<and> out = acc @ vs \<and> (m' \<longleftrightarrow> m \<or> 0 < n))"
proof (induction topics arbitrary: acc m)
  case Nil
  then show ?case by auto
next
  case (Cons topic topics)
  show ?case
  proof (cases topic)
    case None
    have "map Some vs @ replicate n None = None # topics \<longleftrightarrow>
        vs = [] \<and> (\<exists>k. n = Suc k \<and> topics = replicate k None)" for vs :: "bytes list" and n
      by (cases vs; cases n) auto
    then show ?thesis
      using None Cons.IH [of acc True]
      by (auto simp: push_topic_def eq_commute [of "None # topics"])
  next
    case (Some t)
    have "map Some vs @ replicate n None = Some t # topics \<longleftrightarrow>
        (\<exists>us. vs = t # us \<and> topics = map Some us @ replicate n None)" for vs :: "bytes list" and n
      by (cases vs; cases n) auto
    then show ?thesis
      using Some Cons.IH [of "acc @ [t]" m]
      by (auto simp: push_topic_def bind_res_Ok_iff required_fixed_Ok_iff eq_commute [of "Some t # topics"])
  qed
qed

lemma normalize_topics_Ok_iff:
  "normalize_topics topics = Ok vs \<longleftrightarrow>
     (\<exists>n. topics = map Some vs @ replicate n None) \<and> list_all (\<lambda>v. length v = 32) vs"
  by (auto simp: normalize_topics_def bind_res_Ok_iff push_topics_Ok_iff)

end
