(* ===== verification/Page_Validation.thy ===== *)
theory Page_Validation
  imports Source_Page
begin

text \<open>
  \<open>hypersync/src/page_validation.rs\<close>: the admission check of a provider page against the bounded
  query that produced it. Each loop is a fold over its rows with the loop's locals as state; the
  hash sets and maps of the log loop are a set and two maps.
\<close>

section \<open>Data\<close>

datatype SourcePageError =
    CursorBeyondTarget u64 u64
  | ArchiveBehindCursor u64 u64
  | PageMissingField string
  | PageInvalidWidth string usize usize
  | NonContiguousBlock u64 u64
  | ParentHashMismatch u64
  | IncompleteBlockRange u64 u64
  | MissingRollbackGuardRange
  | RollbackGuardStartMismatch u64 u64
  | RollbackGuardTipMismatch u64 u64
  | RollbackGuardParentMismatch u64
  | RollbackGuardHashMismatch u64
  | RollbackGuardTimestampMismatch u64
  | RollbackGuardTimestampOutOfRange u64
  | LogOutsidePage u64 u64 u64
  | PageLogWithoutBlock u64
  | LogBlockHashMismatch u64
  | RemovedLogInCanonicalPage u64
  | DuplicateLog u64
  | TransactionIdentityConflict u64
  | TooManyLogTopics usize
  | PageNonContiguousLogTopics
  | PageQuantityOverflow string
  | PageBlockNumberOverflow
  | PagePanic string

record PageScan =
  ps_expected_number :: u64
  ps_previous_hash :: "bytes option"
  ps_block_hashes :: "(u64 \<times> bytes) list"

record LogScan =
  ls_log_identities :: "(bytes \<times> u64) set"
  ls_transaction_indexes :: "bytes \<times> bytes \<rightharpoonup> u64"
  ls_transaction_hashes :: "bytes \<times> u64 \<rightharpoonup> bytes"

section \<open>Operations\<close>

definition required_width :: "bytes option \<Rightarrow> string \<Rightarrow> usize \<Rightarrow> SourcePageError + bytes" where
  "required_width value field expected =
     bind_res (ok_or value (PageMissingField field)) (\<lambda>value.
     if length value \<noteq> expected then Err (PageInvalidWidth field expected (length value))
     else Ok value)"

definition quantity_u64 :: "bytes \<Rightarrow> string \<Rightarrow> SourcePageError + u64" where
  "quantity_u64 bs field =
     (if 8 < length bs then Err (PageQuantityOverflow field) else Ok (be_padded_u64 bs))"

definition validate_page_block :: "SourceBlock \<Rightarrow> PageScan \<Rightarrow> SourcePageError + PageScan" where
  "validate_page_block b s =
     bind_res (ok_or (sb_number b) (PageMissingField ''block.number'')) (\<lambda>number.
     if number \<noteq> ps_expected_number s then Err (NonContiguousBlock (ps_expected_number s) number)
     else
       bind_res (required_width (sb_hash b) ''block.hash'' 32) (\<lambda>hash.
       bind_res (required_width (sb_parent_hash b) ''block.parent_hash'' 32) (\<lambda>parent_hash.
       if is_some_and (\<lambda>previous_hash. parent_hash \<noteq> previous_hash) (ps_previous_hash s)
         then Err (ParentHashMismatch number)
       else
         bind_res (ok_or (sb_timestamp b) (PageMissingField ''block.timestamp'')) (\<lambda>timestamp.
         if 8 < length timestamp then Err (PageQuantityOverflow ''block.timestamp'')
         else
           bind_res (ok_or (checked_add (ps_expected_number s) 1) PageBlockNumberOverflow) (\<lambda>expected_number.
           Ok \<lparr>ps_expected_number = expected_number, ps_previous_hash = Some hash,
               ps_block_hashes = ps_block_hashes s @ [(number, hash)]\<rparr>)))))"

definition validate_rollback_guard ::
    "RollbackGuard \<Rightarrow> SourceBlock list \<Rightarrow> SourcePageError + unit" where
  "validate_rollback_guard guard blocks =
     bind_res (ok_or (first_opt blocks) MissingRollbackGuardRange) (\<lambda>first.
     bind_res (ok_or (last_opt blocks) MissingRollbackGuardRange) (\<lambda>final.
     bind_res (ok_or (sb_number first) (PageMissingField ''block.number'')) (\<lambda>first_number.
     bind_res (ok_or (sb_number final) (PageMissingField ''block.number'')) (\<lambda>last_number.
     if rg_first_block_number guard \<noteq> first_number
       then Err (RollbackGuardStartMismatch first_number (rg_first_block_number guard))
     else if rg_block_number guard \<noteq> last_number
       then Err (RollbackGuardTipMismatch last_number (rg_block_number guard))
     else
       bind_res (required_width (sb_parent_hash first) ''block.parent_hash'' 32) (\<lambda>first_parent.
       if rg_first_parent_hash guard \<noteq> first_parent
         then Err (RollbackGuardParentMismatch first_number)
       else
         bind_res (required_width (sb_hash final) ''block.hash'' 32) (\<lambda>last_hash.
         if rg_hash guard \<noteq> last_hash then Err (RollbackGuardHashMismatch last_number)
         else
           bind_res (ok_or (sb_timestamp final) (PageMissingField ''block.timestamp'')) (\<lambda>ts.
           bind_res (quantity_u64 ts ''block.timestamp'') (\<lambda>timestamp.
           bind_res (ok_or (i64_try_from_u64 timestamp)
               (RollbackGuardTimestampOutOfRange last_number)) (\<lambda>timestamp.
           if rg_timestamp guard \<noteq> timestamp then Err (RollbackGuardTimestampMismatch last_number)
           else Ok ())))))))))"

definition validate_topic :: "bytes option \<Rightarrow> bool \<Rightarrow> SourcePageError + bool" where
  "validate_topic topic saw_missing_topic =
     (case topic of
        Some t \<Rightarrow>
          (if saw_missing_topic then Err PageNonContiguousLogTopics
           else bind_res (required_width (Some t) ''log.topic'' 32) (\<lambda>_. Ok saw_missing_topic))
      | None \<Rightarrow> Ok True)"

definition validate_log ::
    "SourceLog \<Rightarrow> u64 \<Rightarrow> u64 \<Rightarrow> (u64 \<times> bytes) list \<Rightarrow> SourcePageError + unit" where
  "validate_log log from_block next_block block_hashes =
     bind_res (ok_or (sl_block_number log) (PageMissingField ''log.block_number'')) (\<lambda>block_number.
     if block_number < from_block \<or> next_block \<le> block_number
       then Err (LogOutsidePage block_number from_block next_block)
     else
       bind_res (required_width (sl_block_hash log) ''log.block_hash'' 32) (\<lambda>block_hash.
       let index = unat (block_number - from_block) in
       bind_res (ok_or
           (if index < length block_hashes \<and> fst (block_hashes ! index) = block_number
            then Some (snd (block_hashes ! index)) else None)
           (PageLogWithoutBlock block_number)) (\<lambda>expected_hash.
       if block_hash \<noteq> expected_hash then Err (LogBlockHashMismatch block_number)
       else
         bind_res (ok_or (sl_removed log) (PageMissingField ''log.removed'')) (\<lambda>removed.
         if removed then Err (RemovedLogInCanonicalPage block_number)
         else
           bind_res (required_width (sl_address log) ''log.address'' 20) (\<lambda>_.
           bind_res (required_width (sl_transaction_hash log) ''log.transaction_hash'' 32) (\<lambda>_.
           bind_res (ok_or (sl_data log) (PageMissingField ''log.data'')) (\<lambda>_.
           if 4 < length (sl_topics log) then Err (TooManyLogTopics (length (sl_topics log)))
           else
             bind_res (fold_res validate_topic (sl_topics log) False) (\<lambda>_.
             bind_res (ok_or (sl_transaction_index log) (PageMissingField ''log.transaction_index'')) (\<lambda>_.
             bind_res (ok_or (sl_log_index log) (PageMissingField ''log.log_index'')) (\<lambda>_.
             Ok ()))))))))))"

definition validate_page_log ::
    "u64 \<Rightarrow> u64 \<Rightarrow> (u64 \<times> bytes) list \<Rightarrow> SourceLog \<Rightarrow> LogScan \<Rightarrow> SourcePageError + LogScan" where
  "validate_page_log from_block next_block block_hashes log s =
     bind_res (validate_log log from_block next_block block_hashes) (\<lambda>_.
     bind_res (required_width (sl_block_hash log) ''log.block_hash'' 32) (\<lambda>block_hash.
     bind_res (required_width (sl_transaction_hash log) ''log.transaction_hash'' 32) (\<lambda>transaction_hash.
     bind_res (ok_or (sl_transaction_index log) (PageMissingField ''log.transaction_index'')) (\<lambda>transaction_index.
     bind_res (ok_or (sl_log_index log) (PageMissingField ''log.log_index'')) (\<lambda>log_index.
     if (block_hash, log_index) \<in> ls_log_identities s then Err (DuplicateLog log_index)
     else if is_some_and (\<lambda>known. known \<noteq> transaction_index)
               (ls_transaction_indexes s (block_hash, transaction_hash)) \<or>
             is_some_and (\<lambda>known. known \<noteq> transaction_hash)
               (ls_transaction_hashes s (block_hash, transaction_index))
       then bind_res (ok_or (sl_block_number log) (PagePanic ''validated log block number''))
              (\<lambda>block_number. Err (TransactionIdentityConflict block_number))
     else Ok
       \<lparr>ls_log_identities = insert (block_hash, log_index) (ls_log_identities s),
        ls_transaction_indexes =
          (ls_transaction_indexes s)((block_hash, transaction_hash) \<mapsto> transaction_index),
        ls_transaction_hashes =
          (ls_transaction_hashes s)((block_hash, transaction_index) \<mapsto> transaction_hash)\<rparr>)))))"

definition validate_source_page :: "SourcePage \<Rightarrow> u64 \<Rightarrow> u64 \<Rightarrow> SourcePageError + unit" where
  "validate_source_page page from_block to_block_excl =
     (if to_block_excl < sp_next_block page
        then Err (CursorBeyondTarget (sp_next_block page) to_block_excl)
      else if is_some_and (\<lambda>archive_height. archive_height < sp_next_block page) (sp_archive_height page)
        then Err (ArchiveBehindCursor (the (sp_archive_height page)) (sp_next_block page))
      else
        bind_res (fold_res validate_page_block (sp_blocks page)
            \<lparr>ps_expected_number = from_block, ps_previous_hash = None, ps_block_hashes = []\<rparr>) (\<lambda>scan.
        if ps_expected_number scan \<noteq> sp_next_block page
          then Err (IncompleteBlockRange (ps_expected_number scan) (sp_next_block page))
        else
          bind_res
            (case sp_rollback_guard page of
               None \<Rightarrow> Ok ()
             | Some guard \<Rightarrow> validate_rollback_guard guard (sp_blocks page)) (\<lambda>_.
          bind_res (fold_res
              (validate_page_log from_block (sp_next_block page) (ps_block_hashes scan)) (sp_logs page)
              \<lparr>ls_log_identities = {}, ls_transaction_indexes = Map.empty,
               ls_transaction_hashes = Map.empty\<rparr>) (\<lambda>_.
          Ok ()))))"

section \<open>Specification\<close>

text \<open>
  The identity of a log row and what admission means for a page whose blocks are \<open>refs\<close>.
\<close>

definition page_chain :: "u64 \<Rightarrow> u64 \<Rightarrow> BlockRef list \<Rightarrow> bool" where
  "page_chain from_block next_block refs \<longleftrightarrow>
     linked refs \<and> list_all wf_block refs \<and>
     map (\<lambda>r. unat (br_number r)) refs = [unat from_block..<unat next_block] \<and>
     unat next_block = unat from_block + length refs"

definition log_in_block :: "SourceLog \<Rightarrow> BlockRef \<Rightarrow> bool" where
  "log_in_block log r \<longleftrightarrow>
     sl_block_number log = Some (br_number r) \<and> sl_block_hash log = Some (br_hash r)"

definition wf_log :: "SourceLog \<Rightarrow> bool" where
  "wf_log log \<longleftrightarrow>
     sl_removed log = Some False \<and> pred_option (\<lambda>a. length a = 20) (sl_address log) \<and>
     sl_address log \<noteq> None \<and> pred_option (\<lambda>h. length h = 32) (sl_transaction_hash log) \<and>
     sl_transaction_hash log \<noteq> None \<and> sl_data log \<noteq> None \<and>
     length (sl_topics log) \<le> 4 \<and> is_ok (normalize_topics (sl_topics log)) \<and>
     sl_transaction_index log \<noteq> None \<and> sl_log_index log \<noteq> None"

definition guard_describes :: "RollbackGuard \<Rightarrow> BlockRef list \<Rightarrow> bool" where
  "guard_describes g refs \<longleftrightarrow>
     refs \<noteq> [] \<and> rg_first_block_number g = br_number (hd refs) \<and>
     rg_first_parent_hash g = br_parent_hash (hd refs) \<and>
     rg_block_number g = br_number (last refs) \<and> rg_hash g = br_hash (last refs) \<and>
     rg_timestamp g = br_timestamp (last refs) \<and> 0 \<le> sint (rg_timestamp g)"

text \<open>Within one block, transaction hashes and transaction indexes determine each other.\<close>

definition same_transaction :: "SourceLog \<Rightarrow> SourceLog \<Rightarrow> bool" where
  "same_transaction x y \<longleftrightarrow>
     sl_block_hash x = sl_block_hash y \<longrightarrow>
       (sl_transaction_hash x = sl_transaction_hash y \<longleftrightarrow>
        sl_transaction_index x = sl_transaction_index y)"

definition admissible_page :: "SourcePage \<Rightarrow> u64 \<Rightarrow> u64 \<Rightarrow> BlockRef list \<Rightarrow> bool" where
  "admissible_page page from_block to_block_excl refs \<longleftrightarrow>
     sp_next_block page \<le> to_block_excl \<and>
     is_none_or (\<lambda>h. sp_next_block page \<le> h) (sp_archive_height page) \<and>
     map_res block_ref (sp_blocks page) = Ok refs \<and> page_chain from_block (sp_next_block page) refs \<and>
     pred_option (\<lambda>g. guard_describes g refs) (sp_rollback_guard page) \<and>
     list_all (\<lambda>log. wf_log log \<and> list_ex (log_in_block log) refs) (sp_logs page) \<and>
     distinct (map (\<lambda>log. (sl_block_hash log, sl_log_index log)) (sp_logs page)) \<and>
     (\<forall>x \<in> set (sp_logs page). \<forall>y \<in> set (sp_logs page). same_transaction x y)"

section \<open>The block loop\<close>

lemma required_width_Ok_iff [result_simps]:
  "required_width v field n = Ok bs \<longleftrightarrow> v = Some bs \<and> length bs = n"
  by (auto simp: required_width_def bind_res_Ok_iff ok_or_Ok_iff)

lemma validate_page_block_Ok_iff:
  "validate_page_block b s = Ok s' \<longleftrightarrow>
     (\<exists>r. block_ref b = Ok r \<and> br_number r = ps_expected_number s \<and>
        is_none_or (\<lambda>h. br_parent_hash r = h) (ps_previous_hash s) \<and>
        unat (ps_expected_number s') = Suc (unat (ps_expected_number s)) \<and>
        ps_previous_hash s' = Some (br_hash r) \<and>
        ps_block_hashes s' = ps_block_hashes s @ [(br_number r, br_hash r)])"
  (is "?l \<longleftrightarrow> ?r")
proof
  assume ?l
  then obtain n h p ts where f: "sb_number b = Some n" "sb_hash b = Some h" "sb_parent_hash b = Some p"
      "sb_timestamp b = Some ts" "length h = 32" "length p = 32" "length ts \<le> 8"
      "n = ps_expected_number s" "\<not> is_some_and (\<lambda>q. p \<noteq> q) (ps_previous_hash s)"
      "checked_add (ps_expected_number s) 1 = Some (ps_expected_number s')"
      "ps_previous_hash s' = Some h" "ps_block_hashes s' = ps_block_hashes s @ [(n, h)]"
    by (auto simp: validate_page_block_def result_simps split: if_splits)
  let ?ref = "\<lparr>br_number = n, br_hash = h, br_parent_hash = p, br_timestamp = be_padded_u64 ts\<rparr>"
  have "block_ref b = Ok ?ref" using f by (simp add: block_ref_Ok_iff wf_block_def)
  then show ?r
    using f by (intro exI [of _ ?ref]) (cases "ps_previous_hash s"; simp add: u64_simps)
next
  assume ?r
  then show ?l
    by (cases "ps_previous_hash s"; cases s')
       (auto simp: validate_page_block_def block_ref_Ok_iff wf_block_def result_simps u64_simps)
qed

lemma validate_page_blocks_Ok_iff:
  "fold_res validate_page_block bs s = Ok s' \<longleftrightarrow>
     (\<exists>refs. map_res block_ref bs = Ok refs \<and> linked refs \<and>
        (refs \<noteq> [] \<longrightarrow> br_number (hd refs) = ps_expected_number s \<and>
           is_none_or (\<lambda>h. br_parent_hash (hd refs) = h) (ps_previous_hash s)) \<and>
        unat (ps_expected_number s') = unat (ps_expected_number s) + length refs \<and>
        ps_previous_hash s' =
          (if refs = [] then ps_previous_hash s else Some (br_hash (last refs))) \<and>
        ps_block_hashes s' = ps_block_hashes s @ map (\<lambda>r. (br_number r, br_hash r)) refs)"
proof (induction bs arbitrary: s)
  case Nil
  show ?case by (cases s; cases s') (auto simp: u64_eq_iff)
next
  case (Cons b bs)
  let ?post = "\<lambda>s refs. unat (ps_expected_number s') = unat (ps_expected_number s) + length refs \<and>
        ps_previous_hash s' =
          (if refs = [] then ps_previous_hash s else Some (br_hash (last refs))) \<and>
        ps_block_hashes s' = ps_block_hashes s @ map (\<lambda>r. (br_number r, br_hash r)) refs"
  let ?head = "\<lambda>s refs. refs \<noteq> [] \<longrightarrow> br_number (hd refs) = ps_expected_number s \<and>
           is_none_or (\<lambda>h. br_parent_hash (hd refs) = h) (ps_previous_hash s)"
  have link: "linked (r # refs) \<longleftrightarrow> linked refs \<and> ?head t refs"
    if t: "unat (ps_expected_number t) = Suc (unat (br_number r))" "ps_previous_hash t = Some (br_hash r)"
    for r refs t
    using t by (cases refs) (auto simp: block_link_def u64_eq_iff)
  show ?case (is "?l \<longleftrightarrow> ?r")
  proof
    assume ?l
    then obtain t where "validate_page_block b s = Ok t" "fold_res validate_page_block bs t = Ok s'"
      by (auto simp: bind_res_Ok_iff)
    then obtain r refs where r: "block_ref b = Ok r" "br_number r = ps_expected_number s"
        "is_none_or (\<lambda>h. br_parent_hash r = h) (ps_previous_hash s)"
        "unat (ps_expected_number t) = Suc (unat (ps_expected_number s))"
        "ps_previous_hash t = Some (br_hash r)"
        "ps_block_hashes t = ps_block_hashes s @ [(br_number r, br_hash r)]"
      and refs: "map_res block_ref bs = Ok refs" "linked refs" "?head t refs" "?post t refs"
      unfolding validate_page_block_Ok_iff Cons.IH by blast
    have "linked (r # refs)" using link [of t r refs] r refs by simp
    moreover have "?post s (r # refs)" using r refs by auto
    ultimately show ?r using r refs by (intro exI [of _ "r # refs"]) simp
  next
    assume ?r
    then obtain r refs where r: "block_ref b = Ok r" and refs: "map_res block_ref bs = Ok refs"
        "linked (r # refs)" "?head s (r # refs)" "?post s (r # refs)"
      by (auto simp: bind_res_Ok_iff)
    define t where "t = \<lparr>ps_expected_number = ps_expected_number s + 1,
      ps_previous_hash = Some (br_hash r),
      ps_block_hashes = ps_block_hashes s @ [(br_number r, br_hash r)]\<rparr>"
    have "Suc (unat (ps_expected_number s)) < 18446744073709551616"
      using refs(4) unat_u64_bound [of "ps_expected_number s'"] by simp
    then have succ: "unat (ps_expected_number t) = Suc (unat (ps_expected_number s))"
      by (simp add: t_def unat_word_ariths)
    have step: "validate_page_block b s = Ok t"
      unfolding validate_page_block_Ok_iff
      using r refs(3) succ by (intro exI [of _ r]) (simp add: t_def)
    have "linked refs" "?head t refs"
      using link [of t r refs] refs(2,3) succ by (auto simp: t_def)
    moreover have "?post t refs"
      using refs(4) succ by (auto simp: t_def split: if_splits)
    ultimately have "fold_res validate_page_block bs t = Ok s'"
      unfolding Cons.IH using refs(1) by blast
    with step show ?l by simp
  qed
qed

lemma block_ref_wf: "block_ref b = Ok r \<Longrightarrow> wf_block r"
  by (simp add: block_ref_Ok_iff)

lemma map_block_ref_wf: "map_res block_ref bs = Ok refs \<Longrightarrow> list_all wf_block refs"
  by (induction bs arbitrary: refs) (auto simp: bind_res_Ok_iff block_ref_wf)

lemma page_chain_iff:
  assumes "map_res block_ref bs = Ok refs"
  shows "page_chain from_block next_block refs \<longleftrightarrow>
    linked refs \<and> (refs \<noteq> [] \<longrightarrow> br_number (hd refs) = from_block) \<and>
    unat next_block = unat from_block + length refs"
proof -
  have "map (\<lambda>r. unat (br_number r)) refs = [unat from_block..<unat next_block] \<longleftrightarrow>
      (refs \<noteq> [] \<longrightarrow> br_number (hd refs) = from_block)"
    if l: "linked refs" and n: "unat next_block = unat from_block + length refs"
  proof -
    have "map (\<lambda>r. unat (br_number r)) refs = [unat (br_number (hd refs))..<unat (br_number (hd refs)) + length refs]"
      by (rule nth_equalityI) (simp_all add: linked_nth [OF l])
    then show ?thesis using n by (cases refs) (auto simp: u64_eq_iff upt_conv_Cons)
  qed
  then show ?thesis
    using map_block_ref_wf [OF assms] by (auto simp: page_chain_def)
qed

lemma page_chain_nth:
  assumes "page_chain from_block next_block refs" "i < length refs"
  shows "unat (br_number (refs ! i)) = unat from_block + i"
proof -
  have "(map (\<lambda>r. unat (br_number r)) refs) ! i = [unat from_block..<unat next_block] ! i"
    using assms(1) by (simp add: page_chain_def)
  then show ?thesis using assms by (simp add: page_chain_def)
qed

section \<open>The rollback guard and the logs\<close>

lemma validate_rollback_guard_Ok_iff:
  assumes "map_res block_ref bs = Ok refs"
  shows "validate_rollback_guard g bs = Ok u \<longleftrightarrow> guard_describes g refs"
proof (cases "bs = []")
  case True
  with assms show ?thesis by (simp add: validate_rollback_guard_def guard_describes_def)
next
  case False
  have all: "list_all2 (\<lambda>b r. block_ref b = Ok r) bs refs" using assms by (simp add: map_res_Ok_iff)
  with False have ne: "refs \<noteq> []" by auto
  from all have nth: "block_ref (bs ! i) = Ok (refs ! i)" if "i < length bs" for i
    using that by (auto simp: list_all2_conv_all_nth)
  have len: "length refs = length bs" using all by (simp add: list_all2_lengthD)
  have hd: "block_ref (hd bs) = Ok (hd refs)" and last: "block_ref (last bs) = Ok (last refs)"
    using nth False ne len by (simp_all add: hd_conv_nth last_conv_nth)
  have ends: "first_opt bs = Some (hd bs)" "last_opt bs = Some (last bs)"
    using False by (cases bs; simp add: last_opt_conv)+
  show ?thesis
    using hd last ne
    by (auto simp: validate_rollback_guard_def guard_describes_def ends block_ref_Ok_iff wf_block_def
        result_simps quantity_u64_def i64_try_from_u64_Some_iff required_width_def)
qed

lemma validate_topics_push:
  "fold_res validate_topic topics m = Ok m' \<longleftrightarrow> (\<exists>out. fold_res push_topic topics (acc, m) = Ok (out, m'))"
proof (induction topics arbitrary: acc m)
  case Nil
  then show ?case by auto
next
  case (Cons t topics)
  show ?case
  proof (cases t)
    case None
    with Cons.IH [of True acc] show ?thesis by (simp add: validate_topic_def push_topic_def)
  next
    case (Some v)
    show ?thesis
      using Some Cons.IH [of m "acc @ [v]"]
      by (auto simp: validate_topic_def push_topic_def bind_res_Ok_iff required_width_Ok_iff
          required_fixed_Ok_iff)
  qed
qed

lemma validate_topics_Ok_iff:
  "(\<exists>m. fold_res validate_topic topics False = Ok m) \<longleftrightarrow> is_ok (normalize_topics topics)"
proof -
  have "is_ok r \<longleftrightarrow> (\<exists>x. r = Ok x)" for r :: "NormalizeError + bytes list"
    by (cases r) (simp_all add: is_ok_def)
  then show ?thesis
    by (auto simp: normalize_topics_def bind_res_Ok_iff validate_topics_push [of _ _ _ "[]"])
qed

lemma validate_log_Ok_iff:
  assumes chain: "page_chain from_block next_block refs"
  shows "validate_log log from_block next_block (map (\<lambda>r. (br_number r, br_hash r)) refs) = Ok u \<longleftrightarrow>
    wf_log log \<and> list_ex (log_in_block log) refs"
proof (cases "sl_block_number log")
  case None
  then show ?thesis by (simp add: validate_log_def list_ex_iff log_in_block_def)
next
  case (Some n)
  let ?i = "unat (n - from_block)"
  let ?hashes = "map (\<lambda>r. (br_number r, br_hash r)) refs"
  have inside: "\<not> (n < from_block \<or> next_block \<le> n) \<and>
      (if ?i < length ?hashes \<and> fst (?hashes ! ?i) = n then Some (snd (?hashes ! ?i)) else None) = Some h \<longleftrightarrow>
      (\<exists>r \<in> set refs. br_number r = n \<and> br_hash r = h)" for h
  proof
    assume "\<not> (n < from_block \<or> next_block \<le> n) \<and>
      (if ?i < length ?hashes \<and> fst (?hashes ! ?i) = n then Some (snd (?hashes ! ?i)) else None) = Some h"
    then show "\<exists>r \<in> set refs. br_number r = n \<and> br_hash r = h"
      by (intro bexI [of _ "refs ! ?i"]) (auto split: if_splits)
  next
    assume "\<exists>r \<in> set refs. br_number r = n \<and> br_hash r = h"
    then obtain i where i: "i < length refs" "br_number (refs ! i) = n" "br_hash (refs ! i) = h"
      by (auto simp: in_set_conv_nth)
    then have n: "unat n = unat from_block + i" using page_chain_nth [OF chain i(1)] by simp
    then have le: "from_block \<le> n" by (simp add: u64_order)
    then have "?i = i" using n by (simp add: unat_sub)
    moreover have "unat n < unat next_block" using n i(1) chain by (simp add: page_chain_def)
    ultimately show "\<not> (n < from_block \<or> next_block \<le> n) \<and>
      (if ?i < length ?hashes \<and> fst (?hashes ! ?i) = n then Some (snd (?hashes ! ?i)) else None) = Some h"
      using i le by (auto simp: u64_order)
  qed
  have wf: "length (br_hash r) = 32" if "r \<in> set refs" for r
    using chain that by (auto simp: page_chain_def list_all_iff wf_block_def)
  let ?found = "if ?i < length ?hashes \<and> fst (?hashes ! ?i) = n then Some (snd (?hashes ! ?i)) else None"
  have "validate_log log from_block next_block ?hashes = Ok u \<longleftrightarrow>
      (\<exists>h. sl_block_hash log = Some h \<and> length h = 32 \<and>
        (\<not> (n < from_block \<or> next_block \<le> n) \<and> ?found = Some h)) \<and> wf_log log"
    unfolding validate_log_def Some ok_or_simps bind_res_simps Let_def wf_log_def
      validate_topics_Ok_iff [symmetric]
    by (simp only: result_simps if_Err_Ok_iff) auto
  also have "\<dots> \<longleftrightarrow> wf_log log \<and> list_ex (log_in_block log) refs"
    unfolding inside using wf by (auto simp: list_ex_iff log_in_block_def Some)
  finally show ?thesis .
qed

section \<open>The log loop\<close>

text \<open>What the sets and maps of the log loop hold after the logs \<open>pre\<close>.\<close>

definition scanned :: "SourceLog list \<Rightarrow> LogScan \<Rightarrow> bool" where
  "scanned pre s \<longleftrightarrow>
     ls_log_identities s =
       {(h, i). \<exists>x \<in> set pre. sl_block_hash x = Some h \<and> sl_log_index x = Some i} \<and>
     (\<forall>h t i. ls_transaction_indexes s (h, t) = Some i \<longleftrightarrow>
        (\<exists>x \<in> set pre. sl_block_hash x = Some h \<and> sl_transaction_hash x = Some t \<and>
           sl_transaction_index x = Some i)) \<and>
     (\<forall>h t i. ls_transaction_hashes s (h, i) = Some t \<longleftrightarrow>
        (\<exists>x \<in> set pre. sl_block_hash x = Some h \<and> sl_transaction_hash x = Some t \<and>
           sl_transaction_index x = Some i))"

definition complete_log :: "SourceLog \<Rightarrow> bool" where
  "complete_log x \<longleftrightarrow>
     sl_block_hash x \<noteq> None \<and> sl_transaction_hash x \<noteq> None \<and> sl_transaction_index x \<noteq> None \<and>
     sl_log_index x \<noteq> None"

definition compatible :: "SourceLog \<Rightarrow> SourceLog \<Rightarrow> bool" where
  "compatible x y \<longleftrightarrow>
     (sl_block_hash x, sl_log_index x) \<noteq> (sl_block_hash y, sl_log_index y) \<and> same_transaction x y"

lemma known_iff:
  assumes m: "\<And>k. m = Some k \<longleftrightarrow> (\<exists>y \<in> A. P y \<and> f y = Some k)"
    and f: "\<And>y. y \<in> A \<Longrightarrow> f y \<noteq> None"
  shows "\<not> is_some_and (\<lambda>known. known \<noteq> i) m \<longleftrightarrow> (\<forall>y \<in> A. P y \<longrightarrow> f y = Some i)"
proof (cases m)
  case None
  have "\<not> P y" if y: "y \<in> A" for y
    using m None f [OF y] y by fastforce
  with None show ?thesis by simp
next
  case (Some k)
  then obtain z where z: "z \<in> A" "P z" "f z = Some k" using m by blast
  have "f y = Some k" if y: "y \<in> A" "P y" for y
    using m Some f [OF y(1)] y by fastforce
  with Some z show ?thesis by auto
qed

text \<open>The checks of one row against the maps are its compatibility with every earlier row.\<close>

lemma scanned_compatible:
  assumes s: "scanned pre s" and pre: "list_all complete_log pre"
    and x: "sl_block_hash x = Some h" "sl_transaction_hash x = Some t"
      "sl_transaction_index x = Some i" "sl_log_index x = Some li"
  shows "(\<forall>y \<in> set pre. compatible y x) \<longleftrightarrow>
    (h, li) \<notin> ls_log_identities s \<and>
    \<not> is_some_and (\<lambda>known. known \<noteq> i) (ls_transaction_indexes s (h, t)) \<and>
    \<not> is_some_and (\<lambda>known. known \<noteq> t) (ls_transaction_hashes s (h, i))"
proof -
  have "(h, li) \<notin> ls_log_identities s \<longleftrightarrow>
      (\<forall>y \<in> set pre. \<not> (sl_block_hash y = Some h \<and> sl_log_index y = Some li))"
    using s by (auto simp: scanned_def)
  moreover have "\<not> is_some_and (\<lambda>known. known \<noteq> i) (ls_transaction_indexes s (h, t)) \<longleftrightarrow>
      (\<forall>y \<in> set pre. sl_block_hash y = Some h \<longrightarrow> sl_transaction_hash y = Some t \<longrightarrow>
         sl_transaction_index y = Some i)"
    using s pre
    by (subst known_iff [where A = "set pre" and f = sl_transaction_index and
          P = "\<lambda>y. sl_block_hash y = Some h \<and> sl_transaction_hash y = Some t"])
       (auto simp: scanned_def list_all_iff complete_log_def)
  moreover have "\<not> is_some_and (\<lambda>known. known \<noteq> t) (ls_transaction_hashes s (h, i)) \<longleftrightarrow>
      (\<forall>y \<in> set pre. sl_block_hash y = Some h \<longrightarrow> sl_transaction_index y = Some i \<longrightarrow>
         sl_transaction_hash y = Some t)"
    using s pre
    by (subst known_iff [where A = "set pre" and f = sl_transaction_hash and
          P = "\<lambda>y. sl_block_hash y = Some h \<and> sl_transaction_index y = Some i"])
       (auto simp: scanned_def list_all_iff complete_log_def)
  moreover have "compatible y x \<longleftrightarrow>
      \<not> (sl_block_hash y = Some h \<and> sl_log_index y = Some li) \<and>
      (sl_block_hash y = Some h \<longrightarrow> sl_transaction_hash y = Some t \<longrightarrow> sl_transaction_index y = Some i) \<and>
      (sl_block_hash y = Some h \<longrightarrow> sl_transaction_index y = Some i \<longrightarrow> sl_transaction_hash y = Some t)"
    for y by (auto simp: compatible_def same_transaction_def x)
  ultimately show ?thesis by (simp add: ball_conj_distrib)
qed

lemma scanned_snoc:
  assumes s: "scanned pre s" and pre: "\<forall>y \<in> set pre. compatible y x"
    and x: "sl_block_hash x = Some h" "sl_transaction_hash x = Some t"
      "sl_transaction_index x = Some i" "sl_log_index x = Some li"
  shows "scanned (pre @ [x])
    \<lparr>ls_log_identities = insert (h, li) (ls_log_identities s),
     ls_transaction_indexes = (ls_transaction_indexes s)((h, t) \<mapsto> i),
     ls_transaction_hashes = (ls_transaction_hashes s)((h, i) \<mapsto> t)\<rparr>"
proof -
  have same: "sl_transaction_index y = Some i \<longleftrightarrow> sl_transaction_hash y = Some t"
    if "y \<in> set pre" "sl_block_hash y = Some h" for y
    using pre that by (auto simp: compatible_def same_transaction_def x)
  have index: "k = i" if "y \<in> set pre" "sl_block_hash y = Some h" "sl_transaction_hash y = Some t"
      "sl_transaction_index y = Some k" for y k
    using same [OF that(1,2)] that by simp
  have hash: "k = t" if "y \<in> set pre" "sl_block_hash y = Some h" "sl_transaction_index y = Some i"
      "sl_transaction_hash y = Some k" for y k
    using same [OF that(1,2)] that by simp
  from s show ?thesis by (auto simp: scanned_def x dest: index hash)
qed

lemma validate_page_log_conv:
  assumes x: "sl_block_hash x = Some h" "sl_transaction_hash x = Some t"
      "sl_transaction_index x = Some i" "sl_log_index x = Some li"
    and ok: "validate_log x from_block next_block hashes = Ok ()" "length h = 32" "length t = 32"
  shows "validate_page_log from_block next_block hashes x s = Ok s' \<longleftrightarrow>
    (h, li) \<notin> ls_log_identities s \<and>
    \<not> is_some_and (\<lambda>known. known \<noteq> i) (ls_transaction_indexes s (h, t)) \<and>
    \<not> is_some_and (\<lambda>known. known \<noteq> t) (ls_transaction_hashes s (h, i)) \<and>
    s' = \<lparr>ls_log_identities = insert (h, li) (ls_log_identities s),
     ls_transaction_indexes = (ls_transaction_indexes s)((h, t) \<mapsto> i),
     ls_transaction_hashes = (ls_transaction_hashes s)((h, i) \<mapsto> t)\<rparr>"
  using ok by (auto simp: validate_page_log_def x required_width_def bind_res_Ok_iff)

lemma validate_page_log_step:
  fixes x :: SourceLog
  assumes s: "scanned pre s" and pre: "list_all complete_log pre"
    and chain: "page_chain from_block next_block refs"
  defines "step \<equiv> validate_page_log from_block next_block (map (\<lambda>r. (br_number r, br_hash r)) refs) x s"
  shows "(\<exists>s'. step = Ok s') \<longleftrightarrow> wf_log x \<and> list_ex (log_in_block x) refs \<and> (\<forall>y \<in> set pre. compatible y x)"
    and "step = Ok s' \<Longrightarrow> scanned (pre @ [x]) s' \<and> complete_log x"
proof -
  let ?hashes = "map (\<lambda>r. (br_number r, br_hash r)) refs"
  have "((\<exists>s'. step = Ok s') \<longleftrightarrow> wf_log x \<and> list_ex (log_in_block x) refs \<and> (\<forall>y \<in> set pre. compatible y x)) \<and>
      (step = Ok s' \<longrightarrow> scanned (pre @ [x]) s' \<and> complete_log x)"
  proof (cases "wf_log x \<and> list_ex (log_in_block x) refs")
    case False
    then have "validate_log x from_block next_block ?hashes \<noteq> Ok u" for u
      using validate_log_Ok_iff [OF chain] by blast
    with False show ?thesis by (auto simp: step_def validate_page_log_def bind_res_Ok_iff)
  next
    case True
    then obtain h t i li where x: "sl_block_hash x = Some h" "sl_transaction_hash x = Some t"
        "sl_transaction_index x = Some i" "sl_log_index x = Some li"
      and len: "length h = 32" "length t = 32"
      using chain by (auto simp: wf_log_def list_ex_iff log_in_block_def page_chain_def list_all_iff wf_block_def)
    have ok: "validate_log x from_block next_block ?hashes = Ok ()"
      using True validate_log_Ok_iff [OF chain] by blast
    have "complete_log x" by (simp add: complete_log_def x)
    with True scanned_compatible [OF s pre x] scanned_snoc [OF s _ x] show ?thesis
      unfolding step_def validate_page_log_conv [OF x ok len] by auto
  qed
  then show "(\<exists>s'. step = Ok s') \<longleftrightarrow>
      wf_log x \<and> list_ex (log_in_block x) refs \<and> (\<forall>y \<in> set pre. compatible y x)"
    and "step = Ok s' \<Longrightarrow> scanned (pre @ [x]) s' \<and> complete_log x"
    by blast+
qed

lemma validate_page_logs_Ok_iff:
  assumes chain: "page_chain from_block next_block refs"
  shows "scanned pre s \<Longrightarrow> list_all complete_log pre \<Longrightarrow>
    (\<exists>s'. fold_res (validate_page_log from_block next_block (map (\<lambda>r. (br_number r, br_hash r)) refs)) logs s = Ok s') \<longleftrightarrow>
    list_all (\<lambda>log. wf_log log \<and> list_ex (log_in_block log) refs) logs \<and>
    sorted_wrt compatible logs \<and> (\<forall>y \<in> set pre. \<forall>x \<in> set logs. compatible y x)"
proof (induction logs arbitrary: pre s)
  case Nil
  then show ?case by simp
next
  case (Cons x logs)
  let ?f = "validate_page_log from_block next_block (map (\<lambda>r. (br_number r, br_hash r)) refs)"
  show ?case
  proof (cases "\<exists>t. ?f x s = Ok t")
    case False
    with validate_page_log_step(1) [OF Cons.prems chain, where x = x] show ?thesis
      by (auto simp: bind_res_Ok_iff)
  next
    case True
    then obtain t where t: "?f x s = Ok t" by blast
    have "scanned (pre @ [x]) t" "list_all complete_log (pre @ [x])"
      using validate_page_log_step(2) [OF Cons.prems chain t] Cons.prems by simp_all
    from Cons.IH [OF this] validate_page_log_step(1) [OF Cons.prems chain, where x = x] t show ?thesis
      by auto
  qed
qed

lemma sorted_wrt_compatible_iff:
  "sorted_wrt compatible logs \<longleftrightarrow>
     distinct (map (\<lambda>log. (sl_block_hash log, sl_log_index log)) logs) \<and>
     (\<forall>x \<in> set logs. \<forall>y \<in> set logs. same_transaction x y)"
proof (induction logs)
  case Nil
  then show ?case by simp
next
  case (Cons x logs)
  have refl: "same_transaction x x" and sym: "same_transaction x y \<longleftrightarrow> same_transaction y x" for y
    by (auto simp: same_transaction_def)
  have "(\<forall>y \<in> set logs. compatible x y) \<longleftrightarrow>
      (sl_block_hash x, sl_log_index x) \<notin> (\<lambda>log. (sl_block_hash log, sl_log_index log)) ` set logs \<and>
      (\<forall>y \<in> set logs. same_transaction x y)"
    by (auto simp: compatible_def)
  moreover have "(\<forall>a \<in> set (x # logs). \<forall>b \<in> set (x # logs). same_transaction a b) \<longleftrightarrow>
      (\<forall>y \<in> set logs. same_transaction x y) \<and> (\<forall>a \<in> set logs. \<forall>b \<in> set logs. same_transaction a b)"
    using refl sym by (metis list.set_intros(1) list.set_intros(2) set_ConsD)
  ultimately show ?case
    unfolding sorted_wrt.simps Cons.IH list.map distinct.simps set_map by argo
qed

section \<open>Properties\<close>

lemma validate_source_page_Ok_iff:
  "validate_source_page page from_block to_excl = Ok u \<longleftrightarrow>
     (\<exists>refs. admissible_page page from_block to_excl refs)"
proof -
  let ?start = "\<lparr>ps_expected_number = from_block, ps_previous_hash = None, ps_block_hashes = []\<rparr>"
  let ?hashes = "map (\<lambda>r. (br_number r, br_hash r))"
  have blocks: "(\<exists>scan. fold_res validate_page_block (sp_blocks page) ?start = Ok scan \<and>
        ps_expected_number scan = sp_next_block page \<and> Q (ps_block_hashes scan)) \<longleftrightarrow>
      (\<exists>refs. map_res block_ref (sp_blocks page) = Ok refs \<and>
        page_chain from_block (sp_next_block page) refs \<and> Q (?hashes refs))" (is "?l \<longleftrightarrow> ?r") for Q
  proof
    assume ?l
    then obtain scan refs where "map_res block_ref (sp_blocks page) = Ok refs" "linked refs"
        "refs \<noteq> [] \<longrightarrow> br_number (hd refs) = from_block"
        "unat (sp_next_block page) = unat from_block + length refs" "Q (?hashes refs)"
      by (auto simp: validate_page_blocks_Ok_iff)
    then show ?r using page_chain_iff by blast
  next
    assume ?r
    then obtain refs where r: "map_res block_ref (sp_blocks page) = Ok refs"
        "page_chain from_block (sp_next_block page) refs" "Q (?hashes refs)" by blast
    let ?scan = "\<lparr>ps_expected_number = sp_next_block page,
      ps_previous_hash = (if refs = [] then None else Some (br_hash (last refs))),
      ps_block_hashes = ?hashes refs\<rparr>"
    have "fold_res validate_page_block (sp_blocks page) ?start = Ok ?scan"
      using r(1,2) page_chain_iff [OF r(1)] by (auto simp: validate_page_blocks_Ok_iff)
    with r(3) show ?l by (intro exI [of _ ?scan]) simp
  qed
  have logs: "(\<exists>t. fold_res (validate_page_log from_block (sp_next_block page) (?hashes refs)) (sp_logs page)
        \<lparr>ls_log_identities = {}, ls_transaction_indexes = Map.empty, ls_transaction_hashes = Map.empty\<rparr> = Ok t) \<longleftrightarrow>
      list_all (\<lambda>log. wf_log log \<and> list_ex (log_in_block log) refs) (sp_logs page) \<and>
      sorted_wrt compatible (sp_logs page)"
    if "page_chain from_block (sp_next_block page) refs" for refs
    using validate_page_logs_Ok_iff [OF that, of "[]"] by (simp add: scanned_def)
  have guard: "(case sp_rollback_guard page of None \<Rightarrow> Ok ()
        | Some g \<Rightarrow> validate_rollback_guard g (sp_blocks page)) = Ok () \<longleftrightarrow>
      pred_option (\<lambda>g. guard_describes g refs) (sp_rollback_guard page)"
    if "map_res block_ref (sp_blocks page) = Ok refs" for refs
    using validate_rollback_guard_Ok_iff [OF that] by (cases "sp_rollback_guard page") simp_all
  have "validate_source_page page from_block to_excl = Ok u \<longleftrightarrow>
      sp_next_block page \<le> to_excl \<and> is_none_or (\<lambda>h. sp_next_block page \<le> h) (sp_archive_height page) \<and>
      (\<exists>scan. fold_res validate_page_block (sp_blocks page) ?start = Ok scan \<and>
        ps_expected_number scan = sp_next_block page \<and>
        (case sp_rollback_guard page of None \<Rightarrow> Ok ()
          | Some g \<Rightarrow> validate_rollback_guard g (sp_blocks page)) = Ok () \<and>
        (\<exists>t. fold_res (validate_page_log from_block (sp_next_block page) (ps_block_hashes scan)) (sp_logs page)
          \<lparr>ls_log_identities = {}, ls_transaction_indexes = Map.empty, ls_transaction_hashes = Map.empty\<rparr> = Ok t))"
    unfolding validate_source_page_def
    by (cases "sp_archive_height page") (auto simp: bind_res_Ok_iff not_less)
  also have "\<dots> \<longleftrightarrow> (\<exists>refs. admissible_page page from_block to_excl refs)"
    unfolding blocks [of "\<lambda>hashes. (case sp_rollback_guard page of None \<Rightarrow> Ok ()
          | Some g \<Rightarrow> validate_rollback_guard g (sp_blocks page)) = Ok () \<and>
        (\<exists>t. fold_res (validate_page_log from_block (sp_next_block page) hashes) (sp_logs page)
          \<lparr>ls_log_identities = {}, ls_transaction_indexes = Map.empty, ls_transaction_hashes = Map.empty\<rparr> = Ok t)"]
      admissible_page_def
    by (simp add: logs guard sorted_wrt_compatible_iff cong: conj_cong)
  finally show ?thesis .
qed

definition panic_free :: "SourcePageError + 'a \<Rightarrow> bool" where
  "panic_free r \<longleftrightarrow> (\<forall>msg. r \<noteq> Err (PagePanic msg))"

lemma panic_free_simps [simp]:
  "panic_free (Ok x)"
  "panic_free (Err e) \<longleftrightarrow> (\<forall>msg. e \<noteq> PagePanic msg)"
  by (simp_all add: panic_free_def)

lemma panic_free_bind:
  "panic_free m \<Longrightarrow> (\<And>x. m = Ok x \<Longrightarrow> panic_free (f x)) \<Longrightarrow> panic_free (bind_res m f)"
  by (cases m) (simp_all add: panic_free_def)

lemma panic_free_fold: "(\<And>x s. panic_free (f x s)) \<Longrightarrow> panic_free (fold_res f xs s)"
  by (auto simp: panic_free_def dest!: fold_res_Err)

lemma panic_free_page_block: "panic_free (validate_page_block b s)"
  by (auto simp: panic_free_def validate_page_block_def required_width_def bind_res_Err_iff ok_or_def
      split: option.splits if_splits)

lemma panic_free_guard: "panic_free (validate_rollback_guard g bs)"
  by (auto simp: panic_free_def validate_rollback_guard_def required_width_def quantity_u64_def
      bind_res_Err_iff ok_or_def split: option.splits if_splits)

lemma panic_free_page_log: "panic_free (validate_page_log f n hs x s)"
  by (auto simp: panic_free_def validate_page_log_def validate_log_def validate_topic_def
      required_width_def bind_res_Err_iff ok_or_def Let_def split: option.splits if_splits
      dest!: fold_res_Err)

lemma validate_source_page_panic_free: "panic_free (validate_source_page page from_block to_excl)"
proof -
  have "panic_free (case sp_rollback_guard page of None \<Rightarrow> Ok ()
      | Some g \<Rightarrow> validate_rollback_guard g (sp_blocks page))"
    using panic_free_guard by (cases "sp_rollback_guard page") simp_all
  then show ?thesis
    unfolding validate_source_page_def
    by (auto intro!: panic_free_bind panic_free_fold panic_free_page_block panic_free_page_log)
qed

text \<open>
  C28: Page admission is exact. A provider page is accepted if and only if it is admissible for the
  query that produced it: its cursor is inside the requested range and the archive, its rows
  carry complete identities that form one hash-linked chain covering every block from the
  query's start up to the cursor, its rollback guard (if any) describes the ends of that chain,
  and every log is a complete, non-removed row of a block of the chain with that block's hash,
  with pairwise distinct log identities and with transaction hashes and indexes in one-to-one
  correspondence within a block. The unwrapping of the log's block number never panics.
\<close>

theorem validate_source_page_exact:
  "(is_ok (validate_source_page page from_block to_excl) \<longleftrightarrow>
     (\<exists>refs. admissible_page page from_block to_excl refs)) \<and>
   validate_source_page page from_block to_excl \<noteq> Err (PagePanic msg)"
  using validate_source_page_Ok_iff [of page from_block to_excl "()"]
    validate_source_page_panic_free [of page from_block to_excl]
  by (cases "validate_source_page page from_block to_excl") (simp_all add: is_ok_def panic_free_def)

end
