(* ===== verification/Normalize.thy ===== *)
theory Normalize
  imports Audience Page_Validation "HOL-Library.Option_ord"
begin

text \<open>
  The rest of \<open>hypersync/src/normalize.rs\<close>: turning an admitted provider page into one ordered
  delivery. Rows are sorted, blocks become header and progress events, logs become log events
  stamped with their block's timestamp, the events are sorted again, and each event keeps its
  audience or is dropped.

  The consensus header's RLP encoding and its hash are the alloy library's; they are the
  parameters \<open>rlp\<close> and \<open>hash_slow\<close>.
\<close>

section \<open>Data\<close>

record ConsensusHeader =
  ch_parent_hash :: bytes
  ch_ommers_hash :: bytes
  ch_beneficiary :: bytes
  ch_state_root :: bytes
  ch_transactions_root :: bytes
  ch_receipts_root :: bytes
  ch_logs_bloom :: bytes
  ch_difficulty :: nat
  ch_number :: u64
  ch_gas_limit :: u64
  ch_gas_used :: u64
  ch_timestamp :: u64
  ch_extra_data :: bytes
  ch_mix_hash :: bytes
  ch_nonce :: bytes
  ch_base_fee_per_gas :: "u64 option"
  ch_withdrawals_root :: "bytes option"
  ch_blob_gas_used :: "u64 option"
  ch_excess_blob_gas :: "u64 option"
  ch_parent_beacon_block_root :: "bytes option"
  ch_requests_hash :: "bytes option"

record HeaderCodec =
  hc_hash_slow :: "ConsensusHeader \<Rightarrow> bytes"
  hc_rlp :: "ConsensusHeader \<Rightarrow> bytes"

record PageEvent =
  pe_block :: u64
  pe_kind :: u8
  pe_transaction :: u64
  pe_log :: u64
  pe_event :: ChainEvent
  pe_scope :: DeliveryScope

section \<open>Operations\<close>

definition consensus_header :: "SourceBlock \<Rightarrow> NormalizeError + ConsensusHeader" where
  "consensus_header b =
     bind_res (ok_or (sb_extra_data b) (MissingField ''block.extra_data'')) (\<lambda>extra_data.
     if 32 < length extra_data then Err (InvalidField ''block.extra_data exceeds 32 bytes'')
     else
       bind_res (required_fixed 32 (sb_parent_hash b) ''block.parent_hash'') (\<lambda>parent_hash.
       bind_res (required_fixed 32 (sb_sha3_uncles b) ''block.sha3_uncles'') (\<lambda>ommers_hash.
       bind_res (required_fixed 20 (sb_miner b) ''block.miner'') (\<lambda>beneficiary.
       bind_res (required_fixed 32 (sb_state_root b) ''block.state_root'') (\<lambda>state_root.
       bind_res (required_fixed 32 (sb_transactions_root b) ''block.transactions_root'') (\<lambda>transactions_root.
       bind_res (required_fixed 32 (sb_receipts_root b) ''block.receipts_root'') (\<lambda>receipts_root.
       bind_res (required_fixed 256 (sb_logs_bloom b) ''block.logs_bloom'') (\<lambda>logs_bloom.
       bind_res (ok_or (sb_difficulty b) (MissingField ''block.difficulty'')) (\<lambda>d.
       bind_res (quantity_to_u256 d ''block.difficulty'') (\<lambda>difficulty.
       bind_res (ok_or (sb_number b) (MissingField ''block.number'')) (\<lambda>number.
       bind_res (required_quantity_u64 (sb_gas_limit b) ''block.gas_limit'') (\<lambda>gas_limit.
       bind_res (required_quantity_u64 (sb_gas_used b) ''block.gas_used'') (\<lambda>gas_used.
       bind_res (required_quantity_u64 (sb_timestamp b) ''block.timestamp'') (\<lambda>timestamp.
       bind_res (required_fixed 32 (sb_mix_hash b) ''block.mix_hash'') (\<lambda>mix_hash.
       bind_res (required_fixed 8 (sb_nonce b) ''block.nonce'') (\<lambda>nonce.
       bind_res (optional_quantity_u64 (sb_base_fee_per_gas b) ''block.base_fee_per_gas'') (\<lambda>base_fee.
       bind_res (optional_b256 (sb_withdrawals_root b) ''block.withdrawals_root'') (\<lambda>withdrawals_root.
       bind_res (optional_quantity_u64 (sb_blob_gas_used b) ''block.blob_gas_used'') (\<lambda>blob_gas_used.
       bind_res (optional_quantity_u64 (sb_excess_blob_gas b) ''block.excess_blob_gas'') (\<lambda>excess_blob_gas.
       bind_res (optional_b256 (sb_parent_beacon_block_root b) ''block.parent_beacon_block_root'') (\<lambda>beacon_root.
       Ok \<lparr>ch_parent_hash = parent_hash, ch_ommers_hash = ommers_hash, ch_beneficiary = beneficiary,
           ch_state_root = state_root, ch_transactions_root = transactions_root,
           ch_receipts_root = receipts_root, ch_logs_bloom = logs_bloom, ch_difficulty = difficulty,
           ch_number = number, ch_gas_limit = gas_limit, ch_gas_used = gas_used,
           ch_timestamp = timestamp, ch_extra_data = extra_data, ch_mix_hash = mix_hash,
           ch_nonce = nonce, ch_base_fee_per_gas = base_fee, ch_withdrawals_root = withdrawals_root,
           ch_blob_gas_used = blob_gas_used, ch_excess_blob_gas = excess_blob_gas,
           ch_parent_beacon_block_root = beacon_root, ch_requests_hash = None\<rparr>)))))))))))))))))))))"

definition encode_consensus_header :: "HeaderCodec \<Rightarrow> SourceBlock \<Rightarrow> NormalizeError + bytes" where
  "encode_consensus_header hc b =
     bind_res (consensus_header b) (\<lambda>header.
     bind_res (required_fixed 32 (sb_hash b) ''block.hash'') (\<lambda>expected_hash.
     let actual_hash = hc_hash_slow hc header in
     if actual_hash \<noteq> expected_hash then Err (HeaderHashMismatch expected_hash actual_hash)
     else Ok (hc_rlp hc header)))"

definition header_event ::
    "HeaderCodec \<Rightarrow> ApplyDesiredState \<Rightarrow> u64 \<Rightarrow> SourceBlock \<Rightarrow> BlockRef \<Rightarrow> NormalizeError + PageEvent list" where
  "header_event hc desired_state activation_block b r =
     (if has_active_block_interest desired_state (br_number r) activation_block then
        bind_res (encode_consensus_header hc b) (\<lambda>rlp.
        Ok [\<lparr>pe_block = br_number r, pe_kind = 0, pe_transaction = 0, pe_log = 0,
             pe_event = \<lparr>ce_event = Some (EventBlockHeader
               \<lparr>bh_block = Some r, bh_consensus_header_rlp = rlp,
                bh_total_difficulty = (case sb_total_difficulty b of None \<Rightarrow> [] | Some v \<Rightarrow> v),
                bh_size = (case sb_size b of None \<Rightarrow> [] | Some v \<Rightarrow> v)\<rparr>)\<rparr>,
             pe_scope = delivery_scope desired_state (br_number r) activation_block\<rparr>])
      else Ok [])"

definition progress_event :: "ApplyDesiredState \<Rightarrow> u64 \<Rightarrow> BlockRef \<Rightarrow> PageEvent list" where
  "progress_event desired_state activation_block r =
     (if activation_block \<le> br_number r \<or> global_backfill_active desired_state (br_number r) then
        [\<lparr>pe_block = br_number r, pe_kind = 2, pe_transaction = 0, pe_log = 0,
          pe_event = \<lparr>ce_event = Some (EventBlockProgress \<lparr>bp_block = Some r\<rparr>)\<rparr>,
          pe_scope = ScopeCanonicalProgress\<rparr>]
      else [])"

definition block_events ::
    "HeaderCodec \<Rightarrow> ApplyDesiredState \<Rightarrow> u64 \<Rightarrow> SourceBlock \<Rightarrow>
     PageEvent list \<times> (u64 \<rightharpoonup> u64) \<Rightarrow> NormalizeError + PageEvent list \<times> (u64 \<rightharpoonup> u64)" where
  "block_events hc desired_state activation_block b s =
     (let (events, block_timestamps) = s in
      bind_res (block_ref b) (\<lambda>r.
      bind_res (header_event hc desired_state activation_block b r) (\<lambda>header.
      Ok (events @ header @ progress_event desired_state activation_block r,
          block_timestamps(br_number r \<mapsto> br_timestamp r)))))"

definition log_event ::
    "ApplyDesiredState \<Rightarrow> u64 \<Rightarrow> (u64 \<rightharpoonup> u64) \<Rightarrow> SourceLog \<Rightarrow> NormalizeError + PageEvent" where
  "log_event desired_state activation_block block_timestamps log =
     bind_res (required_u64 (sl_block_number log) ''log.block_number'') (\<lambda>block_number.
     bind_res (required_u64 (sl_transaction_index log) ''log.transaction_index'') (\<lambda>transaction_index.
     bind_res (required_u64 (sl_log_index log) ''log.log_index'') (\<lambda>log_index.
     bind_res (required_fixed 20 (sl_address log) ''log.address'') (\<lambda>address.
     bind_res (required_fixed 32 (sl_block_hash log) ''log.block_hash'') (\<lambda>block_hash.
     bind_res (required_fixed 32 (sl_transaction_hash log) ''log.transaction_hash'') (\<lambda>transaction_hash.
     bind_res (required_bytes (sl_data log) ''log.data'') (\<lambda>data.
     bind_res (ok_or (sl_removed log) (MissingField ''log.removed'')) (\<lambda>removed.
     bind_res (normalize_topics (sl_topics log)) (\<lambda>topics.
     bind_res (ok_or (block_timestamps block_number) (LogWithoutBlock block_number)) (\<lambda>block_timestamp.
     Ok \<lparr>pe_block = block_number, pe_kind = 1, pe_transaction = transaction_index, pe_log = log_index,
         pe_event = \<lparr>ce_event = Some (EventLog
           \<lparr>le_address = address, le_topics = topics, le_data = data, le_block_number = block_number,
            le_block_hash = block_hash, le_transaction_hash = transaction_hash,
            le_transaction_index = transaction_index, le_log_index = log_index,
            le_block_timestamp = block_timestamp, le_removed = removed\<rparr>)\<rparr>,
         pe_scope = delivery_scope desired_state block_number activation_block\<rparr>))))))))))"

definition event_record :: "ApplyDesiredState \<Rightarrow> u64 \<Rightarrow> PageEvent \<Rightarrow> EventRecord option" where
  "event_record desired_state activation_block e =
     (let (canonical_audience, owner_ids) = event_audience desired_state (pe_event e) activation_block in
      if canonical_audience \<or> owner_ids \<noteq> []
      then Some \<lparr>er_event = Some (pe_event e), er_canonical_audience = canonical_audience,
                 er_owner_ids = owner_ids, er_scope = delivery_scope_to_i32 (pe_scope e)\<rparr>
      else None)"

definition record_block :: "EventRecord \<Rightarrow> BlockRef option" where
  "record_block r =
     Option.bind (er_event r) (\<lambda>event. Option.bind (ce_event event) (\<lambda>event.
       case event of
         EventBlockHeader header \<Rightarrow> bh_block header
       | EventBlockProgress progress \<Rightarrow> bp_block progress
       | EventLog _ \<Rightarrow> None))"

definition certify_head :: "BlockRef option \<Rightarrow> EventRecord list \<Rightarrow> EventRecord list" where
  "certify_head canonical_head records =
     (case canonical_head of
        Some head \<Rightarrow>
          (if records \<noteq> [] \<and>
              \<not> list_ex (\<lambda>r. er_canonical_audience r \<and> is_some_and (\<lambda>b. b = head) (record_block r)) records
           then records @
             [\<lparr>er_event = Some \<lparr>ce_event = Some (EventBlockProgress \<lparr>bp_block = Some head\<rparr>)\<rparr>,
               er_canonical_audience = True, er_owner_ids = [],
               er_scope = delivery_scope_to_i32 ScopeCanonicalProgress\<rparr>]
           else records)
      | None \<Rightarrow> records)"

definition page_head :: "ApplyDesiredState \<Rightarrow> u64 \<Rightarrow> SourceBlock list \<Rightarrow> NormalizeError + BlockRef option" where
  "page_head desired_state activation_block blocks =
     transpose (map_option block_ref
       (find (\<lambda>b. is_some_and (\<lambda>number. activation_block \<le> number \<or>
           global_backfill_active desired_state number) (sb_number b)) (rev blocks)))"

definition normalize_page_at ::
    "HeaderCodec \<Rightarrow> ApplyDesiredState \<Rightarrow> u64 \<Rightarrow> SourcePage \<Rightarrow> u64 \<Rightarrow> NormalizeError + Delivery" where
  "normalize_page_at hc desired_state seq page activation_block =
     (let blocks = sort_key sb_number (sp_blocks page);
          logs = sort_key (\<lambda>log. (sl_block_number log, sl_transaction_index log, sl_log_index log))
            (sp_logs page) in
      bind_res (fold_res (block_events hc desired_state activation_block) blocks ([], Map.empty))
        (\<lambda>(block_evs, block_timestamps).
      bind_res (map_res (log_event desired_state activation_block block_timestamps) logs) (\<lambda>log_evs.
      let events = sort_key (\<lambda>e. (pe_block e, pe_kind e, pe_transaction e, pe_log e)) (block_evs @ log_evs) in
      bind_res (page_head desired_state activation_block blocks) (\<lambda>canonical_head.
      let provider_checkpoint =
            (case sp_rollback_guard page of None \<Rightarrow> [] | Some g \<Rightarrow> encode_rollback_guard g);
          records = certify_head canonical_head
            (List.map_filter (event_record desired_state activation_block) events) in
      Ok \<lparr>del_session_id = ads_session_id desired_state, del_sequence = seq,
          del_query_revision = ads_new_revision desired_state,
          del_delivery_token = u64_to_be_bytes seq,
          del_cursor = Some \<lparr>cur_chain_id = ads_chain_id desired_state,
            cur_query_revision = ads_new_revision desired_state, cur_next_block = sp_next_block page,
            cur_canonical_head = canonical_head, cur_batch_sequence = seq,
            cur_provider_checkpoint = provider_checkpoint,
            cur_owner_backfill_activation_block = Some activation_block\<rparr>,
          del_payload = Some (PayloadData \<lparr>dp_records = records\<rparr>),
          del_checkpoint_neutral = False\<rparr>))))"

definition normalize_page_unchecked ::
    "HeaderCodec \<Rightarrow> ApplyDesiredState \<Rightarrow> u64 \<Rightarrow> SourcePage \<Rightarrow> NormalizeError + Delivery" where
  "normalize_page_unchecked hc desired_state seq page =
     normalize_page_at hc desired_state seq page 0"

section \<open>The events of a page\<close>

text \<open>The events the loop body adds for one block row.\<close>

definition from_row ::
    "HeaderCodec \<Rightarrow> ApplyDesiredState \<Rightarrow> u64 \<Rightarrow> SourceBlock \<Rightarrow> PageEvent \<Rightarrow> bool" where
  "from_row hc ds activation b e \<longleftrightarrow>
     (\<exists>r h. block_ref b = Ok r \<and> header_event hc ds activation b r = Ok h \<and>
        e \<in> set h \<union> set (progress_event ds activation r))"

definition row_ok :: "HeaderCodec \<Rightarrow> ApplyDesiredState \<Rightarrow> u64 \<Rightarrow> SourceBlock \<Rightarrow> bool" where
  "row_ok hc ds activation b \<longleftrightarrow>
     (\<exists>r h. block_ref b = Ok r \<and> header_event hc ds activation b r = Ok h)"

lemma block_events_step:
  "block_events hc ds activation b (evs, m) = Ok s' \<longleftrightarrow>
     (\<exists>r h. block_ref b = Ok r \<and> header_event hc ds activation b r = Ok h \<and>
        s' = (evs @ h @ progress_event ds activation r, m(br_number r \<mapsto> br_timestamp r)))"
  by (auto simp: block_events_def bind_res_Ok_iff)

lemma block_events_Ok:
  "fold_res (block_events hc ds activation) bs (evs, m) = Ok (evs', m') \<Longrightarrow>
     set evs' = set evs \<union> {e. \<exists>b \<in> set bs. from_row hc ds activation b e} \<and>
     (\<forall>b \<in> set bs. row_ok hc ds activation b) \<and>
     (\<forall>n. m' n = None \<longleftrightarrow> m n = None \<and> (\<forall>b \<in> set bs. sb_number b \<noteq> Some n))"
proof (induction bs arbitrary: evs m)
  case Nil
  then show ?case by auto
next
  case (Cons b bs)
  then obtain r h where r: "block_ref b = Ok r" "header_event hc ds activation b r = Ok h"
    and rest: "fold_res (block_events hc ds activation) bs
      (evs @ h @ progress_event ds activation r, m(br_number r \<mapsto> br_timestamp r)) = Ok (evs', m')"
    by (auto simp: block_events_step bind_res_Ok_iff)
  have n: "sb_number b = Some (br_number r)" using r(1) by (simp add: block_ref_Ok_iff)
  from r have row: "row_ok hc ds activation b" by (auto simp: row_ok_def)
  have own: "from_row hc ds activation b e \<longleftrightarrow> e \<in> set h \<union> set (progress_event ds activation r)" for e
    using r by (auto simp: from_row_def)
  from Cons.IH [OF rest] row n show ?case by (auto simp: own)
qed

lemma block_events_total:
  "\<forall>b \<in> set bs. row_ok hc ds activation b \<Longrightarrow>
   \<exists>evs' m'. fold_res (block_events hc ds activation) bs (evs, m) = Ok (evs', m')"
proof (induction bs arbitrary: evs m)
  case Nil
  then show ?case by simp
next
  case (Cons b bs)
  from Cons.prems obtain t where "block_events hc ds activation b (evs, m) = Ok t"
    by (auto simp: row_ok_def block_events_step)
  with Cons show ?case by (cases t) simp
qed

text \<open>The sort key and the scope of an event, read off the wire event itself.\<close>

definition event_key :: "ChainEvent \<Rightarrow> u64 \<times> u8 \<times> u64 \<times> u64" where
  "event_key ev =
     (case ce_event ev of
        Some (EventLog l) \<Rightarrow> (le_block_number l, 1, le_transaction_index l, le_log_index l)
      | Some (EventBlockHeader _) \<Rightarrow> (event_block_number ev, 0, 0, 0)
      | _ \<Rightarrow> (event_block_number ev, 2, 0, 0))"

definition faithful_event :: "ApplyDesiredState \<Rightarrow> u64 \<Rightarrow> PageEvent \<Rightarrow> bool" where
  "faithful_event ds activation e \<longleftrightarrow>
     event_key (pe_event e) = (pe_block e, pe_kind e, pe_transaction e, pe_log e) \<and>
     pe_scope e = delivery_scope ds (event_block_number (pe_event e)) activation"

lemma from_row_faithful: "from_row hc ds activation b e \<Longrightarrow> faithful_event ds activation e"
  by (auto simp: from_row_def header_event_def progress_event_def faithful_event_def event_key_def
      event_block_number_def delivery_scope_def bind_res_Ok_iff split: if_splits)

lemma log_event_Ok_iff:
  "log_event ds activation m log = Ok e \<longleftrightarrow>
     (\<exists>l. sl_block_number log = Some (le_block_number l) \<and>
        sl_transaction_index log = Some (le_transaction_index l) \<and>
        sl_log_index log = Some (le_log_index l) \<and> sl_address log = Some (le_address l) \<and>
        length (le_address l) = 20 \<and> sl_block_hash log = Some (le_block_hash l) \<and>
        length (le_block_hash l) = 32 \<and> sl_transaction_hash log = Some (le_transaction_hash l) \<and>
        length (le_transaction_hash l) = 32 \<and> sl_data log = Some (le_data l) \<and>
        sl_removed log = Some (le_removed l) \<and> normalize_topics (sl_topics log) = Ok (le_topics l) \<and>
        m (le_block_number l) = Some (le_block_timestamp l) \<and>
        e = \<lparr>pe_block = le_block_number l, pe_kind = 1, pe_transaction = le_transaction_index l,
             pe_log = le_log_index l, pe_event = \<lparr>ce_event = Some (EventLog l)\<rparr>,
             pe_scope = delivery_scope ds (le_block_number l) activation\<rparr>)" (is "?l \<longleftrightarrow> ?r")
proof
  assume ?l
  then obtain n ti li a bh th d rm ts bt where f: "sl_block_number log = Some n"
      "sl_transaction_index log = Some ti" "sl_log_index log = Some li" "sl_address log = Some a"
      "length a = 20" "sl_block_hash log = Some bh" "length bh = 32"
      "sl_transaction_hash log = Some th" "length th = 32" "sl_data log = Some d"
      "sl_removed log = Some rm" "normalize_topics (sl_topics log) = Ok ts" "m n = Some bt"
      "e = \<lparr>pe_block = n, pe_kind = 1, pe_transaction = ti, pe_log = li,
         pe_event = \<lparr>ce_event = Some (EventLog
           \<lparr>le_address = a, le_topics = ts, le_data = d, le_block_number = n,
            le_block_hash = bh, le_transaction_hash = th, le_transaction_index = ti,
            le_log_index = li, le_block_timestamp = bt, le_removed = rm\<rparr>)\<rparr>,
         pe_scope = delivery_scope ds n activation\<rparr>"
    by (auto simp: log_event_def required_u64_def required_bytes_def result_simps)
  then show ?r
    by (intro exI [of _ "\<lparr>le_address = a, le_topics = ts, le_data = d, le_block_number = n,
            le_block_hash = bh, le_transaction_hash = th, le_transaction_index = ti,
            le_log_index = li, le_block_timestamp = bt, le_removed = rm\<rparr>"]) simp
next
  assume ?r
  then obtain l where "sl_block_number log = Some (le_block_number l)"
        "sl_transaction_index log = Some (le_transaction_index l)"
        "sl_log_index log = Some (le_log_index l)" "sl_address log = Some (le_address l)"
        "length (le_address l) = 20" "sl_block_hash log = Some (le_block_hash l)"
        "length (le_block_hash l) = 32" "sl_transaction_hash log = Some (le_transaction_hash l)"
        "length (le_transaction_hash l) = 32" "sl_data log = Some (le_data l)"
        "sl_removed log = Some (le_removed l)" "normalize_topics (sl_topics log) = Ok (le_topics l)"
        "m (le_block_number l) = Some (le_block_timestamp l)"
        "e = \<lparr>pe_block = le_block_number l, pe_kind = 1, pe_transaction = le_transaction_index l,
             pe_log = le_log_index l, pe_event = \<lparr>ce_event = Some (EventLog l)\<rparr>,
             pe_scope = delivery_scope ds (le_block_number l) activation\<rparr>" by blast
  then show ?l by (cases l) (simp add: log_event_def required_u64_def required_bytes_def required_fixed_def)
qed

lemma log_event_faithful: "log_event ds activation m log = Ok e \<Longrightarrow> faithful_event ds activation e"
  by (auto simp: log_event_Ok_iff faithful_event_def event_key_def event_block_number_def)

section \<open>The records of a delivery\<close>

definition record_key :: "EventRecord \<Rightarrow> u64 \<times> u8 \<times> u64 \<times> u64" where
  "record_key r = (case er_event r of Some ev \<Rightarrow> event_key ev | None \<Rightarrow> (0, 0, 0, 0))"

lemma event_record_Some_iff:
  "event_record ds activation e = Some r \<longleftrightarrow>
     er_event r = Some (pe_event e) \<and>
     event_audience ds (pe_event e) activation = (er_canonical_audience r, er_owner_ids r) \<and>
     (er_canonical_audience r \<or> er_owner_ids r \<noteq> []) \<and> er_scope r = delivery_scope_to_i32 (pe_scope e)"
  by (cases r) (auto simp: event_record_def split: prod.splits)

lemma sorted_map_filter:
  assumes "sorted (map k xs)" and "\<And>x y. x \<in> set xs \<Longrightarrow> f x = Some y \<Longrightarrow> k' y = k x"
  shows "sorted (map k' (List.map_filter f xs))"
  using assms
proof (induction xs)
  case Nil
  then show ?case by (simp add: map_filter_simps)
next
  case (Cons x xs)
  have "k x \<le> k' y" if "y \<in> set (List.map_filter f xs)" for y
  proof -
    from that obtain z where z: "z \<in> set xs" "f z = Some y" by (auto simp: List.map_filter_def)
    then have "k' y = k z" using Cons.prems(2) by simp
    with z Cons.prems(1) show ?thesis by simp
  qed
  moreover have "sorted (map k' (List.map_filter f xs))"
    using Cons.prems by (intro Cons.IH) auto
  moreover have "k' y = k x" if "f x = Some y" for y using that Cons.prems(2) by simp
  ultimately show ?case by (cases "f x") auto
qed

lemma set_map_filter: "set (List.map_filter f xs) = {y. \<exists>x \<in> set xs. f x = Some y}"
  by (force simp: List.map_filter_def)

lemma page_head_Some:
  assumes "page_head ds activation blocks = Ok (Some head)"
  shows "\<exists>b \<in> set blocks. block_ref b = Ok head \<and>
    (activation \<le> br_number head \<or> global_backfill_active ds (br_number head))"
proof -
  let ?P = "\<lambda>b. is_some_and (\<lambda>number. activation \<le> number \<or> global_backfill_active ds number) (sb_number b)"
  from assms obtain b where b: "find ?P (rev blocks) = Some b" "block_ref b = Ok head"
    by (cases "find ?P (rev blocks)") (auto simp: page_head_def bind_res_Ok_iff)
  from find_Some_in_set [OF b(1)] have "b \<in> set blocks" "?P b" by simp_all
  with b(2) show ?thesis by (auto simp: block_ref_Ok_iff)
qed

lemma progress_audience:
  "activation \<le> br_number r \<or> global_backfill_active ds (br_number r) \<Longrightarrow>
   event_audience ds \<lparr>ce_event = Some (EventBlockProgress \<lparr>bp_block = Some r\<rparr>)\<rparr> activation = (True, [])"
  by (auto simp: event_audience_def is_progress_def event_block_number_def)

text \<open>
  A successful normalisation, with the trailing progress record of \<open>certify_head\<close> eliminated:
  the head's own progress event is always among the records already.
\<close>

lemma normalize_page_at_Ok:
  assumes "normalize_page_at hc ds seq page activation = Ok d"
  obtains events timestamps head where
    "set events = {e. (\<exists>b \<in> set (sp_blocks page). from_row hc ds activation b e) \<or>
       (\<exists>log \<in> set (sp_logs page). log_event ds activation timestamps log = Ok e)}"
    "\<forall>b \<in> set (sp_blocks page). row_ok hc ds activation b"
    "\<forall>log \<in> set (sp_logs page). is_ok (log_event ds activation timestamps log)"
    "sorted (map (\<lambda>e. (pe_block e, pe_kind e, pe_transaction e, pe_log e)) events)"
    "page_head ds activation (sort_key sb_number (sp_blocks page)) = Ok head"
    "del_payload d = Some (PayloadData
       \<lparr>dp_records = List.map_filter (event_record ds activation) events\<rparr>)"
    "\<exists>checkpoint. del_cursor d = Some \<lparr>cur_chain_id = ads_chain_id ds,
       cur_query_revision = ads_new_revision ds, cur_next_block = sp_next_block page,
       cur_canonical_head = head, cur_batch_sequence = seq, cur_provider_checkpoint = checkpoint,
       cur_owner_backfill_activation_block = Some activation\<rparr>"
    "\<forall>h. head = Some h \<longrightarrow> (\<exists>r \<in> set (List.map_filter (event_record ds activation) events).
       er_canonical_audience r \<and> record_block r = Some h)"
proof -
  let ?blocks = "sort_key sb_number (sp_blocks page)"
  let ?logs = "sort_key (\<lambda>log. (sl_block_number log, sl_transaction_index log, sl_log_index log)) (sp_logs page)"
  from assms obtain bevs m levs head where
    bevs: "fold_res (block_events hc ds activation) ?blocks ([], Map.empty) = Ok (bevs, m)" and
    levs: "map_res (log_event ds activation m) ?logs = Ok levs" and
    head: "page_head ds activation ?blocks = Ok head" and
    d: "\<exists>checkpoint. d = \<lparr>del_session_id = ads_session_id ds, del_sequence = seq,
          del_query_revision = ads_new_revision ds, del_delivery_token = u64_to_be_bytes seq,
          del_cursor = Some \<lparr>cur_chain_id = ads_chain_id ds,
            cur_query_revision = ads_new_revision ds, cur_next_block = sp_next_block page,
            cur_canonical_head = head, cur_batch_sequence = seq,
            cur_provider_checkpoint = checkpoint,
            cur_owner_backfill_activation_block = Some activation\<rparr>,
          del_payload = Some (PayloadData \<lparr>dp_records = certify_head head
            (List.map_filter (event_record ds activation)
              (sort_key (\<lambda>e. (pe_block e, pe_kind e, pe_transaction e, pe_log e)) (bevs @ levs)))\<rparr>),
          del_checkpoint_neutral = False\<rparr>"
    by (fastforce simp: normalize_page_at_def Let_def bind_res_Ok_iff)
  define events where
    "events = sort_key (\<lambda>e. (pe_block e, pe_kind e, pe_transaction e, pe_log e)) (bevs @ levs)"
  let ?records = "List.map_filter (event_record ds activation) events"
  have rows: "\<forall>b \<in> set (sp_blocks page). row_ok hc ds activation b"
    and blocks: "set bevs = {e. \<exists>b \<in> set (sp_blocks page). from_row hc ds activation b e}"
    using block_events_Ok [OF bevs] by auto
  have logs: "set levs = {e. \<exists>log \<in> set (sp_logs page). log_event ds activation m log = Ok e}"
    and log_rows: "\<forall>log \<in> set (sp_logs page). is_ok (log_event ds activation m log)"
    using map_res_set [OF levs] by (auto simp: is_ok_iff)
  have certified: "\<exists>r \<in> set ?records. er_canonical_audience r \<and> record_block r = Some h"
    if h: "head = Some h" for h
  proof -
    from page_head_Some [OF head [unfolded h]] obtain b where
      b: "b \<in> set (sp_blocks page)" "block_ref b = Ok h" and
      scope: "activation \<le> br_number h \<or> global_backfill_active ds (br_number h)" by auto
    let ?e = "\<lparr>pe_block = br_number h, pe_kind = 2, pe_transaction = 0, pe_log = 0,
      pe_event = \<lparr>ce_event = Some (EventBlockProgress \<lparr>bp_block = Some h\<rparr>)\<rparr>,
      pe_scope = ScopeCanonicalProgress\<rparr>"
    let ?r = "\<lparr>er_event = Some (pe_event ?e), er_canonical_audience = True, er_owner_ids = [],
      er_scope = delivery_scope_to_i32 ScopeCanonicalProgress\<rparr>"
    have "from_row hc ds activation b ?e"
      using rows b scope by (auto simp: row_ok_def from_row_def progress_event_def)
    then have "?e \<in> set events" using b(1) by (auto simp: events_def blocks)
    moreover have "event_record ds activation ?e = Some ?r"
      using progress_audience [OF scope] by (simp add: event_record_def)
    ultimately have "?r \<in> set ?records" by (auto simp: set_map_filter)
    then show ?thesis by (rule bexI [rotated]) (simp add: record_block_def)
  qed
  have "certify_head head ?records = ?records"
    using certified by (fastforce simp: certify_head_def list_ex_iff split: option.splits)
  moreover have "set events = {e. (\<exists>b \<in> set (sp_blocks page). from_row hc ds activation b e) \<or>
      (\<exists>log \<in> set (sp_logs page). log_event ds activation m log = Ok e)}"
    by (auto simp: events_def blocks logs)
  moreover have "sorted (map (\<lambda>e. (pe_block e, pe_kind e, pe_transaction e, pe_log e)) events)"
    by (simp add: events_def)
  ultimately show ?thesis
    using that [of events m head] rows log_rows head d certified unfolding events_def by auto
qed

lemma page_event_faithful:
  assumes "(\<exists>b \<in> set blocks. from_row hc ds activation b e) \<or>
    (\<exists>log \<in> set logs. log_event ds activation timestamps log = Ok e)"
  shows "faithful_event ds activation e"
  using assms from_row_faithful log_event_faithful by blast

section \<open>Properties\<close>

text \<open>
  C30: A normalised delivery is ordered and certifies its head: the records are sorted by block,
  then header, logs by transaction and log index, then progress; the cursor carries the page's
  exclusive next block and the revision of the desired state; and whenever the cursor claims a
  canonical head, some record of the canonical audience carries exactly that block.
\<close>

theorem normalize_page_ordered:
  assumes "normalize_page_at hc ds seq page activation = Ok d"
  shows "\<exists>records cursor. del_payload d = Some (PayloadData \<lparr>dp_records = records\<rparr>) \<and>
    del_cursor d = Some cursor \<and> sorted (map record_key records) \<and>
    cur_next_block cursor = sp_next_block page \<and> cur_query_revision cursor = ads_new_revision ds \<and>
    (\<forall>h. cur_canonical_head cursor = Some h \<longrightarrow>
       (\<exists>r \<in> set records. er_canonical_audience r \<and> record_block r = Some h))"
  using assms
proof (rule normalize_page_at_Ok)
  fix events timestamps head
  assume set: "set events = {e. (\<exists>b \<in> set (sp_blocks page). from_row hc ds activation b e) \<or>
       (\<exists>log \<in> set (sp_logs page). log_event ds activation timestamps log = Ok e)}"
    and sorted: "sorted (map (\<lambda>e. (pe_block e, pe_kind e, pe_transaction e, pe_log e)) events)"
    and rest: "del_payload d = Some (PayloadData
       \<lparr>dp_records = List.map_filter (event_record ds activation) events\<rparr>)"
    "\<exists>checkpoint. del_cursor d = Some \<lparr>cur_chain_id = ads_chain_id ds,
       cur_query_revision = ads_new_revision ds, cur_next_block = sp_next_block page,
       cur_canonical_head = head, cur_batch_sequence = seq, cur_provider_checkpoint = checkpoint,
       cur_owner_backfill_activation_block = Some activation\<rparr>"
    "\<forall>h. head = Some h \<longrightarrow> (\<exists>r \<in> set (List.map_filter (event_record ds activation) events).
       er_canonical_audience r \<and> record_block r = Some h)"
  have "sorted (map record_key (List.map_filter (event_record ds activation) events))"
    using sorted
  proof (rule sorted_map_filter)
    fix e r assume e: "e \<in> set events" and r: "event_record ds activation e = Some r"
    from e set have "faithful_event ds activation e" using page_event_faithful by blast
    with r show "record_key r = (pe_block e, pe_kind e, pe_transaction e, pe_log e)"
      by (simp add: record_key_def event_record_Some_iff faithful_event_def)
  qed
  with rest show ?thesis by auto
qed

text \<open>
  C29: Routing through normalisation loses and leaks nothing. Every record carries exactly the
  audience and the delivery scope of its event and has somebody to hear it; and every log row
  of the page becomes an event with the row's own fields that is delivered precisely when some
  active owner has an interest matching it.
\<close>

theorem normalize_page_routes:
  assumes "normalize_page_at hc ds seq page activation = Ok d"
  shows "\<exists>records. del_payload d = Some (PayloadData \<lparr>dp_records = records\<rparr>) \<and>
    (\<forall>r \<in> set records. \<exists>ev. er_event r = Some ev \<and>
       event_audience ds ev activation = (er_canonical_audience r, er_owner_ids r) \<and>
       (er_canonical_audience r \<or> er_owner_ids r \<noteq> []) \<and>
       er_scope r = delivery_scope_to_i32 (delivery_scope ds (event_block_number ev) activation)) \<and>
    (\<forall>log \<in> set (sp_logs page). \<exists>l.
       sl_block_number log = Some (le_block_number l) \<and> sl_log_index log = Some (le_log_index l) \<and>
       sl_transaction_hash log = Some (le_transaction_hash l) \<and> sl_address log = Some (le_address l) \<and>
       sl_data log = Some (le_data l) \<and> normalize_topics (sl_topics log) = Ok (le_topics l) \<and>
       ((\<exists>r \<in> set records. er_event r = Some \<lparr>ce_event = Some (EventLog l)\<rparr>) \<longleftrightarrow>
        (\<exists>owner. listens ds \<lparr>ce_event = Some (EventLog l)\<rparr> activation owner)))"
  using assms
proof (rule normalize_page_at_Ok)
  fix events timestamps head
  let ?records = "List.map_filter (event_record ds activation) events"
  assume set: "set events = {e. (\<exists>b \<in> set (sp_blocks page). from_row hc ds activation b e) \<or>
       (\<exists>log \<in> set (sp_logs page). log_event ds activation timestamps log = Ok e)}"
    and rows: "\<forall>log \<in> set (sp_logs page). is_ok (log_event ds activation timestamps log)"
    and payload: "del_payload d = Some (PayloadData \<lparr>dp_records = ?records\<rparr>)"
  have faithful: "faithful_event ds activation e" if "e \<in> set events" for e
    using set that page_event_faithful by blast
  have recs: "\<exists>ev. er_event r = Some ev \<and>
       event_audience ds ev activation = (er_canonical_audience r, er_owner_ids r) \<and>
       (er_canonical_audience r \<or> er_owner_ids r \<noteq> []) \<and>
       er_scope r = delivery_scope_to_i32 (delivery_scope ds (event_block_number ev) activation)"
    if r: "r \<in> set ?records" for r
  proof -
    from r obtain e where e: "e \<in> set events" "event_record ds activation e = Some r"
      by (auto simp: set_map_filter)
    with faithful [OF e(1)] show ?thesis by (auto simp: event_record_Some_iff faithful_event_def)
  qed
  have heard: "canonical \<or> owners \<noteq> [] \<longleftrightarrow> (\<exists>owner. listens ds ev activation owner)"
    if "event_audience ds ev activation = (canonical, owners)" "\<not> is_progress ev" for ev canonical owners
  proof -
    have "listening_ids ds ev activation = [] \<longleftrightarrow> (\<forall>owner. \<not> listens ds ev activation owner)"
      using set_listening_ids [of ds ev activation] by (auto simp flip: set_empty)
    with that show ?thesis
      by (auto simp: event_audience_conv canonical_audience_def split: if_splits)
  qed
  have logs: "\<exists>l. sl_block_number log = Some (le_block_number l) \<and> sl_log_index log = Some (le_log_index l) \<and>
       sl_transaction_hash log = Some (le_transaction_hash l) \<and> sl_address log = Some (le_address l) \<and>
       sl_data log = Some (le_data l) \<and> normalize_topics (sl_topics log) = Ok (le_topics l) \<and>
       ((\<exists>r \<in> set ?records. er_event r = Some \<lparr>ce_event = Some (EventLog l)\<rparr>) \<longleftrightarrow>
        (\<exists>owner. listens ds \<lparr>ce_event = Some (EventLog l)\<rparr> activation owner))"
    if log: "log \<in> set (sp_logs page)" for log
  proof -
    from rows log obtain e where e: "log_event ds activation timestamps log = Ok e"
      by (auto simp: is_ok_iff)
    then obtain l where l: "sl_block_number log = Some (le_block_number l)"
        "sl_log_index log = Some (le_log_index l)" "sl_transaction_hash log = Some (le_transaction_hash l)"
        "sl_address log = Some (le_address l)" "sl_data log = Some (le_data l)"
        "normalize_topics (sl_topics log) = Ok (le_topics l)"
        "pe_event e = \<lparr>ce_event = Some (EventLog l)\<rparr>"
      by (auto simp: log_event_Ok_iff)
    let ?ev = "\<lparr>ce_event = Some (EventLog l)\<rparr>"
    obtain canonical owners where aud: "event_audience ds ?ev activation = (canonical, owners)"
      by (cases "event_audience ds ?ev activation")
    have e_in: "e \<in> set events" using e log by (auto simp: set)
    have "(\<exists>r \<in> set ?records. er_event r = Some ?ev) \<longleftrightarrow> canonical \<or> owners \<noteq> []" (is "?l \<longleftrightarrow> ?r")
    proof
      assume ?l
      then show ?r using recs aud by fastforce
    next
      assume ?r
      then obtain r where "event_record ds activation e = Some r"
        using aud l(7) by (auto simp: event_record_def)
      moreover from this have "er_event r = Some ?ev" using l(7) by (simp add: event_record_Some_iff)
      ultimately show ?l using e_in by (auto simp: set_map_filter)
    qed
    also have "\<dots> \<longleftrightarrow> (\<exists>owner. listens ds ?ev activation owner)"
      using heard [OF aud] by (simp add: is_progress_def)
    finally show ?thesis using l by blast
  qed
  from payload recs logs show ?thesis by blast
qed

text \<open>
  C31: Delivered headers are authentic: the RLP of every header record encodes a consensus header
  rebuilt from a row of the page whose hash is the hash of the record's block, and whose number,
  parent hash and timestamp are the block's.
\<close>

theorem normalize_headers_authentic:
  assumes "normalize_page_at hc ds seq page activation = Ok d"
    and "del_payload d = Some (PayloadData \<lparr>dp_records = records\<rparr>)"
    and "r \<in> set records" and "er_event r = Some \<lparr>ce_event = Some (EventBlockHeader h)\<rparr>"
  shows "\<exists>b header ref. b \<in> set (sp_blocks page) \<and> consensus_header b = Ok header \<and>
    bh_block h = Some ref \<and> bh_consensus_header_rlp h = hc_rlp hc header \<and>
    hc_hash_slow hc header = br_hash ref \<and> ch_number header = br_number ref \<and>
    ch_parent_hash header = br_parent_hash ref \<and> ch_timestamp header = br_timestamp ref"
  using assms(1)
proof (rule normalize_page_at_Ok)
  fix events timestamps head
  assume set: "set events = {e. (\<exists>b \<in> set (sp_blocks page). from_row hc ds activation b e) \<or>
       (\<exists>log \<in> set (sp_logs page). log_event ds activation timestamps log = Ok e)}"
    and payload: "del_payload d = Some (PayloadData
       \<lparr>dp_records = List.map_filter (event_record ds activation) events\<rparr>)"
  from payload assms(2,3) obtain e where e: "e \<in> set events" "event_record ds activation e = Some r"
    by (auto simp: set_map_filter)
  then have ev: "pe_event e = \<lparr>ce_event = Some (EventBlockHeader h)\<rparr>"
    using assms(4) by (simp add: event_record_Some_iff)
  then obtain b where b: "b \<in> set (sp_blocks page)" "from_row hc ds activation b e"
    using e(1) set by (auto simp: log_event_Ok_iff)
  from b(2) ev obtain ref rlp where ref: "block_ref b = Ok ref"
      "encode_consensus_header hc b = Ok rlp" "bh_block h = Some ref" "bh_consensus_header_rlp h = rlp"
    by (auto simp: from_row_def header_event_def progress_event_def bind_res_Ok_iff split: if_splits)
  then obtain header where header: "consensus_header b = Ok header"
      "sb_hash b = Some (hc_hash_slow hc header)" "rlp = hc_rlp hc header"
    by (auto simp: encode_consensus_header_def bind_res_Ok_iff required_fixed_Ok_iff Let_def split: if_splits)
  have "ch_number header = br_number ref \<and> ch_parent_hash header = br_parent_hash ref \<and>
      ch_timestamp header = br_timestamp ref"
    using header(1) ref(1)
    by (auto simp: consensus_header_def bind_res_Ok_iff required_fixed_Ok_iff ok_or_Ok_iff block_ref_Ok_iff
        required_quantity_u64_def quantity_to_u64_field_def split: if_splits)
  moreover have "hc_hash_slow hc header = br_hash ref"
    using header(2) ref(1) by (simp add: block_ref_Ok_iff)
  ultimately show ?thesis using b(1) header ref by blast
qed

lemma normalize_page_total:
  assumes page: "is_ok (validate_source_page page from_block to_excl)"
    and headers: "list_all (\<lambda>b. is_none_or (\<lambda>n. \<not> has_active_block_interest ds n activation) (sb_number b) \<or>
      is_ok (encode_consensus_header hc b)) (sp_blocks page)"
  shows "is_ok (normalize_page_at hc ds seq page activation)"
proof -
  obtain refs where adm: "admissible_page page from_block to_excl refs"
    using page validate_source_page_Ok_iff by (auto simp: is_ok_iff)
  then have refs: "map_res block_ref (sp_blocks page) = Ok refs"
    and logs: "list_all (\<lambda>log. wf_log log \<and> list_ex (log_in_block log) refs) (sp_logs page)"
    and wf: "list_all wf_block refs"
    by (simp_all add: admissible_page_def page_chain_def)
  let ?blocks = "sort_key sb_number (sp_blocks page)"
  have row: "row_ok hc ds activation b" if b: "b \<in> set (sp_blocks page)" for b
  proof -
    from map_res_set [OF refs] b obtain r where r: "block_ref b = Ok r" by blast
    then have "sb_number b = Some (br_number r)" by (simp add: block_ref_Ok_iff)
    with headers b have "\<not> has_active_block_interest ds (br_number r) activation \<or>
        is_ok (encode_consensus_header hc b)"
      by (auto simp: list_all_iff)
    with r show ?thesis by (auto simp: row_ok_def header_event_def is_ok_iff)
  qed
  then have "\<forall>b \<in> set ?blocks. row_ok hc ds activation b" by simp
  then obtain evs m where bevs:
      "fold_res (block_events hc ds activation) ?blocks ([], Map.empty) = Ok (evs, m)"
    using block_events_total by blast
  have log: "is_ok (log_event ds activation m log)" if l: "log \<in> set (sp_logs page)" for log
  proof -
    from logs l obtain r where r: "r \<in> set refs" "log_in_block log r" and wfl: "wf_log log"
      by (auto simp: list_all_iff list_ex_iff)
    from map_res_set [OF refs] r(1) obtain b where b: "b \<in> set (sp_blocks page)" "block_ref b = Ok r"
      by blast
    then have "sb_number b = Some (br_number r)" by (simp add: block_ref_Ok_iff)
    with block_events_Ok [OF bevs] b(1) obtain ts where "m (br_number r) = Some ts" by fastforce
    moreover have "length (br_hash r) = 32" using wf r(1) by (simp add: list_all_iff wf_block_def)
    ultimately show ?thesis
      using wfl r(2)
      by (auto simp: log_event_def wf_log_def log_in_block_def required_u64_def required_bytes_def
          required_fixed_def is_ok_iff)
  qed
  then obtain levs where "map_res (log_event ds activation m)
      (sort_key (\<lambda>log. (sl_block_number log, sl_transaction_index log, sl_log_index log)) (sp_logs page)) = Ok levs"
    using map_res_total [of "sort_key (\<lambda>log. (sl_block_number log, sl_transaction_index log, sl_log_index log))
      (sp_logs page)" "log_event ds activation m"] by auto
  moreover have "\<exists>head. page_head ds activation ?blocks = Ok head"
  proof (cases "find (\<lambda>b. is_some_and (\<lambda>number. activation \<le> number \<or>
           global_backfill_active ds number) (sb_number b)) (rev ?blocks)")
    case (Some b)
    then have "b \<in> set (sp_blocks page)" using find_Some_in_set by fastforce
    with Some map_res_set [OF refs] show ?thesis by (fastforce simp: page_head_def)
  qed (simp add: page_head_def)
  ultimately show ?thesis using bevs by (auto simp: normalize_page_at_def is_ok_iff)
qed

text \<open>
  C32: Admission suffices for normalisation: a page that passed validation normalises without
  error for every session without an active block interest at its blocks; with such an interest
  only the reconstruction of a consensus header can fail.
\<close>

theorem normalize_admitted_page:
  assumes "is_ok (validate_source_page page from_block to_excl)"
    and "list_all (\<lambda>b. is_none_or (\<lambda>n. \<not> has_active_block_interest ds n activation) (sb_number b) \<or>
      is_ok (encode_consensus_header hc b)) (sp_blocks page)"
  shows "is_ok (normalize_page_at hc ds seq page activation)"
  using normalize_page_total [OF assms] .

section \<open>Witnesses\<close>

text \<open>
  One block row with all header fields, one log row in it, a page with both, a session with a
  block interest and a log interest, and a header codec that reads the hash from the mix hash.
\<close>

definition sample_row :: SourceBlock where
  "sample_row =
     \<lparr>sb_number = Some 12, sb_hash = Some (replicate 32 9), sb_parent_hash = Some (replicate 32 8),
      sb_timestamp = Some [100], sb_nonce = Some (replicate 8 0),
      sb_sha3_uncles = Some (replicate 32 0), sb_logs_bloom = Some (replicate 256 0),
      sb_transactions_root = Some (replicate 32 0), sb_state_root = Some (replicate 32 0),
      sb_receipts_root = Some (replicate 32 0), sb_miner = Some (replicate 20 0),
      sb_difficulty = Some [], sb_total_difficulty = None, sb_extra_data = Some [1, 2],
      sb_size = None, sb_gas_limit = Some [5], sb_gas_used = Some [4], sb_base_fee_per_gas = None,
      sb_blob_gas_used = None, sb_excess_blob_gas = None, sb_parent_beacon_block_root = None,
      sb_withdrawals_root = None, sb_mix_hash = Some (replicate 32 9), sb_send_count = None,
      sb_send_root = None, sb_uncles = None, sb_withdrawals = None\<rparr>"

definition sample_log_row :: SourceLog where
  "sample_log_row =
     \<lparr>sl_removed = Some False, sl_log_index = Some 3, sl_transaction_index = Some 2,
      sl_transaction_hash = Some (replicate 32 5), sl_block_hash = Some (replicate 32 9),
      sl_block_number = Some 12, sl_address = Some (replicate 20 7), sl_data = Some [],
      sl_topics = [Some (replicate 32 1), None]\<rparr>"

definition sample_page :: SourcePage where
  "sample_page =
     \<lparr>sp_archive_height = Some 40, sp_next_block = 13, sp_blocks = [sample_row],
      sp_logs = [sample_log_row], sp_rollback_guard = None\<rparr>"

definition sample_session :: ApplyDesiredState where
  "sample_session =
     \<lparr>ads_protocol_version = 1, ads_session_id = ''s'', ads_chain_id = 1, ads_expected_revision = 0,
      ads_new_revision = 1,
      ads_owners =
        [\<lparr>oi_owner_id = ''pool'',
          oi_interests = [sample_interest 7, \<lparr>pi_kind = Some (KindBlock \<lparr>bi_mode = 1\<rparr>)\<rparr>],
          oi_backfill = None, oi_canonical = False\<rparr>]\<rparr>"

definition sample_codec :: HeaderCodec where
  "sample_codec = \<lparr>hc_hash_slow = ch_mix_hash, hc_rlp = ch_extra_data\<rparr>"

lemma sample_page_admitted: "is_ok (validate_source_page sample_page 12 20)"
proof -
  have "validate_source_page sample_page 12 20 = Ok ()"
    by (simp add: validate_source_page_def validate_page_block_def required_width_def sample_page_def
        sample_row_def sample_log_row_def validate_page_log_def validate_log_def validate_topic_def
        checked_add_def)
  then show ?thesis by (simp add: is_ok_iff)
qed

lemma sample_header: "encode_consensus_header sample_codec sample_row = Ok [1, 2]"
  by (simp add: encode_consensus_header_def consensus_header_def sample_row_def sample_codec_def
      required_fixed_def quantity_to_u256_def required_quantity_u64_def quantity_to_u64_field_def
      optional_quantity_u64_def optional_b256_def)

lemma sample_headers:
  "list_all (\<lambda>b. is_none_or (\<lambda>n. \<not> has_active_block_interest sample_session n 10) (sb_number b) \<or>
      is_ok (encode_consensus_header sample_codec b)) (sp_blocks sample_page)"
  by (simp add: sample_page_def sample_header is_ok_iff)

theorem normalize_admitted_page_witness:
  "is_ok (validate_source_page sample_page 12 20) \<and>
   is_ok (normalize_page_at sample_codec sample_session 1 sample_page 10)"
  using normalize_admitted_page [OF sample_page_admitted sample_headers] sample_page_admitted by simp

lemma sample_delivery:
  obtains d where "normalize_page_at sample_codec sample_session 1 sample_page 10 = Ok d"
  using normalize_page_total [OF sample_page_admitted sample_headers] by (auto simp: is_ok_iff)

theorem normalize_page_ordered_witness:
  "\<exists>d records cursor. normalize_page_at sample_codec sample_session 1 sample_page 10 = Ok d \<and>
     del_payload d = Some (PayloadData \<lparr>dp_records = records\<rparr>) \<and> del_cursor d = Some cursor \<and>
     sorted (map record_key records) \<and> cur_next_block cursor = 13"
proof -
  obtain d where d: "normalize_page_at sample_codec sample_session 1 sample_page 10 = Ok d"
    by (rule sample_delivery)
  from normalize_page_ordered [OF d] d show ?thesis by (auto simp: sample_page_def)
qed

lemma sample_row_event:
  "from_row sample_codec sample_session 10 sample_row
     \<lparr>pe_block = 12, pe_kind = 0, pe_transaction = 0, pe_log = 0,
      pe_event = \<lparr>ce_event = Some (EventBlockHeader \<lparr>bh_block = Some \<lparr>br_number = 12,
          br_hash = replicate 32 9, br_parent_hash = replicate 32 8, br_timestamp = be_padded_u64 [100]\<rparr>,
        bh_consensus_header_rlp = [1, 2], bh_total_difficulty = [], bh_size = []\<rparr>)\<rparr>,
      pe_scope = ScopeCanonicalProgress\<rparr>"
proof -
  let ?r = "\<lparr>br_number = 12, br_hash = replicate 32 9, br_parent_hash = replicate 32 8,
    br_timestamp = be_padded_u64 [100]\<rparr>"
  have "block_ref sample_row = Ok ?r" by (simp add: block_ref_Ok_iff sample_row_def wf_block_def)
  moreover have "has_active_block_interest sample_session 12 10"
    by (simp add: has_active_block_interest_def sample_session_def owner_active_def is_block_interest_def
        sample_interest_def)
  moreover have "delivery_scope sample_session 12 10 = ScopeCanonicalProgress"
    by (simp add: delivery_scope_def)
  moreover have "sb_total_difficulty sample_row = None" "sb_size sample_row = None"
    by (simp_all add: sample_row_def)
  ultimately show ?thesis by (simp add: from_row_def header_event_def sample_header)
qed

theorem normalize_page_routes_witness:
  "\<exists>d records l. normalize_page_at sample_codec sample_session 1 sample_page 10 = Ok d \<and>
     del_payload d = Some (PayloadData \<lparr>dp_records = records\<rparr>) \<and>
     sl_log_index sample_log_row = Some (le_log_index l) \<and>
     ((\<exists>r \<in> set records. er_event r = Some \<lparr>ce_event = Some (EventLog l)\<rparr>) \<longleftrightarrow>
      (\<exists>owner. listens sample_session \<lparr>ce_event = Some (EventLog l)\<rparr> 10 owner))"
proof -
  obtain d where d: "normalize_page_at sample_codec sample_session 1 sample_page 10 = Ok d"
    by (rule sample_delivery)
  have "sample_log_row \<in> set (sp_logs sample_page)" by (simp add: sample_page_def)
  with normalize_page_routes [OF d] d show ?thesis by fast
qed

theorem normalize_headers_authentic_witness:
  "\<exists>d records r h header. normalize_page_at sample_codec sample_session 1 sample_page 10 = Ok d \<and>
     del_payload d = Some (PayloadData \<lparr>dp_records = records\<rparr>) \<and> r \<in> set records \<and>
     er_event r = Some \<lparr>ce_event = Some (EventBlockHeader h)\<rparr> \<and>
     hc_hash_slow sample_codec header = replicate 32 9 \<and>
     bh_consensus_header_rlp h = hc_rlp sample_codec header"
proof -
  obtain d where d: "normalize_page_at sample_codec sample_session 1 sample_page 10 = Ok d"
    by (rule sample_delivery)
  let ?ref = "\<lparr>br_number = 12, br_hash = replicate 32 9, br_parent_hash = replicate 32 8,
    br_timestamp = be_padded_u64 [100]\<rparr>"
  let ?h = "\<lparr>bh_block = Some ?ref, bh_consensus_header_rlp = [1, 2], bh_total_difficulty = [], bh_size = []\<rparr>"
  let ?e = "\<lparr>pe_block = 12, pe_kind = 0, pe_transaction = 0, pe_log = 0,
    pe_event = \<lparr>ce_event = Some (EventBlockHeader ?h)\<rparr>, pe_scope = ScopeCanonicalProgress\<rparr>"
  have "event_audience sample_session \<lparr>ce_event = Some (EventBlockHeader ?h)\<rparr> 10 = (False, [''pool''])"
    by (simp add: event_audience_def audience_step_def event_block_number_def sample_session_def
        global_backfill_active_def is_progress_def owner_active_def sample_interest_def
        interest_matches_event_def)
  then obtain r where r: "event_record sample_session 10 ?e = Some r"
    by (simp add: event_record_def)
  from d show ?thesis
  proof (rule normalize_page_at_Ok)
    fix events timestamps head
    let ?records = "List.map_filter (event_record sample_session 10) events"
    assume set: "set events = {e. (\<exists>b \<in> set (sp_blocks sample_page). from_row sample_codec sample_session 10 b e) \<or>
         (\<exists>log \<in> set (sp_logs sample_page). log_event sample_session 10 timestamps log = Ok e)}"
      and payload: "del_payload d = Some (PayloadData \<lparr>dp_records = ?records\<rparr>)"
    have "?e \<in> set events" using sample_row_event by (auto simp: set sample_page_def)
    then have in_records: "r \<in> set ?records" using r by (auto simp: set_map_filter)
    have ev: "er_event r = Some \<lparr>ce_event = Some (EventBlockHeader ?h)\<rparr>"
      using r by (simp add: event_record_Some_iff)
    obtain header where "hc_hash_slow sample_codec header = replicate 32 9"
        "bh_consensus_header_rlp ?h = hc_rlp sample_codec header"
      using normalize_headers_authentic [OF d payload in_records ev] by auto
    with d payload in_records ev show ?thesis by blast
  qed
qed

end
