(* ===== verification/Source_Limits.thy ===== *)
theory Source_Limits
  imports Query_Plan Normalize
begin

text \<open>
  The bounds of \<open>hypersync/src/source_engine.rs\<close>: the hard admission policy for a decoded provider
  response (rows and bytes, counted with saturating arithmetic), the query limits that shrink
  until a delivery fits, and the error types of the source engine.

  Row sizes and vector capacities are properties of the compiled program's memory layout; they
  are the parameter \<open>MemoryLayout\<close>.
\<close>

section \<open>Errors\<close>

datatype SourceError =
    Request string
  | UnavailableHeight
  | RequestTimeout nat
  | InvalidRequestTimeout
  | InvalidSessionLimit
  | InvalidReorgDepth
  | SourceInvalidDeliverySizeLimit usize usize
  | InvalidResponseLimit string

datatype SourceEngineError =
    QueryPlan QueryPlanError
  | Source SourceError
  | Normalize NormalizeError
  | InvalidPage SourcePageError
  | CanonicalFault CanonicalError
  | NoProgress u64 u64
  | NoPendingDelivery
  | DeliveryTokenMismatch
  | MissingCursor
  | MissingRollbackGuard
  | OwnerCatchupReorg u64 u64 u64 u64
  | DeliveryPending
  | SequenceRegression u64 u64
  | ResumeCursorMismatch u64 u64
  | ResumeGuardMismatch string
  | CoverageCursorMismatch u64 u64
  | CoverageBoundaryConflict u64
  | SequenceExhausted
  | EngineBlockNumberOverflow
  | BlockTimestampOverflow u64
  | InvalidDeliverySizeLimit usize usize
  | DeliveryTooLarge usize usize
  | ResponseLimitExceeded string usize usize
  | EnginePanic string

section \<open>Response limits\<close>

definition MAX_DELIVERY_SIZE_BYTES :: usize where
  "MAX_DELIVERY_SIZE_BYTES = MAX_MESSAGE_SIZE_BYTES - 64 * 1024"

definition MAX_BLOCKS_PER_RESPONSE :: usize where
  "MAX_BLOCKS_PER_RESPONSE = MAX_BLOCKS_PER_QUERY * 2"

definition MAX_LOGS_PER_RESPONSE :: usize where
  "MAX_LOGS_PER_RESPONSE = MAX_LOGS_PER_QUERY * 2"

definition MAX_DYNAMIC_BYTES_PER_RESPONSE :: usize where
  "MAX_DYNAMIC_BYTES_PER_RESPONSE = 16 * 1024 * 1024"

record SourceResponseLimits =
  srl_max_blocks :: usize
  srl_max_logs :: usize
  srl_max_dynamic_bytes :: usize

definition response_limits_new :: "usize \<Rightarrow> usize \<Rightarrow> usize \<Rightarrow> SourceError + SourceResponseLimits" where
  "response_limits_new max_blocks max_logs max_dynamic_bytes =
     (if max_blocks = 0 then Err (InvalidResponseLimit ''blocks'')
      else if max_logs = 0 then Err (InvalidResponseLimit ''logs'')
      else if max_dynamic_bytes = 0 then Err (InvalidResponseLimit ''dynamic bytes'')
      else Ok \<lparr>srl_max_blocks = max_blocks, srl_max_logs = max_logs,
               srl_max_dynamic_bytes = max_dynamic_bytes\<rparr>)"

definition default_response_limits :: SourceResponseLimits where
  "default_response_limits =
     \<lparr>srl_max_blocks = MAX_BLOCKS_PER_RESPONSE, srl_max_logs = MAX_LOGS_PER_RESPONSE,
      srl_max_dynamic_bytes = MAX_DYNAMIC_BYTES_PER_RESPONSE\<rparr>"

record MemoryLayout =
  ml_block_size :: usize
  ml_log_size :: usize
  ml_hash_size :: usize
  ml_withdrawal_size :: usize
  ml_blocks_capacity :: "SourceBlock list \<Rightarrow> usize"
  ml_logs_capacity :: "SourceLog list \<Rightarrow> usize"
  ml_uncles_capacity :: "bytes list \<Rightarrow> usize"
  ml_withdrawals_capacity :: "Withdrawal list \<Rightarrow> usize"

definition check_dynamic_bytes :: "usize \<Rightarrow> usize \<Rightarrow> SourceEngineError + unit" where
  "check_dynamic_bytes observed limit =
     (if limit < observed then Err (ResponseLimitExceeded ''dynamic bytes'' observed limit) else Ok ())"

definition add_dynamic_bytes :: "usize \<Rightarrow> usize \<Rightarrow> usize \<Rightarrow> SourceEngineError + usize" where
  "add_dynamic_bytes limit amount observed =
     (let observed' = usize_saturating_add observed amount in
      bind_res (check_dynamic_bytes observed' limit) (\<lambda>_. Ok observed'))"

definition opt_bytes :: "bytes option \<Rightarrow> usize list" where
  "opt_bytes value = (case value of None \<Rightarrow> [] | Some v \<Rightarrow> [length v])"

definition uncle_bytes :: "MemoryLayout \<Rightarrow> bytes list option \<Rightarrow> usize list" where
  "uncle_bytes ml uncles =
     (case uncles of
        None \<Rightarrow> []
      | Some us \<Rightarrow> usize_saturating_mul (ml_hash_size ml) (ml_uncles_capacity ml us) # map length us)"

definition withdrawal_bytes :: "MemoryLayout \<Rightarrow> Withdrawal list option \<Rightarrow> usize list" where
  "withdrawal_bytes ml withdrawals =
     (case withdrawals of
        None \<Rightarrow> []
      | Some ws \<Rightarrow> usize_saturating_mul (ml_withdrawal_size ml) (ml_withdrawals_capacity ml ws) #
          concat (map (\<lambda>w. opt_bytes (wd_index w) @ opt_bytes (wd_validator_index w) @
            opt_bytes (wd_address w) @ opt_bytes (wd_amount w)) ws))"

definition block_bytes :: "MemoryLayout \<Rightarrow> SourceBlock \<Rightarrow> usize list" where
  "block_bytes ml b =
     opt_bytes (sb_hash b) @ opt_bytes (sb_parent_hash b) @ opt_bytes (sb_nonce b) @
     opt_bytes (sb_sha3_uncles b) @ opt_bytes (sb_logs_bloom b) @ opt_bytes (sb_transactions_root b) @
     opt_bytes (sb_state_root b) @ opt_bytes (sb_receipts_root b) @ opt_bytes (sb_miner b) @
     opt_bytes (sb_difficulty b) @ opt_bytes (sb_total_difficulty b) @ opt_bytes (sb_extra_data b) @
     opt_bytes (sb_size b) @ opt_bytes (sb_gas_limit b) @ opt_bytes (sb_gas_used b) @
     opt_bytes (sb_timestamp b) @ opt_bytes (sb_base_fee_per_gas b) @ opt_bytes (sb_blob_gas_used b) @
     opt_bytes (sb_excess_blob_gas b) @ opt_bytes (sb_parent_beacon_block_root b) @
     opt_bytes (sb_withdrawals_root b) @ opt_bytes (sb_send_count b) @ opt_bytes (sb_send_root b) @
     opt_bytes (sb_mix_hash b) @ uncle_bytes ml (sb_uncles b) @ withdrawal_bytes ml (sb_withdrawals b)"

definition log_bytes :: "SourceLog \<Rightarrow> usize list" where
  "log_bytes log =
     opt_bytes (sl_transaction_hash log) @ opt_bytes (sl_block_hash log) @ opt_bytes (sl_address log) @
     opt_bytes (sl_data log) @ concat (map opt_bytes (sl_topics log))"

definition guard_bytes :: "RollbackGuard option \<Rightarrow> usize list" where
  "guard_bytes guard =
     (case guard of None \<Rightarrow> [] | Some g \<Rightarrow> [length (rg_hash g) + length (rg_first_parent_hash g)])"

definition row_bytes :: "MemoryLayout \<Rightarrow> SourcePage \<Rightarrow> usize" where
  "row_bytes ml page =
     usize_saturating_add
       (usize_saturating_mul (ml_block_size ml) (ml_blocks_capacity ml (sp_blocks page)))
       (usize_saturating_mul (ml_log_size ml) (ml_logs_capacity ml (sp_logs page)))"

definition validate_response_dynamic_bytes ::
    "MemoryLayout \<Rightarrow> SourcePage \<Rightarrow> usize \<Rightarrow> SourceEngineError + unit" where
  "validate_response_dynamic_bytes ml page limit =
     (let observed = row_bytes ml page in
      bind_res (check_dynamic_bytes observed limit) (\<lambda>_.
      bind_res (fold_res (add_dynamic_bytes limit)
          (concat (map (block_bytes ml) (sp_blocks page)) @ concat (map log_bytes (sp_logs page)) @
           guard_bytes (sp_rollback_guard page)) observed) (\<lambda>_.
      Ok ())))"

definition validate_response_counts ::
    "MemoryLayout \<Rightarrow> SourcePage \<Rightarrow> SourceResponseLimits \<Rightarrow> SourceEngineError + unit" where
  "validate_response_counts ml page limits =
     (if srl_max_blocks limits < length (sp_blocks page)
        then Err (ResponseLimitExceeded ''blocks'' (length (sp_blocks page)) (srl_max_blocks limits))
      else if srl_max_logs limits < length (sp_logs page)
        then Err (ResponseLimitExceeded ''logs'' (length (sp_logs page)) (srl_max_logs limits))
      else validate_response_dynamic_bytes ml page (srl_max_dynamic_bytes limits))"

section \<open>Query limits\<close>

record QueryLimits =
  ql_max_blocks :: usize
  ql_max_logs :: usize

definition for_range :: "u64 \<Rightarrow> u64 \<Rightarrow> QueryLimits" where
  "for_range from_block to_block_excl =
     (let span = saturating_sub to_block_excl from_block in
      \<lparr>ql_max_blocks = max 1 (min (unat span) MAX_BLOCKS_PER_QUERY), ql_max_logs = MAX_LOGS_PER_QUERY\<rparr>)"

definition div_ceil :: "nat \<Rightarrow> nat \<Rightarrow> nat" where
  "div_ceil a b = a div b + (if a mod b = 0 then 0 else 1)"

text \<open>\<open>shrink\<close> returns the shrunk limits, or \<open>None\<close> where the code returns \<open>false\<close>.\<close>

definition shrink :: "QueryLimits \<Rightarrow> QueryLimits option" where
  "shrink limits =
     (if ql_max_blocks limits = 1 \<and> ql_max_logs limits = 1 then None
      else Some \<lparr>ql_max_blocks = max 1 (div_ceil (ql_max_blocks limits) 2),
                 ql_max_logs = max 1 (div_ceil (ql_max_logs limits) 2)\<rparr>)"

definition limits_size :: "QueryLimits \<Rightarrow> nat" where
  "limits_size limits =
     (let size = (\<lambda>n. if n = 0 then 2 else n) in size (ql_max_blocks limits) + size (ql_max_logs limits))"

lemma div_ceil_2: "div_ceil n 2 = (n + 1) div 2"
  by (simp add: div_ceil_def) presburger

lemma shrink_decreases: "shrink limits = Some limits' \<Longrightarrow> limits_size limits' < limits_size limits"
  by (auto simp: shrink_def limits_size_def Let_def div_ceil_2 max_def split: if_splits)

lemma shrink_positive:
  "shrink limits = Some limits' \<Longrightarrow> 0 < ql_max_blocks limits' \<and> 0 < ql_max_logs limits'"
  by (auto simp: shrink_def split: if_splits)

section \<open>Properties\<close>

lemma add_dynamic_bytes_fold:
  assumes "limit < usize_max"
  shows "fold_res (add_dynamic_bytes limit) amounts observed = Ok t \<longleftrightarrow>
    t = observed + sum_list amounts \<and> (amounts \<noteq> [] \<longrightarrow> t \<le> limit)"
proof (induction amounts arbitrary: observed)
  case Nil
  then show ?case by auto
next
  case (Cons a amounts)
  have step: "add_dynamic_bytes limit a observed = Ok u \<longleftrightarrow> u = observed + a \<and> u \<le> limit" for u
    using assms
    by (auto simp: add_dynamic_bytes_def check_dynamic_bytes_def usize_saturating_add_def Let_def
        bind_res_Ok_iff min_def split: if_splits)
  have "fold_res (add_dynamic_bytes limit) (a # amounts) observed = Ok t \<longleftrightarrow>
      observed + a \<le> limit \<and> t = observed + a + sum_list amounts \<and> (amounts \<noteq> [] \<longrightarrow> t \<le> limit)"
    by (simp add: bind_res_Ok_iff step Cons.IH)
  then show ?case by (cases "amounts = []") auto
qed

lemma add_dynamic_bytes_budget:
  assumes "limit < usize_max"
  shows "observed \<le> limit \<and> (\<exists>t. fold_res (add_dynamic_bytes limit) amounts observed = Ok t) \<longleftrightarrow>
    observed + sum_list amounts \<le> limit"
  unfolding add_dynamic_bytes_fold [OF assms] by (cases "amounts = []") auto

lemma response_budget:
  assumes "srl_max_dynamic_bytes limits < usize_max"
  shows "is_ok (validate_response_counts ml page limits) \<longleftrightarrow>
    length (sp_blocks page) \<le> srl_max_blocks limits \<and> length (sp_logs page) \<le> srl_max_logs limits \<and>
    ml_block_size ml * ml_blocks_capacity ml (sp_blocks page) +
      ml_log_size ml * ml_logs_capacity ml (sp_logs page) +
      sum_list (concat (map (block_bytes ml) (sp_blocks page))) +
      sum_list (concat (map log_bytes (sp_logs page))) +
      sum_list (guard_bytes (sp_rollback_guard page)) \<le> srl_max_dynamic_bytes limits"
proof -
  let ?limit = "srl_max_dynamic_bytes limits"
  let ?rows = "ml_block_size ml * ml_blocks_capacity ml (sp_blocks page) +
    ml_log_size ml * ml_logs_capacity ml (sp_logs page)"
  let ?amounts = "concat (map (block_bytes ml) (sp_blocks page)) @ concat (map log_bytes (sp_logs page)) @
    guard_bytes (sp_rollback_guard page)"
  have rows: "row_bytes ml page = min ?rows usize_max"
    by (auto simp: row_bytes_def usize_saturating_add_def usize_saturating_mul_def min_def)
  have "is_ok (validate_response_dynamic_bytes ml page ?limit) \<longleftrightarrow>
      row_bytes ml page \<le> ?limit \<and>
      (\<exists>t. fold_res (add_dynamic_bytes ?limit) ?amounts (row_bytes ml page) = Ok t)"
    by (auto simp: validate_response_dynamic_bytes_def check_dynamic_bytes_def is_ok_iff bind_res_Ok_iff
        Let_def)
  also have "\<dots> \<longleftrightarrow> row_bytes ml page + sum_list ?amounts \<le> ?limit"
    by (rule add_dynamic_bytes_budget [OF assms])
  also have "\<dots> \<longleftrightarrow> ?rows + sum_list ?amounts \<le> ?limit"
    using assms by (auto simp: rows min_def)
  finally show ?thesis
    by (auto simp: validate_response_counts_def is_ok_iff)
qed

text \<open>
  The memory a response holds, read off the types of its rows: the byte strings that are present,
  the storage of the vectors that hold uncles and withdrawals, and the storage of the rows. The
  arithmetic is that of the natural numbers.
\<close>

definition present :: "'a option list \<Rightarrow> 'a list" where
  "present values = concat (map (\<lambda>v. case v of None \<Rightarrow> [] | Some x \<Rightarrow> [x]) values)"

definition withdrawal_strings :: "Withdrawal \<Rightarrow> bytes list" where
  "withdrawal_strings w = present [wd_index w, wd_validator_index w, wd_address w, wd_amount w]"

definition block_strings :: "SourceBlock \<Rightarrow> bytes list" where
  "block_strings b =
     present [sb_hash b, sb_parent_hash b, sb_timestamp b, sb_nonce b, sb_sha3_uncles b, sb_logs_bloom b,
       sb_transactions_root b, sb_state_root b, sb_receipts_root b, sb_miner b, sb_difficulty b,
       sb_total_difficulty b, sb_extra_data b, sb_size b, sb_gas_limit b, sb_gas_used b, sb_base_fee_per_gas b,
       sb_blob_gas_used b, sb_excess_blob_gas b, sb_parent_beacon_block_root b, sb_withdrawals_root b,
       sb_mix_hash b, sb_send_count b, sb_send_root b] @
     concat (present [sb_uncles b]) @ concat (map withdrawal_strings (concat (present [sb_withdrawals b])))"

definition log_strings :: "SourceLog \<Rightarrow> bytes list" where
  "log_strings log =
     present ([sl_transaction_hash log, sl_block_hash log, sl_address log, sl_data log] @ sl_topics log)"

definition page_strings :: "SourcePage \<Rightarrow> bytes list" where
  "page_strings page =
     concat (map block_strings (sp_blocks page)) @ concat (map log_strings (sp_logs page)) @
     concat (map (\<lambda>g. [rg_hash g, rg_first_parent_hash g]) (present [sp_rollback_guard page]))"

definition block_vectors :: "MemoryLayout \<Rightarrow> SourceBlock \<Rightarrow> nat list" where
  "block_vectors ml b =
     map (\<lambda>us. ml_hash_size ml * ml_uncles_capacity ml us) (present [sb_uncles b]) @
     map (\<lambda>ws. ml_withdrawal_size ml * ml_withdrawals_capacity ml ws) (present [sb_withdrawals b])"

definition page_memory :: "MemoryLayout \<Rightarrow> SourcePage \<Rightarrow> nat" where
  "page_memory ml page =
     ml_block_size ml * ml_blocks_capacity ml (sp_blocks page) + ml_log_size ml * ml_logs_capacity ml (sp_logs page) +
     sum_list (concat (map (block_vectors ml) (sp_blocks page))) + sum_list (map length (page_strings page))"

text \<open>No field is left out: a row without byte strings and vectors has no field that could hold one.\<close>

lemma present_simps [simp]:
  "present [] = []" "present (None # vs) = present vs" "present (Some x # vs) = x # present vs"
  by (simp_all add: present_def)

lemma present_Nil_iff: "present vs = [] \<longleftrightarrow> set vs \<subseteq> {None}"
  by (auto simp: present_def split: option.splits)

lemma block_strings_complete:
  assumes "block_strings b = []" and "sb_uncles b = None" and "sb_withdrawals b = None"
  shows "b = \<lparr>sb_number = sb_number b, sb_hash = None, sb_parent_hash = None, sb_timestamp = None, sb_nonce = None,
    sb_sha3_uncles = None, sb_logs_bloom = None, sb_transactions_root = None, sb_state_root = None,
    sb_receipts_root = None, sb_miner = None, sb_difficulty = None, sb_total_difficulty = None,
    sb_extra_data = None, sb_size = None, sb_gas_limit = None, sb_gas_used = None, sb_base_fee_per_gas = None,
    sb_blob_gas_used = None, sb_excess_blob_gas = None, sb_parent_beacon_block_root = None,
    sb_withdrawals_root = None, sb_mix_hash = None, sb_send_count = None, sb_send_root = None,
    sb_uncles = None, sb_withdrawals = None\<rparr>"
  using assms by (cases b) (simp add: block_strings_def present_Nil_iff)

lemma log_strings_complete:
  assumes "log_strings log = []"
  shows "log = \<lparr>sl_removed = sl_removed log, sl_log_index = sl_log_index log,
    sl_transaction_index = sl_transaction_index log, sl_transaction_hash = None, sl_block_hash = None,
    sl_block_number = sl_block_number log, sl_address = None, sl_data = None,
    sl_topics = replicate (length (sl_topics log)) None\<rparr>"
  using assms by (cases log) (auto simp: log_strings_def present_Nil_iff intro!: replicate_eqI)

text \<open>The amounts the code adds up are these, each vector's storage cut off at the largest integer.\<close>

lemma opt_bytes_conv: "opt_bytes v = map length (present [v])"
  by (cases v) (simp_all add: opt_bytes_def)

lemma present_Cons: "present (v # vs) = present [v] @ present vs"
  by (cases v) simp_all

lemma sum_opt_bytes: "sum_list (concat (map opt_bytes vs)) = sum_list (map length (present vs))"
proof (induction vs)
  case (Cons v vs)
  then show ?case by (simp add: opt_bytes_conv present_Cons [of v vs])
qed simp

lemma withdrawals_amount:
  "sum_list (concat (map (\<lambda>w. opt_bytes (wd_index w) @ opt_bytes (wd_validator_index w) @
      opt_bytes (wd_address w) @ opt_bytes (wd_amount w)) ws)) =
    sum_list (map length (concat (map withdrawal_strings ws)))"
  by (induction ws) (simp_all add: withdrawal_strings_def opt_bytes_conv present_Cons [of _ "_ # _"])

lemma log_amount: "sum_list (log_bytes log) = sum_list (map length (log_strings log))"
  by (simp add: log_bytes_def log_strings_def opt_bytes_conv sum_opt_bytes present_Cons [of _ "_ # _"]
      present_Cons [of _ "sl_topics log"])

lemma block_amount:
  "sum_list (block_bytes ml b) =
     sum_list (map (min usize_max) (block_vectors ml b)) + sum_list (map length (block_strings b))"
proof -
  have uncles: "sum_list (uncle_bytes ml us) =
      sum_list (map (min usize_max) (map (\<lambda>us. ml_hash_size ml * ml_uncles_capacity ml us) (present [us]))) +
      sum_list (map length (concat (present [us])))" for us
    by (cases us) (simp_all add: uncle_bytes_def usize_saturating_mul_def min.commute)
  have withdrawals: "sum_list (withdrawal_bytes ml ws) =
      sum_list (map (min usize_max) (map (\<lambda>ws. ml_withdrawal_size ml * ml_withdrawals_capacity ml ws) (present [ws]))) +
      sum_list (map length (concat (map withdrawal_strings (concat (present [ws])))))" for ws
    by (cases ws) (simp_all add: withdrawal_bytes_def usize_saturating_mul_def min.commute withdrawals_amount)
  show ?thesis
    unfolding block_bytes_def block_strings_def block_vectors_def opt_bytes_conv present_Cons [of _ "_ # _"] map_append
      sum_list_append uncles withdrawals by simp
qed

lemma sum_amounts:
  assumes "\<And>x. sum_list (f x) = sum_list (map (min m) (v x)) + sum_list (map length (w x))"
  shows "sum_list (concat (map f xs)) =
    sum_list (map (min m) (concat (map v xs))) + sum_list (map length (concat (map w xs)))"
  by (induction xs) (simp_all add: assms)

lemma sum_min_le_iff:
  assumes "limit < (m :: nat)"
  shows "n + sum_list (map (min m) vs) \<le> limit \<longleftrightarrow> n + sum_list vs \<le> limit"
proof (induction vs arbitrary: n)
  case (Cons v vs)
  show ?case
  proof (cases "v < m")
    case True
    then show ?thesis using Cons.IH [of "n + v"] by (simp add: min_def ac_simps)
  next
    case False
    then show ?thesis using assms by (simp add: min_def)
  qed
qed simp

lemma page_amount:
  "sum_list (concat (map (block_bytes ml) (sp_blocks page))) + sum_list (concat (map log_bytes (sp_logs page))) +
     sum_list (guard_bytes (sp_rollback_guard page)) =
   sum_list (map (min usize_max) (concat (map (block_vectors ml) (sp_blocks page)))) +
     sum_list (map length (page_strings page))"
proof -
  have logs: "sum_list (concat (map log_bytes ls)) = sum_list (map length (concat (map log_strings ls)))" for ls
    by (induction ls) (simp_all add: log_amount)
  have guard: "sum_list (guard_bytes g) =
      sum_list (map length (concat (map (\<lambda>g. [rg_hash g, rg_first_parent_hash g]) (present [g]))))" for g
    by (cases g) (simp_all add: guard_bytes_def)
  show ?thesis
    unfolding sum_amounts [OF block_amount] page_strings_def logs guard map_append sum_list_append by simp
qed

text \<open>
  C35: The response policy is a sound and complete byte budget. For a byte limit below the largest
  machine integer, a response is admitted exactly when its block and log rows stay within their
  limits and the memory it holds, every byte string of every row and of the rollback guard and
  the storage of its rows and vectors added up without overflow, stays within the byte limit:
  nothing is left out of the count, nothing is counted twice and saturation never hides an
  overflow.
\<close>

theorem response_budget_exact:
  assumes "srl_max_dynamic_bytes limits < usize_max"
  shows "is_ok (validate_response_counts ml page limits) \<longleftrightarrow>
    length (sp_blocks page) \<le> srl_max_blocks limits \<and> length (sp_logs page) \<le> srl_max_logs limits \<and>
    page_memory ml page \<le> srl_max_dynamic_bytes limits"
proof -
  let ?rows = "ml_block_size ml * ml_blocks_capacity ml (sp_blocks page) + ml_log_size ml * ml_logs_capacity ml (sp_logs page)"
  let ?strings = "sum_list (map length (page_strings page))" and ?vectors = "concat (map (block_vectors ml) (sp_blocks page))"
  have "?rows + sum_list (concat (map (block_bytes ml) (sp_blocks page))) + sum_list (concat (map log_bytes (sp_logs page))) +
      sum_list (guard_bytes (sp_rollback_guard page)) = ?rows + ?strings + sum_list (map (min usize_max) ?vectors)"
    using page_amount [of ml page] by linarith
  moreover have "page_memory ml page = ?rows + ?strings + sum_list ?vectors" by (simp add: page_memory_def)
  ultimately show ?thesis
    unfolding response_budget [OF assms] by (simp only: sum_min_le_iff [OF assms])
qed

theorem response_budget_exact_witness:
  "srl_max_dynamic_bytes default_response_limits < usize_max \<and>
   is_ok (validate_response_counts
     \<lparr>ml_block_size = 900, ml_log_size = 200, ml_hash_size = 32, ml_withdrawal_size = 64,
      ml_blocks_capacity = length, ml_logs_capacity = length, ml_uncles_capacity = length,
      ml_withdrawals_capacity = length\<rparr> sample_page default_response_limits)"
proof -
  have limit: "srl_max_dynamic_bytes default_response_limits < usize_max"
    by (simp add: default_response_limits_def MAX_DYNAMIC_BYTES_PER_RESPONSE_def)
  show ?thesis
    unfolding response_budget_exact [OF limit]
    by (simp add: default_response_limits_def MAX_DYNAMIC_BYTES_PER_RESPONSE_def
        MAX_BLOCKS_PER_RESPONSE_def MAX_LOGS_PER_RESPONSE_def MAX_BLOCKS_PER_QUERY_def
        MAX_LOGS_PER_QUERY_def sample_page_def sample_row_def sample_log_row_def page_memory_def
        page_strings_def block_strings_def block_vectors_def log_strings_def)
qed

end
