(* ===== verification/Source_Engine.thy ===== *)
theory Source_Engine
  imports Source_Limits
begin

text \<open>
  The source engine of \<open>hypersync/src/source_engine.rs\<close>: one delivery in flight, replayed until it
  is acknowledged; pages fetched, admitted, checked against retained history and normalised;
  forks resolved by a binary search for the common ancestor and announced by a reorg control
  that precedes the replacement data.

  The data source answers queries over time, and two equal queries may be answered
  differently. A computation that queries the source is therefore a function of the number of
  answers already consumed: \<open>'a io\<close> takes the next answer index and returns its result with
  the new index. The parameters of the engine's environment are the source, the filter builder,
  the header codec, the memory layout, and the encoded length of a delivery.
\<close>

section \<open>State\<close>

record PendingDelivery =
  pd_delivery :: Delivery
  pd_rollback_guard :: "RollbackGuard option"
  pd_advances_source :: bool

record SourceEngine =
  se_desired_state :: ApplyDesiredState
  se_committed_next_block :: u64
  se_committed_sequence :: u64
  se_activation_block :: u64
  se_owner_backfill_activation_block :: "u64 option"
  se_coverage_head :: "BlockRef option"
  se_canonical :: CanonicalTracker
  se_previous_guard :: "RollbackGuard option"
  se_max_delivery_bytes :: usize
  se_response_limits :: SourceResponseLimits
  se_pending :: "PendingDelivery option"
  se_queued :: "PendingDelivery option"

record SourceResume =
  sr_next_block :: u64
  sr_sequence :: u64
  sr_activation_block :: u64
  sr_owner_backfill_activation_block :: "u64 option"
  sr_canonical_blocks :: "BlockRef list"
  sr_provider_checkpoint :: "RollbackGuard option"
  sr_coverage_head :: "BlockRef option"

record 'f EngineEnv =
  env_builder :: "'f LogFilterBuilder"
  env_codec :: HeaderCodec
  env_layout :: MemoryLayout
  env_encoded_len :: "Delivery \<Rightarrow> usize"
  env_query :: "nat \<Rightarrow> 'f Query \<Rightarrow> SourceError + SourcePage"

type_synonym PreparedPage =
  "Delivery \<times> RollbackGuard option \<times> CanonicalTracker \<times> ReorgDelta option"

section \<open>Computations that query the source\<close>

type_synonym 'a io = "nat \<Rightarrow> (SourceEngineError + 'a) \<times> nat"

definition pure_io :: "SourceEngineError + 'a \<Rightarrow> 'a io" where
  "pure_io r = (\<lambda>k. (r, k))"

definition bind_io :: "'a io \<Rightarrow> ('a \<Rightarrow> 'b io) \<Rightarrow> 'b io" where
  "bind_io m f = (\<lambda>k. case m k of (Inl e, k') \<Rightarrow> (Inl e, k') | (Inr x, k') \<Rightarrow> f x k')"

definition query_io :: "'f EngineEnv \<Rightarrow> 'f Query \<Rightarrow> SourcePage io" where
  "query_io env q = (\<lambda>k. (map_err Source (env_query env k q), Suc k))"

section \<open>Resume state\<close>

definition source_resume_new :: "u64 \<Rightarrow> u64 \<Rightarrow> u64 \<Rightarrow> SourceResume" where
  "source_resume_new next_block seq activation_block =
     \<lparr>sr_next_block = next_block, sr_sequence = seq, sr_activation_block = activation_block,
      sr_owner_backfill_activation_block = Some activation_block, sr_canonical_blocks = [],
      sr_provider_checkpoint = None, sr_coverage_head = None\<rparr>"

definition with_canonical_blocks :: "SourceResume \<Rightarrow> BlockRef list \<Rightarrow> SourceResume" where
  "with_canonical_blocks r canonical_blocks = r\<lparr>sr_canonical_blocks := canonical_blocks\<rparr>"

definition with_provider_checkpoint :: "SourceResume \<Rightarrow> RollbackGuard option \<Rightarrow> SourceResume" where
  "with_provider_checkpoint r provider_checkpoint = r\<lparr>sr_provider_checkpoint := provider_checkpoint\<rparr>"

definition with_coverage_head :: "SourceResume \<Rightarrow> BlockRef option \<Rightarrow> SourceResume" where
  "with_coverage_head r coverage_head = r\<lparr>sr_coverage_head := coverage_head\<rparr>"

definition rollback_guard_at :: "BlockRef \<Rightarrow> SourceEngineError + RollbackGuard" where
  "rollback_guard_at b =
     (if length (br_hash b) \<noteq> 32
        then Err (CanonicalFault (InvalidHashWidth ''hash'' (length (br_hash b))))
      else if length (br_parent_hash b) \<noteq> 32
        then Err (CanonicalFault (InvalidHashWidth ''parent_hash'' (length (br_parent_hash b))))
      else
        bind_res (ok_or (i64_try_from_u64 (br_timestamp b)) (BlockTimestampOverflow (br_timestamp b)))
          (\<lambda>timestamp.
        Ok \<lparr>rg_block_number = br_number b, rg_timestamp = timestamp, rg_hash = br_hash b,
            rg_first_block_number = br_number b, rg_first_parent_hash = br_parent_hash b\<rparr>))"

definition validate_resume_state ::
    "CanonicalTracker \<Rightarrow> u64 \<Rightarrow> RollbackGuard option \<Rightarrow> SourceEngineError + RollbackGuard option" where
  "validate_resume_state canonical next_block provider_checkpoint =
     (if is_some_and (\<lambda>g. rg_block_number g < rg_first_block_number g) provider_checkpoint
        then Err (ResumeGuardMismatch ''first_block_number'')
      else
        (case tip canonical of
           None \<Rightarrow>
             (case provider_checkpoint of
                None \<Rightarrow> Ok None
              | Some g \<Rightarrow>
                  (if sint (rg_timestamp g) < 0 then Err (ResumeGuardMismatch ''timestamp'')
                   else
                     bind_res (ok_or (checked_add (rg_block_number g) 1) EngineBlockNumberOverflow) (\<lambda>expected.
                     if next_block \<noteq> expected then Err (ResumeCursorMismatch expected next_block)
                     else Ok (Some g))))
         | Some t \<Rightarrow>
             bind_res (ok_or (checked_add (br_number t) 1) EngineBlockNumberOverflow) (\<lambda>expected.
             if next_block \<noteq> expected then Err (ResumeCursorMismatch expected next_block)
             else
               (case provider_checkpoint of
                  None \<Rightarrow> bind_res (rollback_guard_at t) (\<lambda>g. Ok (Some g))
                | Some g \<Rightarrow>
                    (if rg_block_number g \<noteq> br_number t then Err (ResumeGuardMismatch ''block_number'')
                     else if rg_hash g \<noteq> br_hash t then Err (ResumeGuardMismatch ''hash'')
                     else
                       bind_res (ok_or (i64_try_from_u64 (br_timestamp t))
                           (BlockTimestampOverflow (br_timestamp t))) (\<lambda>timestamp.
                       if rg_timestamp g \<noteq> timestamp then Err (ResumeGuardMismatch ''timestamp'')
                       else Ok (Some g)))))))"

definition validate_coverage_state ::
    "CanonicalTracker \<Rightarrow> u64 \<Rightarrow> BlockRef option \<Rightarrow> SourceEngineError + unit" where
  "validate_coverage_state canonical next_block coverage_head =
     (case coverage_head of
        None \<Rightarrow> Ok ()
      | Some head \<Rightarrow>
          bind_res (map_err CanonicalFault (apply_blocks (tracker_new 1) [head])) (\<lambda>_.
          bind_res (ok_or (checked_add (br_number head) 1) EngineBlockNumberOverflow) (\<lambda>coverage_successor.
          if coverage_successor < next_block
            then Err (CoverageCursorMismatch coverage_successor next_block)
          else if is_some_and (\<lambda>scanned. scanned \<noteq> head) (block canonical (br_number head))
            then Err (CoverageBoundaryConflict (br_number head))
          else Ok ())))"

definition validate_coverage_boundary ::
    "BlockRef option \<Rightarrow> BlockRef list \<Rightarrow> BlockRef option \<Rightarrow> SourceEngineError + unit" where
  "validate_coverage_boundary coverage_head page_blocks initial_anchor =
     (case coverage_head of
        None \<Rightarrow> Ok ()
      | Some head \<Rightarrow>
          (let observed = or_else (find (\<lambda>b. br_number b = br_number head) page_blocks)
                 (Option.bind initial_anchor (\<lambda>b. if br_number b = br_number head then Some b else None)) in
           if is_some_and (\<lambda>b. b \<noteq> head) observed
             then Err (CoverageBoundaryConflict (br_number head))
           else if is_some_and (\<lambda>first. br_number first = saturating_add (br_number head) 1 \<and>
               br_parent_hash first \<noteq> br_hash head) (first_opt page_blocks)
             then Err (CoverageBoundaryConflict (br_number head))
           else Ok ()))"

section \<open>Construction\<close>

definition engine_new :: "ApplyDesiredState \<Rightarrow> u64 \<Rightarrow> u64 \<Rightarrow> usize \<Rightarrow> SourceEngine" where
  "engine_new desired_state committed_next_block activation_block reorg_depth =
     \<lparr>se_desired_state = desired_state, se_committed_next_block = committed_next_block,
      se_committed_sequence = 0, se_activation_block = activation_block,
      se_owner_backfill_activation_block = Some activation_block, se_coverage_head = None,
      se_canonical = tracker_new reorg_depth, se_previous_guard = None,
      se_max_delivery_bytes = MAX_DELIVERY_SIZE_BYTES, se_response_limits = default_response_limits,
      se_pending = None, se_queued = None\<rparr>"

definition restored_tracker :: "usize \<Rightarrow> BlockRef list \<Rightarrow> SourceEngineError + CanonicalTracker" where
  "restored_tracker reorg_depth canonical_blocks =
     (if canonical_blocks = [] then Ok (tracker_new reorg_depth)
      else bind_res (map_err CanonicalFault (apply_blocks (tracker_new reorg_depth) canonical_blocks))
             (\<lambda>(canonical, _). Ok canonical))"

definition restore ::
    "ApplyDesiredState \<Rightarrow> SourceResume \<Rightarrow> usize \<Rightarrow> SourceEngineError + SourceEngine" where
  "restore desired_state resume reorg_depth =
     bind_res (restored_tracker reorg_depth (sr_canonical_blocks resume)) (\<lambda>canonical.
     bind_res (validate_resume_state canonical (sr_next_block resume) (sr_provider_checkpoint resume)) (\<lambda>previous_guard.
     bind_res (validate_coverage_state canonical (sr_next_block resume) (sr_coverage_head resume)) (\<lambda>_.
     Ok \<lparr>se_desired_state = desired_state, se_committed_next_block = sr_next_block resume,
         se_committed_sequence = sr_sequence resume, se_activation_block = sr_activation_block resume,
         se_owner_backfill_activation_block = sr_owner_backfill_activation_block resume,
         se_coverage_head = sr_coverage_head resume, se_canonical = canonical,
         se_previous_guard = previous_guard, se_max_delivery_bytes = MAX_DELIVERY_SIZE_BYTES,
         se_response_limits = default_response_limits, se_pending = None, se_queued = None\<rparr>)))"

definition with_max_delivery_bytes :: "SourceEngine \<Rightarrow> usize \<Rightarrow> SourceEngineError + SourceEngine" where
  "with_max_delivery_bytes eng max_delivery_bytes =
     (if max_delivery_bytes = 0 \<or> MAX_DELIVERY_SIZE_BYTES < max_delivery_bytes
        then Err (InvalidDeliverySizeLimit max_delivery_bytes MAX_DELIVERY_SIZE_BYTES)
      else Ok (eng\<lparr>se_max_delivery_bytes := max_delivery_bytes\<rparr>))"

definition with_response_limits :: "SourceEngine \<Rightarrow> SourceResponseLimits \<Rightarrow> SourceEngine" where
  "with_response_limits eng response_limits = eng\<lparr>se_response_limits := response_limits\<rparr>"

section \<open>Queries\<close>

definition admit_page ::
    "'f EngineEnv \<Rightarrow> SourceEngine \<Rightarrow> u64 \<Rightarrow> u64 \<Rightarrow> SourcePage \<Rightarrow> SourceEngineError + SourcePage" where
  "admit_page env eng from_block to_block_excl page =
     bind_res (validate_response_counts (env_layout env) page (se_response_limits eng)) (\<lambda>_.
     if sp_next_block page \<le> from_block then Err (NoProgress from_block (sp_next_block page))
     else
       bind_res (map_err InvalidPage (validate_source_page page from_block to_block_excl)) (\<lambda>_.
       Ok page))"

definition query_page ::
    "'f EngineEnv \<Rightarrow> SourceEngine \<Rightarrow> u64 \<Rightarrow> u64 \<Rightarrow> QueryLimits \<Rightarrow> SourcePage io" where
  "query_page env eng from_block to_block_excl limits =
     bind_io (pure_io (map_err QueryPlan (compile_query_with_limits (env_builder env)
         (se_desired_state eng) from_block (Some to_block_excl) (ql_max_blocks limits) (ql_max_logs limits)))) (\<lambda>q.
     bind_io (query_io env q) (\<lambda>page.
     pure_io (admit_page env eng from_block to_block_excl page)))"

definition single_block_query :: "u64 \<Rightarrow> u64 \<Rightarrow> 'f Query" where
  "single_block_query number stop =
     \<lparr>q_from_block = number, q_to_block_excl = Some stop, q_include_all_blocks = True,
      q_all_log_fields = False, q_max_num_blocks = Some 1, q_max_num_logs = Some 1, q_logs = [],
      q_block_fields = SomeBlockFields [FieldNumber, FieldHash, FieldParentHash, FieldTimestamp]\<rparr>"

definition query_canonical_block :: "'f EngineEnv \<Rightarrow> SourceEngine \<Rightarrow> u64 \<Rightarrow> BlockRef io" where
  "query_canonical_block env eng number =
     bind_io (pure_io (ok_or (checked_add number 1) EngineBlockNumberOverflow)) (\<lambda>stop.
     bind_io (query_io env (single_block_query number stop)) (\<lambda>page.
     bind_io (pure_io (admit_page env eng number stop page)) (\<lambda>page.
     pure_io (bind_res (ok_or (first_opt (sp_blocks page)) (EnginePanic ''validated single-block page''))
       (\<lambda>b. map_err Normalize (block_ref b))))))"

definition query_canonical_anchor ::
    "'f EngineEnv \<Rightarrow> SourceEngine \<Rightarrow> SourcePage \<Rightarrow> BlockRef option io" where
  "query_canonical_anchor env eng page =
     (if \<not> is_empty (se_canonical eng) then pure_io (Ok None)
      else
        (case sp_rollback_guard page of
           None \<Rightarrow> pure_io (Ok None)
         | Some guard \<Rightarrow>
             (case checked_sub (rg_first_block_number guard) 1 of
                None \<Rightarrow> pure_io (Ok None)
              | Some anchor_number \<Rightarrow>
                  bind_io (pure_io (ok_or (checked_add anchor_number 1) EngineBlockNumberOverflow)) (\<lambda>anchor_end.
                  bind_io (query_io env (single_block_query anchor_number anchor_end)) (\<lambda>anchor_page.
                  bind_io (pure_io (admit_page env eng anchor_number anchor_end anchor_page)) (\<lambda>anchor_page.
                  bind_io (pure_io (bind_res (ok_or (first_opt (sp_blocks anchor_page))
                      (EnginePanic ''validated one-block anchor page'')) (\<lambda>b. map_err Normalize (block_ref b)))) (\<lambda>anchor.
                  pure_io
                    (if br_hash anchor \<noteq> rg_first_parent_hash guard
                     then Err (CanonicalFault (UnknownParent (rg_first_block_number guard) (rg_first_parent_hash guard)))
                     else Ok (Some anchor)))))))))"

definition rollback_detected :: "SourceEngine \<Rightarrow> SourcePage \<Rightarrow> bool" where
  "rollback_detected eng page =
     (case (se_previous_guard eng, sp_rollback_guard page) of
        (Some previous, Some current) \<Rightarrow>
          rg_first_block_number current \<le> saturating_add (rg_block_number previous) 1 \<and>
          rg_first_parent_hash current \<noteq> rg_hash previous
      | _ \<Rightarrow> False)"

section \<open>Preparing a batch\<close>

definition progress_id :: "u64 \<Rightarrow> u64 \<Rightarrow> bytes" where
  "progress_id revision next_block =
     as_bytes (''source-progress:'' @ decimal (unat revision) @ '':'' @ decimal (unat next_block))"

definition finish_delivery ::
    "SourceEngine \<Rightarrow> bytes \<Rightarrow> Delivery \<Rightarrow> SourceEngineError + Delivery" where
  "finish_delivery eng provider_checkpoint delivery =
     bind_res (ok_or (del_cursor delivery) MissingCursor) (\<lambda>cursor.
     let cursor = cursor\<lparr>cur_provider_checkpoint := provider_checkpoint,
           cur_owner_backfill_activation_block := se_owner_backfill_activation_block eng,
           cur_canonical_head := or_else (cur_canonical_head cursor) (se_coverage_head eng)\<rparr>;
         delivery = delivery\<lparr>del_cursor := Some cursor\<rparr>;
         progress_block = Option.bind (cur_canonical_head cursor)
           (\<lambda>head. if se_coverage_head eng \<noteq> Some head then Some head else None) in
     Ok (case del_payload delivery of
           Some (PayloadData data) \<Rightarrow>
             (if dp_records data = [] then
                delivery\<lparr>del_payload := Some (PayloadBarrier
                    \<lparr>bar_id = progress_id (ads_new_revision (se_desired_state eng)) (cur_next_block cursor),
                     bar_block = progress_block\<rparr>),
                  del_checkpoint_neutral := progress_block = None\<rparr>
              else delivery)
         | _ \<Rightarrow> delivery))"

definition prepare_batch ::
    "'f EngineEnv \<Rightarrow> SourceEngine \<Rightarrow> SourcePage \<Rightarrow> u64 \<Rightarrow> BlockRef option \<Rightarrow> SourceEngineError + PreparedPage" where
  "prepare_batch env eng page seq initial_anchor =
     bind_res (map_err Normalize (map_res block_ref (sp_blocks page))) (\<lambda>page_blocks.
     bind_res
       (if initial_anchor \<noteq> None \<or>
           is_some_and (\<lambda>coverage. is_empty (se_canonical eng) \<or>
             se_committed_next_block eng \<le> br_number coverage) (se_coverage_head eng)
        then validate_coverage_boundary (se_coverage_head eng) page_blocks initial_anchor
        else Ok ()) (\<lambda>_.
     bind_res (map_err Normalize (normalize_page_at (env_codec env) (se_desired_state eng) seq page
         (se_activation_block eng))) (\<lambda>delivery.
     bind_res
       (case initial_anchor of
          Some anchor \<Rightarrow>
            (if is_empty (se_canonical eng)
             then bind_res (map_err CanonicalFault (apply_blocks (se_canonical eng) [anchor]))
                    (\<lambda>(canonical, _). Ok canonical)
             else Ok (se_canonical eng))
        | None \<Rightarrow> Ok (se_canonical eng)) (\<lambda>canonical.
     bind_res (map_err CanonicalFault (apply_blocks canonical page_blocks)) (\<lambda>(canonical, reorg).
     bind_res (map_err Normalize (encode_source_checkpoint (sp_rollback_guard page)
         (se_activation_block eng) (ct_blocks canonical))) (\<lambda>provider_checkpoint.
     bind_res (finish_delivery eng provider_checkpoint delivery) (\<lambda>delivery.
     Ok (delivery, sp_rollback_guard page, canonical, reorg))))))))"

definition reorg_delivery :: "SourceEngine \<Rightarrow> u64 \<Rightarrow> ReorgDelta \<Rightarrow> SourceEngineError + Delivery" where
  "reorg_delivery eng seq reorg =
     bind_res (ok_or (checked_add (br_number (rd_common_ancestor reorg)) 1) EngineBlockNumberOverflow) (\<lambda>next_block.
     bind_res (rollback_guard_at (rd_common_ancestor reorg)) (\<lambda>rollback_guard.
     bind_res (map_err Normalize (encode_source_checkpoint (Some rollback_guard) (se_activation_block eng)
         (takeWhile (\<lambda>b. br_number b \<le> br_number (rd_common_ancestor reorg)) (ct_blocks (se_canonical eng))))) (\<lambda>checkpoint.
     Ok \<lparr>del_session_id = ads_session_id (se_desired_state eng), del_sequence = seq,
         del_query_revision = ads_new_revision (se_desired_state eng),
         del_delivery_token = u64_to_be_bytes seq,
         del_cursor = Some \<lparr>cur_chain_id = ads_chain_id (se_desired_state eng),
           cur_query_revision = ads_new_revision (se_desired_state eng), cur_next_block = next_block,
           cur_canonical_head = Some (rd_common_ancestor reorg), cur_batch_sequence = seq,
           cur_provider_checkpoint = checkpoint,
           cur_owner_backfill_activation_block = se_owner_backfill_activation_block eng\<rparr>,
         del_payload = Some (PayloadReorg \<lparr>ro_common_ancestor = Some (rd_common_ancestor reorg),
           ro_old_tip = Some (rd_old_tip reorg), ro_new_tip = Some (rd_new_tip reorg)\<rparr>),
         del_checkpoint_neutral = False\<rparr>)))"

definition set_delivery_sequence :: "Delivery \<Rightarrow> u64 \<Rightarrow> SourceEngineError + Delivery" where
  "set_delivery_sequence delivery seq =
     bind_res (ok_or (del_cursor delivery) MissingCursor) (\<lambda>cursor.
     Ok (delivery\<lparr>del_sequence := seq, del_delivery_token := u64_to_be_bytes seq,
       del_cursor := Some (cursor\<lparr>cur_batch_sequence := seq\<rparr>)\<rparr>))"

section \<open>Recovery from a fork\<close>

text \<open>The binary search for the newest retained block the source still agrees with.\<close>

definition midpoint :: "u64 \<Rightarrow> u64 \<Rightarrow> u64" where
  "midpoint low high = low + (high - low) div 2"

lemma unat_midpoint:
  assumes "low \<le> high"
  shows "unat (midpoint low high) = unat low + (unat high - unat low) div 2"
proof -
  have le: "unat low \<le> unat high" using assms by (simp add: u64_order)
  have half: "unat ((high - low) div 2) = (unat high - unat low) div 2"
    using assms by (simp add: unat_div unat_sub)
  have "unat low + (unat high - unat low) div 2 < 18446744073709551616"
    using unat_u64_bound [of high] le by linarith
  then show ?thesis
    unfolding midpoint_def unat_word_ariths(1) half by simp
qed

lemma midpoint_bounds: "low \<le> high \<Longrightarrow> low \<le> midpoint low high \<and> midpoint low high \<le> high"
  using unat_midpoint [of low high] by (simp add: u64_order)

function probe :: "'f EngineEnv \<Rightarrow> SourceEngine \<Rightarrow> u64 \<Rightarrow> u64 \<Rightarrow> u64 option \<Rightarrow> u64 option io" where
  "probe env eng low high common_ancestor =
     (if low \<le> high then
        (let candidate = midpoint low high in
         bind_io (query_canonical_block env eng candidate) (\<lambda>observed.
         case block (se_canonical eng) candidate of
           None \<Rightarrow> pure_io (Err (EnginePanic ''binary probe stays inside retained canonical history''))
         | Some expected \<Rightarrow>
             (if br_hash observed = br_hash expected then
                (if observed \<noteq> expected
                 then pure_io (Err (CanonicalFault (ConflictingBlockMetadata candidate)))
                 else
                   (case checked_add candidate 1 of
                      None \<Rightarrow> pure_io (Ok (Some candidate))
                    | Some next_low \<Rightarrow> probe env eng next_low high (Some candidate)))
              else if candidate = 0 then pure_io (Ok common_ancestor)
              else probe env eng low (candidate - 1) common_ancestor)))
      else pure_io (Ok common_ancestor))"
  by pat_completeness auto
termination
proof (relation "measure (\<lambda>(env, eng, low, high, c). Suc (unat high) - unat low)", goal_cases)
  case 1
  then show ?case by simp
next
  case (2 env eng low high c candidate observed expected next_low)
  then have "unat next_low = Suc (unat (midpoint low high))" by (simp add: u64_simps)
  with midpoint_bounds [OF 2(1)] show ?case by (simp add: u64_order) linarith
next
  case (3 env eng low high c candidate observed expected)
  then have c: "candidate = midpoint low high" "candidate \<noteq> 0" by simp_all
  then have "unat (candidate - 1) = unat candidate - 1" "0 < unat candidate"
    by (simp_all add: unat_minus_one unat_gt_0)
  with midpoint_bounds [OF 3(1)] show ?case unfolding c(1) [symmetric] by (simp add: u64_order) linarith
qed

declare probe.simps [simp del]

definition recover_rollback ::
    "'f EngineEnv \<Rightarrow> SourceEngine \<Rightarrow> u64 \<Rightarrow> u64 \<Rightarrow> QueryLimits \<Rightarrow> PreparedPage io" where
  "recover_rollback env eng to_block_excl seq limits =
     bind_io (pure_io (ok_or (se_previous_guard eng) MissingRollbackGuard)) (\<lambda>previous.
     bind_io (pure_io (ok_or (map_option br_number (first_opt (ct_blocks (se_canonical eng))))
         (CanonicalFault (HistoryExhausted (rg_block_number previous))))) (\<lambda>oldest.
     bind_io (pure_io (ok_or (map_option (\<lambda>b. min (br_number b) (rg_block_number previous)) (tip (se_canonical eng)))
         (CanonicalFault (HistoryExhausted (rg_block_number previous))))) (\<lambda>newest.
     bind_io (probe env eng oldest newest None) (\<lambda>found.
     bind_io (pure_io (ok_or found (CanonicalFault (HistoryExhausted (saturating_sub oldest 1))))) (\<lambda>common_ancestor.
     bind_io (pure_io (ok_or (checked_add common_ancestor 1) EngineBlockNumberOverflow)) (\<lambda>replacement_start.
     bind_io (query_page env eng replacement_start to_block_excl limits) (\<lambda>page.
     pure_io (prepare_batch env eng page seq None))))))))"

section \<open>Batches and acknowledgement\<close>

text \<open>
  The loop of \<open>next_batch\<close>: the initial anchor is fetched while none is known, and the limits
  shrink until the encoded delivery fits.
\<close>

function batch_loop ::
    "'f EngineEnv \<Rightarrow> SourceEngine \<Rightarrow> u64 \<Rightarrow> u64 \<Rightarrow> QueryLimits \<Rightarrow> BlockRef option \<Rightarrow> PreparedPage io" where
  "batch_loop env eng to_block_excl seq limits initial_anchor =
     bind_io (query_page env eng (se_committed_next_block eng) to_block_excl limits) (\<lambda>page.
     bind_io (if initial_anchor = None then query_canonical_anchor env eng page
              else pure_io (Ok initial_anchor)) (\<lambda>initial_anchor.
     bind_io (if rollback_detected eng page then recover_rollback env eng to_block_excl seq limits
              else pure_io (prepare_batch env eng page seq initial_anchor)) (\<lambda>prepared.
     let encoded_len = env_encoded_len env (fst prepared) in
     if encoded_len \<le> se_max_delivery_bytes eng then pure_io (Ok prepared)
     else
       (case shrink limits of
          None \<Rightarrow> pure_io (Err (DeliveryTooLarge encoded_len (se_max_delivery_bytes eng)))
        | Some limits' \<Rightarrow> batch_loop env eng to_block_excl seq limits' initial_anchor))))"
  by pat_completeness auto
termination
  by (relation "measure (\<lambda>(env, eng, to_block, seq, limits, anchor). limits_size limits)")
     (auto intro: shrink_decreases)

declare batch_loop.simps [simp del]

definition global_backfill_contains :: "ApplyDesiredState \<Rightarrow> u64 \<Rightarrow> bool" where
  "global_backfill_contains desired_state block_number =
     list_ex (\<lambda>owner. oi_canonical owner \<and> backfill_covers (oi_backfill owner) block_number)
       (ads_owners desired_state)"

definition commit_prepared ::
    "'f EngineEnv \<Rightarrow> SourceEngine \<Rightarrow> u64 \<Rightarrow> PreparedPage \<Rightarrow>
     SourceEngineError + Delivery option \<times> SourceEngine" where
  "commit_prepared env eng seq prepared =
     (let (delivery, rollback_guard, canonical, reorg) = prepared in
      case reorg of
        Some reorg \<Rightarrow>
          (if br_number (rd_old_tip reorg) < se_activation_block eng \<and>
              \<not> global_backfill_contains (se_desired_state eng) (br_number (rd_old_tip reorg))
             then Err (OwnerCatchupReorg (se_activation_block eng) (br_number (rd_common_ancestor reorg))
               (br_number (rd_old_tip reorg)) (br_number (rd_new_tip reorg)))
           else
             bind_res (ok_or (checked_add seq 1) SequenceExhausted) (\<lambda>replacement_sequence.
             bind_res (set_delivery_sequence delivery replacement_sequence) (\<lambda>delivery.
             bind_res (reorg_delivery eng seq reorg) (\<lambda>control.
             let encoded_len = env_encoded_len env control in
             if se_max_delivery_bytes eng < encoded_len
               then Err (DeliveryTooLarge encoded_len (se_max_delivery_bytes eng))
             else Ok (Some control, eng\<lparr>se_canonical := canonical,
               se_queued := Some \<lparr>pd_delivery = delivery, pd_rollback_guard = rollback_guard,
                 pd_advances_source = True\<rparr>,
               se_pending := Some \<lparr>pd_delivery = control, pd_rollback_guard = se_previous_guard eng,
                 pd_advances_source = False\<rparr>\<rparr>)))))
      | None \<Rightarrow>
          Ok (Some delivery, eng\<lparr>se_canonical := canonical,
            se_pending := Some \<lparr>pd_delivery = delivery, pd_rollback_guard = rollback_guard,
              pd_advances_source = True\<rparr>\<rparr>))"

definition next_batch ::
    "'f EngineEnv \<Rightarrow> SourceEngine \<Rightarrow> u64 \<Rightarrow> (Delivery option \<times> SourceEngine) io" where
  "next_batch env eng to_block_excl =
     (case se_pending eng of
        Some pending \<Rightarrow> pure_io (Ok (Some (pd_delivery pending), eng))
      | None \<Rightarrow>
          (if to_block_excl \<le> se_committed_next_block eng then pure_io (Ok (None, eng))
           else
             bind_io (pure_io (ok_or (checked_add (se_committed_sequence eng) 1) SequenceExhausted)) (\<lambda>seq.
             bind_io (batch_loop env eng to_block_excl seq
                 (for_range (se_committed_next_block eng) to_block_excl) None) (\<lambda>prepared.
             pure_io (commit_prepared env eng seq prepared)))))"

definition acknowledge :: "SourceEngine \<Rightarrow> bytes \<Rightarrow> SourceEngineError + SourceEngine" where
  "acknowledge eng delivery_token =
     bind_res (ok_or (se_pending eng) NoPendingDelivery) (\<lambda>pending.
     if del_delivery_token (pd_delivery pending) \<noteq> delivery_token then Err DeliveryTokenMismatch
     else
       bind_res (ok_or (del_cursor (pd_delivery pending)) MissingCursor) (\<lambda>cursor.
       let eng' = (if pd_advances_source pending
             then eng\<lparr>se_committed_next_block := cur_next_block cursor,
               se_previous_guard := pd_rollback_guard pending\<rparr>
             else eng) in
       Ok (eng'\<lparr>se_committed_sequence := del_sequence (pd_delivery pending),
         se_coverage_head := cur_canonical_head cursor, se_pending := se_queued eng,
         se_queued := None\<rparr>)))"

definition activation_cursor :: "SourceEngine \<Rightarrow> SourceEngineError + Cursor" where
  "activation_cursor eng =
     bind_res (map_err Normalize (encode_source_checkpoint (se_previous_guard eng) (se_activation_block eng)
       (ct_blocks (se_canonical eng)))) (\<lambda>checkpoint.
     Ok \<lparr>cur_chain_id = ads_chain_id (se_desired_state eng),
         cur_query_revision = ads_new_revision (se_desired_state eng),
         cur_next_block = se_committed_next_block eng, cur_canonical_head = se_coverage_head eng,
         cur_batch_sequence = se_committed_sequence eng, cur_provider_checkpoint = checkpoint,
         cur_owner_backfill_activation_block = se_owner_backfill_activation_block eng\<rparr>)"

definition acknowledge_external_control :: "SourceEngine \<Rightarrow> u64 \<Rightarrow> SourceEngineError + SourceEngine" where
  "acknowledge_external_control eng seq =
     (if se_pending eng \<noteq> None then Err DeliveryPending
      else if seq < se_committed_sequence eng
        then Err (SequenceRegression (se_committed_sequence eng) seq)
      else Ok (eng\<lparr>se_committed_sequence := seq\<rparr>))"

definition synchronize_committed_cursor ::
    "SourceEngine \<Rightarrow> SourceResume \<Rightarrow> SourceEngineError + SourceEngine" where
  "synchronize_committed_cursor eng resume =
     (if se_pending eng \<noteq> None then Err DeliveryPending
      else if sr_sequence resume < se_committed_sequence eng
        then Err (SequenceRegression (se_committed_sequence eng) (sr_sequence resume))
      else
        bind_res (map_err CanonicalFault (restore_blocks (se_canonical eng) (sr_canonical_blocks resume))) (\<lambda>canonical.
        bind_res (validate_resume_state canonical (sr_next_block resume) (sr_provider_checkpoint resume)) (\<lambda>previous_guard.
        bind_res (validate_coverage_state canonical (sr_next_block resume) (sr_coverage_head resume)) (\<lambda>_.
        Ok (eng\<lparr>se_canonical := canonical, se_committed_next_block := sr_next_block resume,
          se_committed_sequence := sr_sequence resume, se_activation_block := sr_activation_block resume,
          se_previous_guard := previous_guard, se_coverage_head := sr_coverage_head resume,
          se_owner_backfill_activation_block := sr_owner_backfill_activation_block resume\<rparr>)))))"

end
