(* ===== verification/Engine_Recovery.thy ===== *)
theory Engine_Recovery
  imports Source_Engine
begin

text \<open>
  Correctness of the fork recovery of the source engine: the binary search of
  \<open>recover_rollback\<close> finds the newest retained block the source still agrees with, within a
  logarithmic number of queries, and stays inside the retained history.
\<close>

section \<open>Computations that query the source\<close>

lemma bind_io_Ok_iff [result_simps]:
  "bind_io m f k = (Ok y, k'') \<longleftrightarrow> (\<exists>x k'. m k = (Ok x, k') \<and> f x k' = (Ok y, k''))"
  by (cases "m k"; cases "fst (m k)") (auto simp: bind_io_def)

lemma pure_io_Ok_iff [result_simps]: "pure_io r k = (Ok y, k') \<longleftrightarrow> r = Ok y \<and> k' = k"
  by (auto simp: pure_io_def)

lemma bind_io_step: "m k = (Ok x, k') \<Longrightarrow> bind_io m f k = f x k'"
  by (simp add: bind_io_def)

lemma pure_io_apply [simp]: "pure_io r k = (r, k)"
  by (simp add: pure_io_def)

section \<open>The binary search\<close>

text \<open>
  A source that answers single-block queries from one fixed chain \<open>obs\<close> on the range of the
  search, whatever was asked before.
\<close>

definition answers_from ::
    "'f EngineEnv \<Rightarrow> SourceEngine \<Rightarrow> u64 \<Rightarrow> u64 \<Rightarrow> (u64 \<Rightarrow> BlockRef) \<Rightarrow> bool" where
  "answers_from env eng low high obs \<longleftrightarrow>
     (\<forall>n k. low \<le> n \<longrightarrow> n \<le> high \<longrightarrow> query_canonical_block env eng n k = (Ok (obs n), Suc k))"

definition agrees :: "SourceEngine \<Rightarrow> (u64 \<Rightarrow> BlockRef) \<Rightarrow> u64 \<Rightarrow> bool" where
  "agrees eng obs n \<longleftrightarrow> block (se_canonical eng) n = Some (obs n)"

text \<open>
  The retained history and the source's chain share a prefix of the range, and a shared hash
  means the same block.
\<close>

definition forks_once :: "SourceEngine \<Rightarrow> u64 \<Rightarrow> u64 \<Rightarrow> (u64 \<Rightarrow> BlockRef) \<Rightarrow> bool" where
  "forks_once eng low high obs \<longleftrightarrow>
     (\<forall>m n. low \<le> m \<longrightarrow> m \<le> n \<longrightarrow> n \<le> high \<longrightarrow> agrees eng obs n \<longrightarrow> agrees eng obs m) \<and>
     (\<forall>n. low \<le> n \<longrightarrow> n \<le> high \<longrightarrow>
        (\<exists>b. block (se_canonical eng) n = Some b \<and> (br_hash (obs n) = br_hash b \<longrightarrow> obs n = b)))"

text \<open>The answer of a search of the range \<open>low..high\<close> when everything below \<open>low\<close> is settled.\<close>

definition newest_agreement ::
    "SourceEngine \<Rightarrow> (u64 \<Rightarrow> BlockRef) \<Rightarrow> u64 \<Rightarrow> u64 \<Rightarrow> u64 option \<Rightarrow> bool" where
  "newest_agreement eng obs low high r \<longleftrightarrow>
     (case r of
        None \<Rightarrow> (\<forall>n. low \<le> n \<longrightarrow> n \<le> high \<longrightarrow> \<not> agrees eng obs n)
      | Some c \<Rightarrow> low \<le> c \<and> c \<le> high \<and> agrees eng obs c \<and>
          (\<forall>n. c < n \<longrightarrow> n \<le> high \<longrightarrow> \<not> agrees eng obs n))"

text \<open>
  The loop invariant: \<open>lo..hi\<close> is the whole range, everything above \<open>high\<close> disagrees, and the
  candidate found so far is the block right below \<open>low\<close>.
\<close>

definition probing ::
    "SourceEngine \<Rightarrow> (u64 \<Rightarrow> BlockRef) \<Rightarrow> u64 \<Rightarrow> u64 \<Rightarrow> u64 \<Rightarrow> u64 \<Rightarrow> u64 option \<Rightarrow> bool" where
  "probing eng obs lo hi low high c \<longleftrightarrow>
     lo \<le> low \<and> high \<le> hi \<and> unat low \<le> Suc (unat high) \<and>
     (\<forall>n. high < n \<longrightarrow> n \<le> hi \<longrightarrow> \<not> agrees eng obs n) \<and>
     (case c of
        None \<Rightarrow> low = lo
      | Some m \<Rightarrow> lo \<le> m \<and> m \<le> hi \<and> agrees eng obs m \<and> unat low = Suc (unat m))"

lemma probing_done:
  assumes "probing eng obs lo hi low high c" "\<not> low \<le> high"
  shows "newest_agreement eng obs lo hi c"
proof -
  have eq: "unat low = Suc (unat high)" using assms by (auto simp: probing_def u64_order)
  have above: "\<not> agrees eng obs n" if "unat high < unat n" "n \<le> hi" for n
    using assms(1) that by (auto simp: probing_def u64_order)
  show ?thesis
  proof (cases c)
    case None
    then have "low = lo" using assms(1) by (simp add: probing_def)
    then show ?thesis using None above eq by (auto simp: newest_agreement_def u64_order)
  next
    case (Some m)
    then have "lo \<le> m" "m \<le> hi" "agrees eng obs m" "unat m = unat high"
      using assms(1) eq by (auto simp: probing_def)
    then show ?thesis using Some above by (auto simp: newest_agreement_def u64_order)
  qed
qed

lemma probing_up:
  assumes p: "probing eng obs lo hi low high c" and le: "low \<le> high"
    and yes: "agrees eng obs (midpoint low high)" and succ: "unat low' = Suc (unat (midpoint low high))"
  shows "probing eng obs lo hi low' high (Some (midpoint low high))"
  using p midpoint_bounds [OF le] yes succ by (auto simp: probing_def u64_order)

lemma probing_down:
  assumes p: "probing eng obs lo hi low high c" and le: "low \<le> high"
    and fork: "forks_once eng lo hi obs"
    and no: "\<not> agrees eng obs (midpoint low high)" and pred: "unat (midpoint low high) = Suc (unat high')"
  shows "probing eng obs lo hi low high' c"
proof -
  let ?m = "midpoint low high"
  have bounds: "lo \<le> ?m" "?m \<le> hi" using p midpoint_bounds [OF le] by (auto simp: probing_def)
  have "\<not> agrees eng obs n" if n: "high' < n" "n \<le> hi" for n
  proof
    assume "agrees eng obs n"
    moreover have "?m \<le> n" using n(1) pred by (simp add: u64_order)
    ultimately have "agrees eng obs ?m" using fork bounds n(2) by (auto simp: forks_once_def)
    with no show False by simp
  qed
  with p midpoint_bounds [OF le] pred show ?thesis by (auto simp: probing_def u64_order)
qed

lemma probe_correct:
  assumes src: "answers_from env eng lo hi obs" and fork: "forks_once eng lo hi obs"
  shows "probing eng obs lo hi low high c \<Longrightarrow> Suc (unat high) - unat low < 2 ^ fuel \<Longrightarrow>
    \<exists>r k'. probe env eng low high c k = (Ok r, k') \<and> newest_agreement eng obs lo hi r \<and> k' \<le> k + fuel"
proof (induction fuel arbitrary: low high c k)
  case 0
  then have "\<not> low \<le> high" by (simp add: u64_order)
  with probing_done [OF 0(1)] show ?case by (simp add: probe.simps [of env eng low high c])
next
  case (Suc fuel)
  show ?case
  proof (cases "low \<le> high")
    case False
    with probing_done [OF Suc.prems(1)] show ?thesis by (simp add: probe.simps [of env eng low high c])
  next
    case True
    let ?m = "midpoint low high"
    have m: "low \<le> ?m" "?m \<le> high" using midpoint_bounds [OF True] by simp_all
    have range: "lo \<le> ?m" "?m \<le> hi" using m Suc.prems(1) by (auto simp: probing_def)
    have obs: "query_canonical_block env eng ?m k = (Ok (obs ?m), Suc k)"
      using src range by (simp add: answers_from_def)
    obtain b where b: "block (se_canonical eng) ?m = Some b" "br_hash (obs ?m) = br_hash b \<longrightarrow> obs ?m = b"
      using fork range by (auto simp: forks_once_def)
    note unfold = probe.simps [of env eng low high c] bind_io_step [where m = "query_canonical_block env eng ?m" and k = k, OF obs]
    have size: "unat ?m = unat low + (unat high - unat low) div 2" "unat low \<le> unat high"
      using unat_midpoint True by (auto simp: u64_order)
    show ?thesis
    proof (cases "agrees eng obs ?m")
      case True
      then have b_eq: "b = obs ?m" using b(1) by (simp add: agrees_def)
      show ?thesis
      proof (cases "checked_add ?m 1")
        case None
        then have "?m = u64_max" by (simp add: u64_simps)
        then have "\<not> ?m < n" for n by (simp add: not_less)
        then have "newest_agreement eng obs lo hi (Some ?m)"
          using True range by (simp add: newest_agreement_def)
        with \<open>low \<le> high\<close> b b_eq None show ?thesis by (simp add: unfold Let_def)
      next
        case (Some low')
        then have succ: "unat low' = Suc (unat ?m)" by (simp add: u64_simps)
        have "Suc (unat high) - unat low' < 2 ^ fuel"
          using Suc.prems(2) size succ by simp
        from Suc.IH [OF probing_up [OF Suc.prems(1) \<open>low \<le> high\<close> True succ] this, of "Suc k"]
        show ?thesis using \<open>low \<le> high\<close> b b_eq Some by (fastforce simp: unfold Let_def)
      qed
    next
      case False
      then have ne: "br_hash (obs ?m) \<noteq> br_hash b" using b by (auto simp: agrees_def)
      show ?thesis
      proof (cases "?m = 0")
        case zero: True
        then have low0: "low = lo" "unat lo = 0"
          using m range by (auto simp: u64_order)
        then have "c = None" using Suc.prems(1) by (cases c) (auto simp: probing_def)
        moreover have "\<not> agrees eng obs n" if "lo \<le> n" "n \<le> hi" for n
        proof
          assume "agrees eng obs n"
          then have "agrees eng obs lo" using fork that by (auto simp: forks_once_def)
          moreover have "lo = ?m" unfolding zero u64_eq_iff low0(2) by simp
          ultimately show False using False by simp
        qed
        ultimately have "newest_agreement eng obs lo hi c" by (simp add: newest_agreement_def)
        moreover have "probe env eng low high c k = (Ok c, Suc k)"
          using \<open>low \<le> high\<close> b ne obs zero
          by (simp add: probe.simps [of env eng low high c] Let_def bind_io_def)
        ultimately show ?thesis by auto
      next
        case nz: False
        then have pred: "unat ?m = Suc (unat (?m - 1))" by (simp add: unat_minus_one unat_gt_0)
        have "Suc (unat (?m - 1)) - unat low < 2 ^ fuel"
          using Suc.prems(2) size pred by simp
        from Suc.IH [OF probing_down [OF Suc.prems(1) \<open>low \<le> high\<close> fork False pred] this, of "Suc k"]
        show ?thesis using \<open>low \<le> high\<close> b ne nz by (fastforce simp: unfold Let_def)
      qed
    qed
  qed
qed

section \<open>Properties\<close>

lemma answers_from_max:
  "answers_from env eng lo hi obs \<Longrightarrow> lo \<le> n \<Longrightarrow> n \<le> hi \<Longrightarrow> checked_add n 1 = Some (n + 1)"
proof -
  assume "answers_from env eng lo hi obs" "lo \<le> n" "n \<le> hi"
  then have "query_canonical_block env eng n 0 = (Ok (obs n), 1)" by (simp add: answers_from_def)
  then obtain stop where "checked_add n 1 = Some stop"
    by (auto simp: query_canonical_block_def bind_io_Ok_iff result_simps)
  then show ?thesis by (auto simp: checked_add_def split: if_splits)
qed

lemma recovery_search:
  assumes guard: "se_previous_guard eng = Some previous"
    and oldest: "first_opt (ct_blocks (se_canonical eng)) = Some oldest"
    and newest: "tip (se_canonical eng) = Some newest"
    and lo: "lo = br_number oldest" and hi: "hi = min (br_number newest) (rg_block_number previous)"
    and range: "lo \<le> hi" and size: "Suc (unat hi) - unat lo < 2 ^ fuel"
    and src: "answers_from env eng lo hi obs" and fork: "forks_once eng lo hi obs"
  shows "\<exists>r k'. newest_agreement eng obs lo hi r \<and> k' \<le> k + fuel \<and>
    recover_rollback env eng to_excl seq limits k =
      (case r of
         None \<Rightarrow> (Err (CanonicalFault (HistoryExhausted (saturating_sub lo 1))), k')
       | Some c \<Rightarrow>
           bind_io (query_page env eng (c + 1) to_excl limits)
             (\<lambda>page. pure_io (prepare_batch env eng page seq None)) k')"
proof -
  have "probing eng obs lo hi lo hi None"
    using range by (simp add: probing_def u64_order)
  from probe_correct [OF src fork this size] obtain r k' where
    probe: "probe env eng lo hi None k = (Ok r, k')" and r: "newest_agreement eng obs lo hi r"
    and k': "k' \<le> k + fuel" by blast
  have "checked_add c 1 = Some (c + 1)" if "r = Some c" for c
    using answers_from_max [OF src] r that by (simp add: newest_agreement_def)
  then have "recover_rollback env eng to_excl seq limits k =
      (case r of
         None \<Rightarrow> (Err (CanonicalFault (HistoryExhausted (saturating_sub lo 1))), k')
       | Some c \<Rightarrow>
           bind_io (query_page env eng (c + 1) to_excl limits)
             (\<lambda>page. pure_io (prepare_batch env eng page seq None)) k')"
    using probe by (cases r) (simp_all add: recover_rollback_def guard oldest newest lo hi bind_io_def pure_io_def)
  with r k' show ?thesis by blast
qed

text \<open>
  C11: Fork recovery finds the fork point. When the source answers from a chain that shares a
  prefix with the retained history between the oldest retained block and the acknowledged tip,
  recovery requests the replacement page exactly from the successor of the newest block on
  which both agree, or reports exhausted history when they agree on none; it never probes
  outside the retained history, and a range shorter than \<open>2 ^ fuel\<close> costs at most \<open>fuel\<close> probes.
\<close>

theorem recovery_finds_fork_point:
  assumes "se_previous_guard eng = Some previous"
    and "first_opt (ct_blocks (se_canonical eng)) = Some oldest"
    and "tip (se_canonical eng) = Some newest"
    and "lo = br_number oldest" and "hi = min (br_number newest) (rg_block_number previous)"
    and "lo \<le> hi" and "Suc (unat hi) - unat lo < 2 ^ fuel"
    and "answers_from env eng lo hi obs" and "forks_once eng lo hi obs"
  shows "\<exists>r k'. newest_agreement eng obs lo hi r \<and> k' \<le> k + fuel \<and>
    recover_rollback env eng to_excl seq limits k =
      (case r of
         None \<Rightarrow> (Err (CanonicalFault (HistoryExhausted (saturating_sub lo 1))), k')
       | Some c \<Rightarrow>
           bind_io (query_page env eng (c + 1) to_excl limits)
             (\<lambda>page. pure_io (prepare_batch env eng page seq None)) k')"
  using recovery_search [OF assms] .

section \<open>Witness\<close>

text \<open>
  A source that serves one block per query from a chain that forks from the retained history
  after block 2.
\<close>

definition chain_row :: "BlockRef \<Rightarrow> SourceBlock" where
  "chain_row b = sample_row\<lparr>sb_number := Some (br_number b), sb_hash := Some (br_hash b),
     sb_parent_hash := Some (br_parent_hash b), sb_timestamp := Some (u64_to_be_bytes (br_timestamp b))\<rparr>"

definition chain_page :: "BlockRef \<Rightarrow> SourcePage" where
  "chain_page b = \<lparr>sp_archive_height = None, sp_next_block = br_number b + 1,
     sp_blocks = [chain_row b], sp_logs = [],
     sp_rollback_guard = Some \<lparr>rg_block_number = br_number b, rg_timestamp = br_timestamp b,
       rg_hash = br_hash b, rg_first_block_number = br_number b,
       rg_first_parent_hash = br_parent_hash b\<rparr>\<rparr>"

definition sample_env :: "(u64 \<Rightarrow> BlockRef) \<Rightarrow> SampleFilter EngineEnv" where
  "sample_env obs =
     \<lparr>env_builder = sample_builder, env_codec = sample_codec,
      env_layout = \<lparr>ml_block_size = 0, ml_log_size = 0, ml_hash_size = 0, ml_withdrawal_size = 0,
        ml_blocks_capacity = length, ml_logs_capacity = length, ml_uncles_capacity = length,
        ml_withdrawals_capacity = length\<rparr>,
      env_encoded_len = (\<lambda>_. 100), env_query = (\<lambda>k q. Ok (chain_page (obs (q_from_block q))))\<rparr>"

lemma be_padded_full: "be_padded_u64 (u64_to_be_bytes x) = x"
  by (simp add: be_padded_u64_def)

lemma block_ref_chain_row: "wf_block b \<Longrightarrow> block_ref (chain_row b) = Ok b"
  by (simp add: block_ref_Ok_iff chain_row_def be_padded_full)

lemma chain_page_admitted:
  assumes "wf_block b" "br_number b < stop" "0 \<le> sint (br_timestamp b)"
    and limits: "se_response_limits eng = default_response_limits"
  shows "admit_page (sample_env obs) eng (br_number b) stop (chain_page b) = Ok (chain_page b)"
proof -
  have "Suc (unat (br_number b)) < 18446744073709551616"
    using assms(2) unat_u64_bound [of stop] by (simp add: u64_order)
  then have succ: "unat (br_number b + 1) = Suc (unat (br_number b))" by (simp add: unat_word_ariths)
  have "admissible_page (chain_page b) (br_number b) stop [b]"
    using assms(1-3) succ
    by (simp add: admissible_page_def chain_page_def block_ref_chain_row page_chain_def
        guard_describes_def u64_order)
  then have "validate_source_page (chain_page b) (br_number b) stop = Ok ()"
    using validate_source_page_Ok_iff by blast
  moreover have "is_ok (validate_response_counts (env_layout (sample_env obs)) (chain_page b)
      (se_response_limits eng))"
  proof -
    have "srl_max_dynamic_bytes default_response_limits < usize_max"
      by (simp add: default_response_limits_def MAX_DYNAMIC_BYTES_PER_RESPONSE_def)
    from response_budget [OF this] show ?thesis
      unfolding limits
      using assms(1)
      by (simp add: default_response_limits_def MAX_DYNAMIC_BYTES_PER_RESPONSE_def
        MAX_BLOCKS_PER_RESPONSE_def MAX_LOGS_PER_RESPONSE_def MAX_BLOCKS_PER_QUERY_def
        MAX_LOGS_PER_QUERY_def chain_page_def chain_row_def sample_row_def block_bytes_def
        opt_bytes_def uncle_bytes_def withdrawal_bytes_def guard_bytes_def sample_env_def wf_block_def)
  qed
  moreover have "\<not> sp_next_block (chain_page b) \<le> br_number b"
    using succ by (simp add: chain_page_def u64_order)
  ultimately show ?thesis by (auto simp: admit_page_def is_ok_iff)
qed

lemma sample_env_answers:
  assumes "se_response_limits eng = default_response_limits"
    and "\<forall>n. lo \<le> n \<longrightarrow> n \<le> hi \<longrightarrow> wf_block (obs n) \<and> br_number (obs n) = n \<and> 0 \<le> sint (br_timestamp (obs n))"
    and "hi < u64_max"
  shows "answers_from (sample_env obs) eng lo hi obs"
  unfolding answers_from_def
proof (intro allI impI)
  fix n k assume n: "lo \<le> n" "n \<le> hi"
  then have b: "wf_block (obs n)" "br_number (obs n) = n" "0 \<le> sint (br_timestamp (obs n))"
    using assms(2) by auto
  have "n \<noteq> u64_max" using n(2) assms(3) by auto
  then obtain stop where stop: "checked_add n 1 = Some stop"
    using u64_succ_none [of n] by (cases "checked_add n 1") auto
  have "admit_page (sample_env obs) eng n stop (chain_page (obs n)) = Ok (chain_page (obs n))"
    using chain_page_admitted [OF b(1) _ b(3) assms(1)] stop b(2) by (simp add: u64_simps u64_order)
  moreover have "env_query (sample_env obs) k (single_block_query n stop) = Ok (chain_page (obs n))"
    by (simp add: sample_env_def single_block_query_def)
  ultimately show "query_canonical_block (sample_env obs) eng n k = (Ok (obs n), Suc k)"
    using stop b(1)
    by (simp add: query_canonical_block_def bind_io_def query_io_def pure_io_def)
       (simp add: chain_page_def block_ref_chain_row)
qed

definition forked_engine :: SourceEngine where
  "forked_engine = (engine_new sample_session 4 0 4)\<lparr>se_canonical := sample_tracker,
     se_previous_guard := Some \<lparr>rg_block_number = 3, rg_timestamp = 3, rg_hash = replicate 32 3,
       rg_first_block_number = 1, rg_first_parent_hash = replicate 32 0\<rparr>\<rparr>"

definition forked_chain :: "u64 \<Rightarrow> BlockRef" where
  "forked_chain n = (if n = 1 then sample_block 1 1 0 else if n = 2 then sample_block 2 2 1
     else if n = 3 then sample_block 3 13 2 else sample_block n 14 13)"

lemma three_blocks: "(1 :: u64) \<le> n \<and> n \<le> 3 \<longleftrightarrow> n = 1 \<or> n = 2 \<or> n = 3"
proof -
  have "unat n = 1 \<or> unat n = 2 \<or> unat n = 3" if "1 \<le> unat n" "unat n \<le> 3" using that by linarith
  then show ?thesis by (auto simp: u64_order)
qed

lemma forked_engine_forks: "forks_once forked_engine 1 3 forked_chain"
  unfolding forks_once_def agrees_def
proof (intro conjI allI impI)
  have b: "block (se_canonical forked_engine) 1 = Some (sample_block 1 1 0)"
      "block (se_canonical forked_engine) 2 = Some (sample_block 2 2 1)"
      "block (se_canonical forked_engine) 3 = Some (sample_block 3 3 2)"
    by (simp_all add: forked_engine_def block_def sample_tracker_def sample_block_def)
  fix m n :: u64
  assume m: "1 \<le> m" "m \<le> n" "n \<le> 3" and agree: "block (se_canonical forked_engine) n = Some (forked_chain n)"
  then have "n = 1 \<or> n = 2" using three_blocks [of n] b by (auto simp: forked_chain_def sample_block_def)
  moreover have "m \<le> 3" using m(2,3) by (rule order_trans)
  ultimately have "m = 1 \<or> m = 2" using m three_blocks [of m] by auto
  then show "block (se_canonical forked_engine) m = Some (forked_chain m)"
    using b by (auto simp: forked_chain_def)
next
  fix n :: u64
  assume "1 \<le> n" "n \<le> 3"
  then have "n = 1 \<or> n = 2 \<or> n = 3" using three_blocks by blast
  then show "\<exists>b. block (se_canonical forked_engine) n = Some b \<and>
      (br_hash (forked_chain n) = br_hash b \<longrightarrow> forked_chain n = b)"
    by (auto simp: forked_engine_def block_def sample_tracker_def sample_block_def forked_chain_def)
qed

theorem recovery_finds_fork_point_witness:
  "\<exists>r k'. newest_agreement forked_engine forked_chain 1 3 r \<and> k' \<le> 3 \<and>
     recover_rollback (sample_env forked_chain) forked_engine 9 1 (for_range 4 9) 0 =
      (case r of
         None \<Rightarrow> (Err (CanonicalFault (HistoryExhausted (saturating_sub 1 1))), k')
       | Some c \<Rightarrow>
           bind_io (query_page (sample_env forked_chain) forked_engine (c + 1) 9 (for_range 4 9))
             (\<lambda>page. pure_io (prepare_batch (sample_env forked_chain) forked_engine page 1 None)) k')"
proof -
  have src: "answers_from (sample_env forked_chain) forked_engine 1 3 forked_chain"
    by (rule sample_env_answers)
       (auto simp: forked_engine_def engine_new_def forked_chain_def sample_block_def wf_block_def
          sint_nonneg_iff u64_order)
  have "se_previous_guard forked_engine = Some \<lparr>rg_block_number = 3, rg_timestamp = 3,
      rg_hash = replicate 32 3, rg_first_block_number = 1, rg_first_parent_hash = replicate 32 0\<rparr>"
      "first_opt (ct_blocks (se_canonical forked_engine)) = Some (sample_block 1 1 0)"
      "tip (se_canonical forked_engine) = Some (sample_block 3 3 2)"
    by (simp_all add: forked_engine_def sample_tracker_def tip_def)
  from recovery_finds_fork_point [OF this, where lo = 1 and hi = 3 and fuel = 3 and k = 0
      and to_excl = 9 and seq = 1 and limits = "for_range 4 9",
      OF _ _ _ _ src forked_engine_forks]
  show ?thesis by (simp add: sample_block_def)
qed

end
