(* ===== verification/Engine_Invariant.thy ===== *)
theory Engine_Invariant
  imports Engine_Recovery
begin

text \<open>
  The source engine as a state machine. The locale \<open>in_flight_source\<close> is the at-least-once
  contract its client relies on: one delivery in flight, replayed until its token is
  acknowledged, with consecutive sequence numbers. The invariant of the engine proves the
  contract, and shows that what is committed always describes a retained block.
\<close>

section \<open>The contract of an at-least-once source\<close>

datatype 'i client_action = Pull 'i | Ack bytes

text \<open>
  A client that pulls and acknowledges; a failed call changes nothing. The result is the state
  and the deliveries acknowledged so far.
\<close>

fun client_run ::
    "('s \<Rightarrow> 'i \<Rightarrow> 'e + Delivery option \<times> 's) \<Rightarrow> ('s \<Rightarrow> bytes \<Rightarrow> 'e + 's) \<Rightarrow> ('s \<Rightarrow> Delivery option) \<Rightarrow>
     's \<Rightarrow> 'i client_action list \<Rightarrow> Delivery list \<times> 's" where
  "client_run pull ack inflight s [] = ([], s)"
| "client_run pull ack inflight s (Pull i # rest) =
     client_run pull ack inflight (case pull s i of Inl _ \<Rightarrow> s | Inr (_, s') \<Rightarrow> s') rest"
| "client_run pull ack inflight s (Ack token # rest) =
     (case ack s token of
        Inl _ \<Rightarrow> client_run pull ack inflight s rest
      | Inr s' \<Rightarrow>
          (let (acked, t) = client_run pull ack inflight s' rest in
           ((case inflight s of None \<Rightarrow> [] | Some d \<Rightarrow> [d]) @ acked, t)))"

locale in_flight_source =
  fixes good :: "'s \<Rightarrow> bool"
    and inflight :: "'s \<Rightarrow> Delivery option"
    and committed :: "'s \<Rightarrow> u64"
    and pull :: "'s \<Rightarrow> 'i \<Rightarrow> 'e + Delivery option \<times> 's"
    and ack :: "'s \<Rightarrow> bytes \<Rightarrow> 'e + 's"
  assumes pull_good: "good s \<Longrightarrow> pull s i = Ok (out, s') \<Longrightarrow> good s'"
    and pull_replay: "good s \<Longrightarrow> inflight s = Some d \<Longrightarrow> pull s i = Ok (Some d, s)"
    and pull_fresh: "good s \<Longrightarrow> inflight s = None \<Longrightarrow> pull s i = Ok (out, s') \<Longrightarrow>
      inflight s' = out \<and> committed s' = committed s"
    and inflight_next: "good s \<Longrightarrow> inflight s = Some d \<Longrightarrow>
      unat (del_sequence d) = Suc (unat (committed s)) \<and> del_delivery_token d = u64_to_be_bytes (del_sequence d)"
    and ack_good: "good s \<Longrightarrow> ack s token = Ok s' \<Longrightarrow> good s'"
    and ack_commits: "good s \<Longrightarrow> ack s token = Ok s' \<Longrightarrow>
      \<exists>d. inflight s = Some d \<and> token = del_delivery_token d \<and> committed s' = del_sequence d"
    and ack_accepts: "good s \<Longrightarrow> inflight s = Some d \<Longrightarrow> \<exists>s'. ack s (del_delivery_token d) = Ok s'"
begin

lemma pull_committed: "good s \<Longrightarrow> pull s i = Ok (d, s') \<Longrightarrow> committed s' = committed s"
  by (cases "inflight s") (auto simp: pull_replay dest: pull_fresh)

text \<open>
  Whatever the client does, the deliveries it acknowledges carry consecutive sequence numbers
  from the committed one on, without gap and without repetition.
\<close>

lemma acked_consecutive:
  assumes "good s" and "client_run pull ack inflight s actions = (acked, t)"
  shows "map (\<lambda>d. unat (del_sequence d)) acked =
      [Suc (unat (committed s))..<Suc (unat (committed s) + length acked)] \<and>
    unat (committed t) = unat (committed s) + length acked \<and> good t"
  using assms
proof (induction actions arbitrary: s acked)
  case Nil
  then show ?case by simp
next
  case (Cons action rest)
  show ?case
  proof (cases action)
    case (Pull i)
    show ?thesis
    proof (cases "pull s i")
      case (Inl e)
      with Cons Pull show ?thesis by simp
    next
      case (Inr p)
      obtain d s' where p: "p = (d, s')" by (cases p)
      have "good s'" "committed s' = committed s"
        using pull_good pull_committed Cons.prems(1) Inr p by auto
      with Cons.IH [of s' acked] Cons.prems(2) Pull Inr p show ?thesis by simp
    qed
  next
    case (Ack token)
    show ?thesis
    proof (cases "ack s token")
      case (Inl e)
      with Cons Ack show ?thesis by simp
    next
      case (Inr s')
      obtain d where d: "inflight s = Some d" "committed s' = del_sequence d"
        using ack_commits [OF Cons.prems(1) Inr] by blast
      have next_seq: "unat (del_sequence d) = Suc (unat (committed s))"
        using inflight_next Cons.prems(1) d(1) by blast
      have good: "good s'" using ack_good [OF Cons.prems(1) Inr] .
      obtain acked' where run: "client_run pull ack inflight s' rest = (acked', t)" and acked: "acked = d # acked'"
        using Cons.prems(2) Ack Inr d(1) by (auto split: prod.splits)
      from Cons.IH [OF good run] d(2) next_seq show ?thesis
        by (simp add: acked upt_conv_Cons del: upt_Suc)
    qed
  qed
qed

text \<open>
  Until the client acknowledges the token of the delivery in flight, nothing it does changes the
  state.
\<close>

lemma unacknowledged_run:
  assumes "good s" and "inflight s = Some d" and "Ack (del_delivery_token d) \<notin> set actions"
  shows "client_run pull ack inflight s actions = ([], s)"
  using assms(3)
proof (induction actions)
  case Nil
  then show ?case by simp
next
  case (Cons action rest)
  have "ack s token \<noteq> Ok s'" if "token \<noteq> del_delivery_token d" for token s'
    using ack_commits [OF assms(1)] assms(2) that by auto
  then have refused: "\<exists>e. ack s token = Err e" if "token \<noteq> del_delivery_token d" for token
    using that by (cases "ack s token") blast+
  show ?case
  proof (cases action)
    case (Pull i)
    with Cons show ?thesis by (simp add: pull_replay [OF assms(1,2)])
  next
    case (Ack token)
    with Cons refused [of token] show ?thesis by auto
  qed
qed

end

section \<open>The invariant of the engine\<close>

text \<open>The guard of a position, when present, describes the block below the position.\<close>

definition guard_matches :: "RollbackGuard option \<Rightarrow> BlockRef \<Rightarrow> bool" where
  "guard_matches guard b \<longleftrightarrow>
     pred_option (\<lambda>g. rg_block_number g = br_number b \<and> rg_hash g = br_hash b \<and>
       rg_timestamp g = br_timestamp b \<and> 0 \<le> sint (rg_timestamp g) \<and>
       rg_first_block_number g \<le> rg_block_number g) guard"

definition positioned :: "CanonicalTracker \<Rightarrow> u64 \<Rightarrow> RollbackGuard option \<Rightarrow> bool" where
  "positioned canonical next_block guard \<longleftrightarrow>
     (\<exists>b \<in> set (ct_blocks canonical). unat next_block = Suc (unat (br_number b)) \<and> guard_matches guard b)"

definition wf_pending :: "u64 \<Rightarrow> PendingDelivery \<Rightarrow> bool" where
  "wf_pending committed p \<longleftrightarrow>
     unat (del_sequence (pd_delivery p)) = Suc (unat committed) \<and>
     del_delivery_token (pd_delivery p) = u64_to_be_bytes (del_sequence (pd_delivery p)) \<and>
     (\<exists>c. del_cursor (pd_delivery p) = Some c \<and> cur_batch_sequence c = del_sequence (pd_delivery p))"

definition advances_to :: "CanonicalTracker \<Rightarrow> PendingDelivery \<Rightarrow> bool" where
  "advances_to canonical p \<longleftrightarrow>
     pd_advances_source p \<and>
     (\<exists>c. del_cursor (pd_delivery p) = Some c \<and> positioned canonical (cur_next_block c) (pd_rollback_guard p))"

definition engine_inv :: "SourceEngine \<Rightarrow> bool" where
  "engine_inv eng \<longleftrightarrow>
     tracker_inv (se_canonical eng) \<and>
     (case se_pending eng of
        None \<Rightarrow> se_queued eng = None \<and>
          (ct_blocks (se_canonical eng) \<noteq> [] \<longrightarrow>
             positioned (se_canonical eng) (se_committed_next_block eng) (se_previous_guard eng))
      | Some p \<Rightarrow> wf_pending (se_committed_sequence eng) p \<and>
          (case se_queued eng of
             None \<Rightarrow> advances_to (se_canonical eng) p
           | Some q \<Rightarrow> \<not> pd_advances_source p \<and> wf_pending (del_sequence (pd_delivery p)) q \<and>
               advances_to (se_canonical eng) q))"

section \<open>Preparing preserves the invariant\<close>

lemma tracker_new_inv [simp]: "tracker_inv (tracker_new d)"
  by (simp add: tracker_new_def tracker_inv_def)

lemma admit_page_Ok:
  assumes "admit_page env eng from_block to_excl page = Ok page'"
  obtains refs where "page' = page" "from_block < sp_next_block page"
    "admissible_page page from_block to_excl refs"
  using assms validate_source_page_Ok_iff [of page from_block to_excl]
  by (auto simp: admit_page_def bind_res_Ok_iff map_err_Ok_iff not_le split: if_splits)

text \<open>After a nonempty page the last block of the page is retained.\<close>

lemma apply_blocks_keeps_last:
  assumes inv: "tracker_inv t" and ok: "apply_blocks t page = Ok (t', r)" and "page \<noteq> []"
  shows "last page \<in> set (ct_blocks t')"
proof (cases "new_suffix (ct_blocks t) page = []")
  case True
  then have "set page \<subseteq> set (ct_blocks t)" by (auto simp: new_suffix_def dropWhile_eq_Nil_conv)
  moreover have "graft (ct_blocks t) page = ct_blocks t" by (simp add: graft_def True)
  then have "ct_blocks t' = ct_blocks t"
    using apply_blocks_chain [OF inv ok] inv by (simp add: tracker_inv_def)
  ultimately show ?thesis using assms(3) by auto
next
  case False
  have "ct_blocks t' \<noteq> []" using apply_blocks_nonempty [OF inv ok] assms(3) by blast
  with tracker.apply_last [OF inv ok False] show ?thesis by (metis last_in_set)
qed

lemma admissible_last:
  assumes "admissible_page page from_block to_excl refs" "from_block < sp_next_block page"
  shows "refs \<noteq> [] \<and> unat (sp_next_block page) = Suc (unat (br_number (last refs))) \<and>
    guard_matches (sp_rollback_guard page) (last refs)"
proof -
  have chain: "page_chain from_block (sp_next_block page) refs"
    using assms(1) by (simp add: admissible_page_def)
  then have ne: "refs \<noteq> []" using assms(2) by (auto simp: page_chain_def u64_order)
  then have "unat (br_number (last refs)) = unat from_block + (length refs - 1)"
    using page_chain_nth [OF chain, of "length refs - 1"] by (simp add: last_conv_nth)
  with chain ne have next_block: "unat (sp_next_block page) = Suc (unat (br_number (last refs)))"
    by (cases refs) (simp_all add: page_chain_def)
  have l: "linked refs" using chain by (simp add: page_chain_def)
  have "guard_matches (sp_rollback_guard page) (last refs)"
    using assms(1) ne linked_le_last [OF l, of "hd refs"]
    by (cases "sp_rollback_guard page")
       (auto simp: admissible_page_def guard_matches_def guard_describes_def u64_order)
  with ne next_block show ?thesis by blast
qed

lemma normalize_page_at_identity:
  assumes "normalize_page_at hc ds seq page activation = Ok d"
  shows "del_sequence d = seq \<and> del_delivery_token d = u64_to_be_bytes seq \<and>
    (\<exists>c. del_cursor d = Some c \<and> cur_batch_sequence c = seq \<and> cur_next_block c = sp_next_block page)"
  using assms by (auto simp: normalize_page_at_def Let_def bind_res_Ok_iff)

lemma finish_delivery_identity:
  assumes "finish_delivery eng checkpoint d = Ok d'" "del_cursor d = Some c"
  shows "del_sequence d' = del_sequence d \<and> del_delivery_token d' = del_delivery_token d \<and>
    (\<exists>c'. del_cursor d' = Some c' \<and> cur_batch_sequence c' = cur_batch_sequence c \<and>
       cur_next_block c' = cur_next_block c)"
  using assms
  by (auto simp: finish_delivery_def Let_def bind_res_Ok_iff split: option.splits Payload.splits if_splits)

lemma finish_delivery_payload:
  assumes "finish_delivery eng checkpoint d = Ok d'" "del_payload d = Some (PayloadData x)"
  shows "(\<exists>data. del_payload d' = Some (PayloadData data) \<and> dp_records data \<noteq> []) \<or>
    (\<exists>barrier. del_payload d' = Some (PayloadBarrier barrier))"
  using assms
  by (cases "dp_records x = []") (auto simp: finish_delivery_def Let_def bind_res_Ok_iff)

lemma normalize_page_at_payload:
  assumes "normalize_page_at hc ds seq page activation = Ok d"
  shows "\<exists>x. del_payload d = Some (PayloadData x)"
  using assms by (auto simp: normalize_page_at_def Let_def bind_res_Ok_iff)

text \<open>
  A delivery of a page: the records of the page, or the barrier that stands for a page without
  records, with a cursor that continues after the last block of the page.
\<close>

definition page_delivery :: "BlockRef list \<Rightarrow> Delivery \<Rightarrow> bool" where
  "page_delivery page d \<longleftrightarrow>
     (\<exists>c. del_cursor d = Some c \<and> unat (cur_next_block c) = Suc (unat (br_number (last page)))) \<and>
     ((\<exists>data. del_payload d = Some (PayloadData data) \<and> dp_records data \<noteq> []) \<or>
      (\<exists>barrier. del_payload d = Some (PayloadBarrier barrier)))"


text \<open>The blocks of a page the source answered with.\<close>

definition answered :: "'f EngineEnv \<Rightarrow> BlockRef list \<Rightarrow> bool" where
  "answered env page \<longleftrightarrow> (\<exists>k q raw. env_query env k q = Ok raw \<and> map_res block_ref (sp_blocks raw) = Ok page)"

definition prepared_ok :: "'f EngineEnv \<Rightarrow> SourceEngine \<Rightarrow> u64 \<Rightarrow> PreparedPage \<Rightarrow> bool" where
  "prepared_ok env eng seq prepared \<longleftrightarrow>
     (case prepared of (d, guard, canonical, reorg) \<Rightarrow>
        tracker_inv canonical \<and> del_sequence d = seq \<and> del_delivery_token d = u64_to_be_bytes seq \<and>
        (\<exists>c. del_cursor d = Some c \<and> cur_batch_sequence c = seq \<and>
           positioned canonical (cur_next_block c) guard) \<and>
        (ct_blocks (se_canonical eng) \<noteq> [] \<longrightarrow>
           (\<exists>page. page \<noteq> [] \<and> answered env page \<and> apply_blocks (se_canonical eng) page = Ok (canonical, reorg) \<and>
              page_delivery page d)))"

lemma prepare_batch_ok:
  assumes inv: "tracker_inv (se_canonical eng)"
    and page: "admit_page env eng from_block to_excl raw = Ok page" and asked: "env_query env i q = Ok raw"
    and prepared: "prepare_batch env eng page seq anchor = Ok prepared"
  shows "prepared_ok env eng seq prepared"
proof -
  from page obtain refs where refs: "page = raw" "from_block < sp_next_block page"
    "admissible_page page from_block to_excl refs" by (rule admit_page_Ok) auto
  obtain d canonical reorg d0 base checkpoint where p: "prepared = (d, sp_rollback_guard page, canonical, reorg)"
    and d0: "normalize_page_at (env_codec env) (se_desired_state eng) seq page (se_activation_block eng) = Ok d0"
    and base: "tracker_inv base" and run: "apply_blocks base refs = Ok (canonical, reorg)"
    and d: "finish_delivery eng checkpoint d0 = Ok d"
    and same: "ct_blocks (se_canonical eng) \<noteq> [] \<longrightarrow> base = se_canonical eng"
    using prepared refs(3) inv
    by (auto simp: prepare_batch_def bind_res_Ok_iff map_err_Ok_iff admissible_page_def is_empty_def
        split: option.splits if_splits dest: apply_blocks_inv)
  note last = admissible_last [OF refs(3,2)]
  obtain c0 where c0: "del_cursor d0 = Some c0" "cur_batch_sequence c0 = seq"
    "cur_next_block c0 = sp_next_block page" using normalize_page_at_identity [OF d0] by blast
  from finish_delivery_identity [OF d c0(1)] normalize_page_at_identity [OF d0] c0
  have "del_sequence d = seq" "del_delivery_token d = u64_to_be_bytes seq"
    "\<exists>c. del_cursor d = Some c \<and> cur_batch_sequence c = seq \<and> cur_next_block c = sp_next_block page"
    by auto
  moreover have "positioned canonical (sp_next_block page) (sp_rollback_guard page)"
    using last apply_blocks_keeps_last [OF base run] by (auto simp: positioned_def)
  moreover have "page_delivery refs d"
    unfolding page_delivery_def using calculation(3) last normalize_page_at_payload [OF d0] finish_delivery_payload [OF d]
    by auto
  with same run last have "ct_blocks (se_canonical eng) \<noteq> [] \<longrightarrow>
      (\<exists>page. page \<noteq> [] \<and> answered env page \<and> apply_blocks (se_canonical eng) page = Ok (canonical, reorg) \<and>
         page_delivery page d)"
    using asked refs(1,3) by (auto simp: answered_def admissible_page_def)
  ultimately show ?thesis
    using apply_blocks_inv [OF base run] by (auto simp: prepared_ok_def p)
qed

lemma query_page_Ok:
  assumes "query_page env eng from_block to_excl limits k = (Ok page, k')"
  obtains raw i q where "admit_page env eng from_block to_excl raw = Ok page" "env_query env i q = Ok raw"
  using assms by (auto simp: query_page_def query_io_def result_simps)

lemma recover_rollback_ok:
  assumes "tracker_inv (se_canonical eng)"
    and "recover_rollback env eng to_excl seq limits k = (Ok prepared, k')"
  shows "prepared_ok env eng seq prepared"
proof -
  from assms(2) obtain start page k1 k2 where
    "query_page env eng start to_excl limits k1 = (Ok page, k2)"
    "prepare_batch env eng page seq None = Ok prepared"
    by (auto simp: recover_rollback_def result_simps)
  with assms(1) show ?thesis by (metis prepare_batch_ok query_page_Ok)
qed

text \<open>The loop delivers a prepared page that fits the delivery budget.\<close>

lemma batch_loop_ok:
  assumes "tracker_inv (se_canonical eng)"
    and "batch_loop env eng to_excl seq limits anchor k = (Ok prepared, k')"
  shows "prepared_ok env eng seq prepared \<and> env_encoded_len env (fst prepared) \<le> se_max_delivery_bytes eng"
  using assms(2)
proof (induction limits arbitrary: anchor k rule: measure_induct_rule [of limits_size])
  case (less limits)
  from less.prems obtain page k1 anchor' k2 cand k3 where
    page: "query_page env eng (se_committed_next_block eng) to_excl limits k = (Ok page, k1)" and
    cand: "(if rollback_detected eng page then recover_rollback env eng to_excl seq limits
       else pure_io (prepare_batch env eng page seq anchor')) k2 = (Ok cand, k3)" and
    rest: "(if env_encoded_len env (fst cand) \<le> se_max_delivery_bytes eng then pure_io (Ok cand)
       else case shrink limits of
          None \<Rightarrow> pure_io (Err (DeliveryTooLarge (env_encoded_len env (fst cand)) (se_max_delivery_bytes eng)))
        | Some limits' \<Rightarrow> batch_loop env eng to_excl seq limits' anchor') k3 = (Ok prepared, k')"
    unfolding batch_loop.simps [of env eng to_excl seq limits anchor] bind_io_Ok_iff Let_def by blast
  have "prepared_ok env eng seq cand"
  proof (cases "rollback_detected eng page")
    case True
    with cand recover_rollback_ok [OF assms(1)] show ?thesis by simp
  next
    case False
    with cand have "prepare_batch env eng page seq anchor' = Ok cand" by simp
    then show ?thesis using page prepare_batch_ok [OF assms(1)] by (metis query_page_Ok)
  qed
  show ?case
  proof (cases "env_encoded_len env (fst cand) \<le> se_max_delivery_bytes eng")
    case True
    with rest \<open>prepared_ok env eng seq cand\<close> show ?thesis by simp
  next
    case False
    with rest obtain limits' where shrunk: "shrink limits = Some limits'"
      and again: "batch_loop env eng to_excl seq limits' anchor' k3 = (Ok prepared, k')"
      by (auto split: option.splits)
    from less.IH [OF shrink_decreases [OF shrunk] again] show ?thesis .
  qed
qed

section \<open>Every operation preserves the invariant\<close>

lemma engine_new_inv: "engine_inv (engine_new ds next_block activation depth)"
  by (simp add: engine_inv_def engine_new_def) (simp add: tracker_new_def)

lemma validate_resume_state_positioned:
  assumes ok: "validate_resume_state canonical next_block checkpoint = Ok guard"
    and inv: "tracker_inv canonical" and ne: "ct_blocks canonical \<noteq> []"
  shows "positioned canonical next_block guard"
proof -
  let ?t = "last (ct_blocks canonical)"
  have tip: "tip canonical = Some ?t" using ne by (simp add: tip_Some_iff)
  have "unat next_block = Suc (unat (br_number ?t)) \<and> guard_matches guard ?t"
    using ok
    by (auto simp: validate_resume_state_def tip result_simps u64_simps guard_matches_def
        rollback_guard_at_def i64_try_from_u64_Some_iff not_less split: option.splits if_splits)
  then show ?thesis using ne by (auto simp: positioned_def)
qed

lemma restored_tracker_inv: "restored_tracker depth bs = Ok t \<Longrightarrow> tracker_inv t"
  by (auto simp: restored_tracker_def bind_res_Ok_iff map_err_Ok_iff split: if_splits
      dest: apply_blocks_inv [OF tracker_new_inv])

lemma restore_inv:
  assumes "restore ds resume depth = Ok eng"
  shows "engine_inv eng"
proof -
  obtain canonical guard where c: "tracker_inv canonical"
    and g: "validate_resume_state canonical (sr_next_block resume) (sr_provider_checkpoint resume) = Ok guard"
    and eng: "se_canonical eng = canonical" "se_pending eng = None" "se_queued eng = None"
      "se_committed_next_block eng = sr_next_block resume" "se_previous_guard eng = guard"
    using assms
    by (auto simp: restore_def bind_res_Ok_iff dest: restored_tracker_inv)
  with validate_resume_state_positioned [OF g c] show ?thesis by (simp add: engine_inv_def)
qed

lemma commit_prepared_inv:
  assumes inv: "engine_inv eng" and idle: "se_pending eng = None"
    and seq: "checked_add (se_committed_sequence eng) 1 = Some seq"
    and prepared: "prepared_ok env eng seq prepared"
    and ok: "commit_prepared env eng seq prepared = Ok (out, eng')"
  shows "engine_inv eng' \<and> map_option pd_delivery (se_pending eng') = out \<and> out \<noteq> None \<and>
    se_committed_sequence eng' = se_committed_sequence eng \<and>
    se_committed_next_block eng' = se_committed_next_block eng"
proof -
  obtain d guard canonical reorg where p: "prepared = (d, guard, canonical, reorg)" by (cases prepared)
  from prepared obtain c where d: "tracker_inv canonical" "del_sequence d = seq"
    "del_delivery_token d = u64_to_be_bytes seq" "del_cursor d = Some c" "cur_batch_sequence c = seq"
    "positioned canonical (cur_next_block c) guard" by (auto simp: prepared_ok_def p)
  have seq': "unat seq = Suc (unat (se_committed_sequence eng))" using seq by (simp add: u64_simps)
  have queued: "se_queued eng = None" using inv idle by (simp add: engine_inv_def)
  show ?thesis
  proof (cases reorg)
    case None
    with ok d seq' queued show ?thesis
      by (auto simp: commit_prepared_def p engine_inv_def wf_pending_def advances_to_def)
  next
    case (Some delta)
    with ok obtain seq2 control d2 where step: "checked_add seq 1 = Some seq2"
      "set_delivery_sequence d seq2 = Ok d2" "reorg_delivery eng seq delta = Ok control"
      "out = Some control" "eng' = eng\<lparr>se_canonical := canonical,
         se_queued := Some \<lparr>pd_delivery = d2, pd_rollback_guard = guard, pd_advances_source = True\<rparr>,
         se_pending := Some \<lparr>pd_delivery = control, pd_rollback_guard = se_previous_guard eng,
           pd_advances_source = False\<rparr>\<rparr>"
      by (auto simp: commit_prepared_def p bind_res_Ok_iff ok_or_Ok_iff Let_def split: if_splits)
    have control: "del_sequence control = seq" "del_delivery_token control = u64_to_be_bytes seq"
      "\<exists>c. del_cursor control = Some c \<and> cur_batch_sequence c = seq"
      using step(3) by (auto simp: reorg_delivery_def bind_res_Ok_iff)
    have d2: "del_sequence d2 = seq2" "del_delivery_token d2 = u64_to_be_bytes seq2"
      "del_cursor d2 = Some (c\<lparr>cur_batch_sequence := seq2\<rparr>)"
      using step(2) d(4) by (auto simp: set_delivery_sequence_def)
    have "unat seq2 = Suc (unat seq)" using step(1) by (simp add: u64_simps)
    with step(4,5) control d2 d seq' show ?thesis
      by (auto simp: engine_inv_def wf_pending_def advances_to_def)
  qed
qed

lemma next_batch_inv:
  assumes inv: "engine_inv eng" and ok: "next_batch env eng to_excl k = (Ok (out, eng'), k')"
  shows "engine_inv eng' \<and>
    (case se_pending eng of
       Some p \<Rightarrow> out = Some (pd_delivery p) \<and> eng' = eng \<and> k' = k
     | None \<Rightarrow> map_option pd_delivery (se_pending eng') = out \<and>
         se_committed_sequence eng' = se_committed_sequence eng \<and>
         se_committed_next_block eng' = se_committed_next_block eng)"
proof (cases "se_pending eng")
  case (Some p)
  with ok inv show ?thesis by (auto simp: next_batch_def)
next
  case None
  show ?thesis
  proof (cases "to_excl \<le> se_committed_next_block eng")
    case True
    with ok inv None show ?thesis by (auto simp: next_batch_def)
  next
    case False
    with ok None obtain seq prepared k1 where seq: "checked_add (se_committed_sequence eng) 1 = Some seq"
      and loop: "batch_loop env eng to_excl seq (for_range (se_committed_next_block eng) to_excl) None k = (Ok prepared, k1)"
      and commit: "commit_prepared env eng seq prepared = Ok (out, eng')"
      by (auto simp: next_batch_def result_simps)
    have "tracker_inv (se_canonical eng)" using inv by (simp add: engine_inv_def)
    with batch_loop_ok loop have "prepared_ok env eng seq prepared" by blast
    from commit_prepared_inv [OF inv None seq this commit] None show ?thesis by simp
  qed
qed

lemma acknowledge_inv:
  assumes inv: "engine_inv eng" and ok: "acknowledge eng token = Ok eng'"
  shows "engine_inv eng' \<and>
    (\<exists>p. se_pending eng = Some p \<and> token = del_delivery_token (pd_delivery p) \<and>
       se_committed_sequence eng' = del_sequence (pd_delivery p) \<and> se_pending eng' = se_queued eng)"
proof -
  from ok obtain p c where p: "se_pending eng = Some p" "token = del_delivery_token (pd_delivery p)"
    "del_cursor (pd_delivery p) = Some c"
    and eng': "eng' = (if pd_advances_source p
        then eng\<lparr>se_committed_next_block := cur_next_block c, se_previous_guard := pd_rollback_guard p\<rparr>
        else eng)\<lparr>se_committed_sequence := del_sequence (pd_delivery p),
      se_coverage_head := cur_canonical_head c, se_pending := se_queued eng, se_queued := None\<rparr>"
    by (auto simp: acknowledge_def result_simps Let_def split: if_splits)
  show ?thesis
    using inv p eng' by (auto simp: engine_inv_def advances_to_def split: option.splits)
qed

lemma acknowledge_accepts:
  assumes "engine_inv eng" "se_pending eng = Some p"
  shows "\<exists>eng'. acknowledge eng (del_delivery_token (pd_delivery p)) = Ok eng'"
  using assms by (auto simp: engine_inv_def wf_pending_def acknowledge_def)

lemma acknowledge_external_control_inv:
  assumes "engine_inv eng" "acknowledge_external_control eng seq = Ok eng'"
  shows "engine_inv eng' \<and> se_committed_sequence eng \<le> se_committed_sequence eng'"
  using assms by (auto simp: acknowledge_external_control_def engine_inv_def split: if_splits)

lemma synchronize_committed_cursor_inv:
  assumes "engine_inv eng" "synchronize_committed_cursor eng resume = Ok eng'"
  shows "engine_inv eng' \<and> se_committed_sequence eng \<le> se_committed_sequence eng'"
proof -
  obtain canonical guard r where idle: "se_pending eng = None"
    and c: "apply_blocks (tracker_new (ct_depth (se_canonical eng))) (sr_canonical_blocks resume) = Ok (canonical, r)"
    and g: "validate_resume_state canonical (sr_next_block resume) (sr_provider_checkpoint resume) = Ok guard"
    and eng': "se_canonical eng' = canonical" "se_pending eng' = se_pending eng" "se_queued eng' = se_queued eng"
      "se_committed_next_block eng' = sr_next_block resume" "se_previous_guard eng' = guard"
      "se_committed_sequence eng' = sr_sequence resume" "\<not> sr_sequence resume < se_committed_sequence eng"
    using assms(2)
    by (auto simp: synchronize_committed_cursor_def restore_blocks_def result_simps split: if_splits)
  have "tracker_inv canonical" using apply_blocks_inv [OF tracker_new_inv c] .
  with validate_resume_state_positioned [OF g] idle eng' assms(1) show ?thesis
    by (simp add: engine_inv_def not_less)
qed

section \<open>The engine honours the contract\<close>

definition engine_inflight :: "SourceEngine \<Rightarrow> Delivery option" where
  "engine_inflight eng = map_option pd_delivery (se_pending eng)"

text \<open>A pull asks for a batch up to a target, at a point in the life of the source.\<close>

definition engine_pull ::
    "'f EngineEnv \<Rightarrow> SourceEngine \<Rightarrow> u64 \<times> nat \<Rightarrow> SourceEngineError + Delivery option \<times> SourceEngine" where
  "engine_pull env eng request = fst (next_batch env eng (fst request) (snd request))"

lemma engine_pull_Ok:
  "engine_pull env eng request = Ok r \<Longrightarrow> \<exists>k'. next_batch env eng (fst request) (snd request) = (Ok r, k')"
  by (metis engine_pull_def prod.collapse)

interpretation engine: in_flight_source engine_inv engine_inflight se_committed_sequence
  "engine_pull env" acknowledge for env :: "'f EngineEnv"
proof
  fix s s' :: SourceEngine and i :: "u64 \<times> nat" and out :: "Delivery option" and d :: Delivery
    and token :: bytes
  assume inv: "engine_inv s"
  show "engine_inv s'" if "engine_pull env s i = Ok (out, s')"
    using engine_pull_Ok [OF that] next_batch_inv [OF inv] by blast
  show "engine_pull env s i = Ok (Some d, s)" if "engine_inflight s = Some d"
    using that by (auto simp: engine_inflight_def engine_pull_def next_batch_def)
  show "engine_inflight s' = out \<and> se_committed_sequence s' = se_committed_sequence s"
    if "engine_inflight s = None" "engine_pull env s i = Ok (out, s')"
    using engine_pull_Ok [OF that(2)] next_batch_inv [OF inv] that(1) by (fastforce simp: engine_inflight_def)
  show "unat (del_sequence d) = Suc (unat (se_committed_sequence s)) \<and>
      del_delivery_token d = u64_to_be_bytes (del_sequence d)" if "engine_inflight s = Some d"
    using inv that by (auto simp: engine_inflight_def engine_inv_def wf_pending_def)
  show "engine_inv s'" if "acknowledge s token = Ok s'"
    using acknowledge_inv [OF inv that] by blast
  show "\<exists>d. engine_inflight s = Some d \<and> token = del_delivery_token d \<and> se_committed_sequence s' = del_sequence d"
    if "acknowledge s token = Ok s'"
    using acknowledge_inv [OF inv that] by (auto simp: engine_inflight_def)
  show "\<exists>s'. acknowledge s (del_delivery_token d) = Ok s'" if "engine_inflight s = Some d"
    using acknowledge_accepts [OF inv] that by (auto simp: engine_inflight_def)
qed

text \<open>The states the operations of the engine lead to.\<close>

inductive reachable :: "'f EngineEnv \<Rightarrow> SourceEngine \<Rightarrow> bool" for env where
  reach_new: "reachable env (engine_new ds next_block activation depth)"
| reach_restore: "restore ds resume depth = Ok eng \<Longrightarrow> reachable env eng"
| reach_budget: "reachable env eng \<Longrightarrow> with_max_delivery_bytes eng n = Ok eng' \<Longrightarrow> reachable env eng'"
| reach_limits: "reachable env eng \<Longrightarrow> reachable env (with_response_limits eng limits)"
| reach_batch: "reachable env eng \<Longrightarrow> next_batch env eng to_excl k = (Ok (out, eng'), k') \<Longrightarrow> reachable env eng'"
| reach_ack: "reachable env eng \<Longrightarrow> acknowledge eng token = Ok eng' \<Longrightarrow> reachable env eng'"
| reach_control: "reachable env eng \<Longrightarrow> acknowledge_external_control eng seq = Ok eng' \<Longrightarrow> reachable env eng'"
| reach_sync: "reachable env eng \<Longrightarrow> synchronize_committed_cursor eng resume = Ok eng' \<Longrightarrow> reachable env eng'"

lemma reachable_engine_inv: "reachable env eng \<Longrightarrow> engine_inv eng"
proof (induction rule: reachable.induct)
  case (reach_budget eng n eng')
  then show ?case
    by (cases "se_pending eng"; cases "se_queued eng")
       (auto simp: with_max_delivery_bytes_def engine_inv_def split: if_splits)
next
  case (reach_limits eng limits)
  then show ?case
    by (cases "se_pending eng"; cases "se_queued eng") (simp_all add: with_response_limits_def engine_inv_def)
next
  case (reach_new ds next_block activation depth)
  then show ?case by (rule engine_new_inv)
next
  case (reach_restore ds resume depth eng)
  then show ?case by (rule restore_inv)
next
  case (reach_batch eng to_excl k out eng' k')
  then show ?case using next_batch_inv by blast
next
  case (reach_ack eng token eng')
  then show ?case using acknowledge_inv by blast
next
  case (reach_control eng seq eng')
  then show ?case using acknowledge_external_control_inv by blast
next
  case (reach_sync eng resume eng')
  then show ?case using synchronize_committed_cursor_inv by blast
qed


section \<open>Properties\<close>

text \<open>
  C16: In every reachable state the engine is consistent: the retained history is a bounded linked
  chain; at most one delivery is in flight, with the next sequence number, its big-endian token
  and a cursor; a queued replacement follows its reorg control directly; and the committed
  position (or the position the pending data advances to) is the successor of a retained block
  that the rollback guard describes.
\<close>

theorem engine_reachable_invariant:
  assumes "reachable env eng"
  shows "engine_inv eng"
  using reachable_engine_inv [OF assms] .

text \<open>
  C2: Delivery is at least once and in order. From any reachable state, whatever a client pulls and
  acknowledges and however the source answers, the deliveries it acknowledges carry consecutive
  sequence numbers starting right after the committed one, and the committed sequence is the
  last of them.
\<close>

theorem engine_acks_consecutive:
  assumes "reachable env eng"
    and "client_run (engine_pull env) acknowledge engine_inflight eng actions = (acked, eng')"
  shows "map (\<lambda>d. unat (del_sequence d)) acked =
      [Suc (unat (se_committed_sequence eng))..<Suc (unat (se_committed_sequence eng) + length acked)] \<and>
    unat (se_committed_sequence eng') = unat (se_committed_sequence eng) + length acked"
  using engine.acked_consecutive [OF reachable_engine_inv [OF assms(1)] assms(2)] by simp

text \<open>
  C33: A delivery in flight is replayed verbatim, from memory, until its token is acknowledged.
  Asking for a batch again returns the same delivery, leaves the engine unchanged and consumes no
  answer of the source; an acknowledgement with any other token is refused; so whatever a client
  pulls and acknowledges, as long as the token itself is not among the acknowledgements, the
  engine stays as it is and nothing is committed. The acknowledgement of the token always
  succeeds, commits the sequence of the delivery and puts the queued replacement, if any, in
  flight.
\<close>

theorem engine_replays_in_flight:
  assumes "reachable env eng" and "se_pending eng = Some p"
  shows "next_batch env eng to_excl k = (Ok (Some (pd_delivery p), eng), k) \<and>
    (\<forall>token. token \<noteq> del_delivery_token (pd_delivery p) \<longrightarrow> acknowledge eng token = Err DeliveryTokenMismatch) \<and>
    (\<forall>actions. Ack (del_delivery_token (pd_delivery p)) \<notin> set actions \<longrightarrow>
       client_run (engine_pull env) acknowledge engine_inflight eng actions = ([], eng)) \<and>
    (\<exists>eng'. acknowledge eng (del_delivery_token (pd_delivery p)) = Ok eng' \<and>
       se_committed_sequence eng' = del_sequence (pd_delivery p) \<and> se_pending eng' = se_queued eng)"
proof -
  have inv: "engine_inv eng" using reachable_engine_inv [OF assms(1)] .
  obtain eng' where ack: "acknowledge eng (del_delivery_token (pd_delivery p)) = Ok eng'"
    using acknowledge_accepts [OF inv assms(2)] by blast
  have "engine_inflight eng = Some (pd_delivery p)" using assms(2) by (simp add: engine_inflight_def)
  note idle = engine.unacknowledged_run [OF inv this, of _ env]
  have "acknowledge eng token = Err DeliveryTokenMismatch" if "token \<noteq> del_delivery_token (pd_delivery p)" for token
    using that assms(2) by (simp add: acknowledge_def)
  with idle acknowledge_inv [OF inv ack] assms(2) ack show ?thesis by (simp add: next_batch_def)
qed









section \<open>Witnesses: a fork met by a live engine\<close>

text \<open>
  The engine restored from the history \<open>1, 2, 3\<close> meets a source whose chain forks after block 2.
\<close>

definition live_engine :: SourceEngine where
  "live_engine = forked_engine\<lparr>se_desired_state := sample_desired\<rparr>"

definition live_resume :: SourceResume where
  "live_resume =
     \<lparr>sr_next_block = 4, sr_sequence = 0, sr_activation_block = 0,
      sr_owner_backfill_activation_block = Some 0, sr_canonical_blocks = ct_blocks sample_tracker,
      sr_provider_checkpoint = se_previous_guard forked_engine, sr_coverage_head = None\<rparr>"

abbreviation live_env :: "SampleFilter EngineEnv" where
  "live_env \<equiv> sample_env forked_chain"

lemma live_reachable: "reachable env live_engine"
proof (rule reach_restore)
  have "apply_blocks (tracker_new 4) (ct_blocks sample_tracker) = Ok (sample_tracker, None)"
    using restore_run [OF sample_tracker_inv, of 4] by (simp add: sample_tracker_def)
  then have tracker: "restored_tracker 4 (ct_blocks sample_tracker) = Ok sample_tracker"
    by (simp add: restored_tracker_def) (simp add: sample_tracker_def)
  have "validate_resume_state sample_tracker 4 (se_previous_guard forked_engine) =
      Ok (se_previous_guard forked_engine)"
    by (simp add: validate_resume_state_def forked_engine_def tip_def sample_tracker_def sample_block_def
        checked_add_def i64_try_from_u64_def)
  with tracker show "restore sample_desired live_resume 4 = Ok live_engine"
    by (simp add: restore_def live_resume_def validate_coverage_state_def live_engine_def forked_engine_def
        engine_new_def)
qed

lemma live_query:
  assumes "n = 3 \<or> n = 4"
  shows "query_page live_env live_engine n 9 limits k = (Ok (chain_page (forked_chain n)), Suc k)"
proof -
  have n: "br_number (forked_chain n) = n" "wf_block (forked_chain n)" "n < 9"
      "0 \<le> sint (br_timestamp (forked_chain n))"
    using assms by (auto simp: forked_chain_def sample_block_def wf_block_def sint_nonneg_iff)
  have limits: "se_response_limits live_engine = default_response_limits"
    by (simp add: live_engine_def forked_engine_def engine_new_def)
  have "\<exists>q. compile_query_with_limits sample_builder sample_desired n (Some 9)
      (ql_max_blocks limits) (ql_max_logs limits) = Ok q \<and> q_from_block q = n"
    using assms
    by (auto simp: compile_query_with_limits_def compile_interests_def compile_interest_def
      sample_desired_def sample_interest_def validate_log_filter_def canonical_log_filter_def
      collect_filter_def MAX_COMPILED_LOG_FILTERS_def build_filter_def build_topic_def
      sample_builder_def check_width_def pop_trailing_empty.simps sample_topics_ordered)
  moreover have "admit_page live_env live_engine n 9 (chain_page (forked_chain n)) =
      Ok (chain_page (forked_chain n))"
    using chain_page_admitted [OF n(2) _ n(4) limits, of 9 forked_chain] n(1,3) by simp
  ultimately show ?thesis
    by (auto simp: query_page_def bind_io_def pure_io_def query_io_def live_engine_def)
       (auto simp: sample_env_def)
qed

lemma live_prepare:
  "\<exists>d g canonical. prepare_batch live_env live_engine (chain_page (forked_chain 3)) 1 None =
     Ok (d, g, canonical, Some \<lparr>rd_common_ancestor = sample_block 2 2 1, rd_old_tip = sample_block 3 3 2,
        rd_new_tip = sample_block 3 13 2\<rparr>) \<and> (\<exists>c. del_cursor d = Some c)"
proof -
  let ?b = "sample_block 3 13 2" and ?page = "chain_page (forked_chain 3)"
  let ?t = "\<lparr>ct_depth = 4, ct_blocks = [sample_block 1 1 0, sample_block 2 2 1, sample_block 3 13 2]\<rparr>"
  have b: "forked_chain 3 = ?b" by (simp add: forked_chain_def)
  have wf: "wf_block ?b" by (simp add: wf_block_def sample_block_def)
  have blocks: "map_res block_ref (sp_blocks ?page) = Ok [?b]"
    by (simp add: chain_page_def b block_ref_chain_row wf)
  have "admit_page live_env live_engine 3 9 ?page = Ok ?page"
    using live_query [of 3 "for_range 4 9" 0]
    by (auto simp: query_page_def result_simps query_io_def sample_env_def)
       (auto simp: admit_page_def result_simps split: if_splits)
  then have admitted: "is_ok (validate_source_page ?page 3 9)"
    by (auto simp: admit_page_def result_simps is_ok_iff split: if_splits)
  have "list_all (\<lambda>b. is_none_or (\<lambda>n. \<not> has_active_block_interest sample_desired n 0) (sb_number b) \<or>
      is_ok (encode_consensus_header sample_codec b)) (sp_blocks ?page)"
    by (simp add: chain_page_def chain_row_def has_active_block_interest_def sample_desired_def
        is_block_interest_def sample_interest_def)
  from normalize_page_total [OF admitted this, of 1]
  obtain d0 where d0: "normalize_page_at sample_codec sample_desired 1 ?page 0 = Ok d0"
    by (auto simp: is_ok_iff)
  then obtain c where c: "del_cursor d0 = Some c" using normalize_page_at_identity by blast
  have run: "apply_blocks sample_tracker [?b] = Ok (?t, Some \<lparr>rd_common_ancestor = sample_block 2 2 1,
      rd_old_tip = sample_block 3 3 2, rd_new_tip = sample_block 3 13 2\<rparr>)"
    by (simp add: sample_tracker_simps tracker_eval)
  obtain bytes where bytes: "encode_source_checkpoint (sp_rollback_guard ?page) 0 (ct_blocks ?t) = Ok bytes"
    by (simp add: encode_source_checkpoint_Ok_iff chain_page_def sample_block_def wf_block_def)
  obtain d where "finish_delivery live_engine bytes d0 = Ok d" "\<exists>c. del_cursor d = Some c"
    using c by (auto simp: finish_delivery_def Let_def split: option.splits Payload.splits)
  with blocks d0 run bytes show ?thesis
    by (simp add: prepare_batch_def live_engine_def forked_engine_def engine_new_def sample_env_def)
qed

lemma live_forks: "forks_once live_engine 1 3 forked_chain"
  using forked_engine_forks by (simp add: forks_once_def agrees_def live_engine_def)

lemma live_answers: "answers_from live_env live_engine 1 3 forked_chain"
  by (rule sample_env_answers)
     (auto simp: live_engine_def forked_engine_def engine_new_def forked_chain_def sample_block_def
       wf_block_def sint_nonneg_iff u64_order)

lemma live_recovery:
  "\<exists>k'. recover_rollback live_env live_engine 9 1 limits k =
     (prepare_batch live_env live_engine (chain_page (forked_chain 3)) 1 None, k')"
proof -
  have init: "se_previous_guard live_engine = Some \<lparr>rg_block_number = 3, rg_timestamp = 3,
      rg_hash = replicate 32 3, rg_first_block_number = 1, rg_first_parent_hash = replicate 32 0\<rparr>"
      "first_opt (ct_blocks (se_canonical live_engine)) = Some (sample_block 1 1 0)"
      "tip (se_canonical live_engine) = Some (sample_block 3 3 2)"
    by (simp_all add: live_engine_def forked_engine_def sample_tracker_def tip_def)
  obtain r k1 where r: "newest_agreement live_engine forked_chain 1 3 r"
    and run: "recover_rollback live_env live_engine 9 1 limits k =
      (case r of
         None \<Rightarrow> (Err (CanonicalFault (HistoryExhausted (saturating_sub 1 1))), k1)
       | Some c \<Rightarrow>
           bind_io (query_page live_env live_engine (c + 1) 9 limits)
             (\<lambda>page. pure_io (prepare_batch live_env live_engine page 1 None)) k1)"
    using recovery_search [OF init _ _ _ _ live_answers live_forks,
        where fuel = 3 and k = k and to_excl = 9 and seq = 1 and limits = limits]
    by (auto simp: sample_block_def)
  have two: "agrees live_engine forked_chain 2" and three: "\<not> agrees live_engine forked_chain 3"
    by (simp_all add: agrees_def live_engine_def forked_engine_def block_def sample_tracker_def
        forked_chain_def sample_block_def)
  have "r = Some 2"
  proof (cases r)
    case None
    with r two show ?thesis by (auto simp: newest_agreement_def)
  next
    case (Some c)
    with r have "1 \<le> c \<and> c \<le> 3" "agrees live_engine forked_chain c" "\<not> c < 2"
      using two by (auto simp: newest_agreement_def)
    with three three_blocks [of c] Some show ?thesis by auto
  qed
  then show ?thesis using run live_query [of 3 limits k1] by (simp add: bind_io_def pure_io_def)
qed

lemma live_fork_announced:
  "\<exists>d eng' k' r. next_batch live_env live_engine 9 0 = (Ok (Some d, eng'), k') \<and>
     del_payload d = Some (PayloadReorg r) \<and> se_pending eng' \<noteq> None"
proof -
  obtain d g canonical c where prep: "prepare_batch live_env live_engine (chain_page (forked_chain 3)) 1 None =
     Ok (d, g, canonical, Some \<lparr>rd_common_ancestor = sample_block 2 2 1, rd_old_tip = sample_block 3 3 2,
        rd_new_tip = sample_block 3 13 2\<rparr>)" and c: "del_cursor d = Some c"
    using live_prepare by blast
  have eng: "se_pending live_engine = None" "se_committed_next_block live_engine = 4"
      "se_committed_sequence live_engine = 0" "se_activation_block live_engine = 0"
      "se_max_delivery_bytes live_engine = MAX_DELIVERY_SIZE_BYTES" "se_canonical live_engine = sample_tracker"
    by (simp_all add: live_engine_def forked_engine_def engine_new_def)
  have rollback: "rollback_detected live_engine (chain_page (forked_chain 4))"
    by (simp add: rollback_detected_def live_engine_def forked_engine_def chain_page_def forked_chain_def
        sample_block_def saturating_add_def)
  have anchor: "query_canonical_anchor live_env live_engine page = pure_io (Ok None)" for page
    by (simp add: query_canonical_anchor_def is_empty_def eng) (simp add: sample_tracker_def)
  have budget: "env_encoded_len live_env x \<le> MAX_DELIVERY_SIZE_BYTES" for x
    by (simp add: sample_env_def MAX_DELIVERY_SIZE_BYTES_def MAX_MESSAGE_SIZE_BYTES_def)
  let ?p = "(d, g, canonical, Some \<lparr>rd_common_ancestor = sample_block 2 2 1, rd_old_tip = sample_block 3 3 2,
        rd_new_tip = sample_block 3 13 2\<rparr>)"
  obtain k1 where rec: "recover_rollback live_env live_engine 9 1 (for_range 4 9) 1 = (Ok ?p, k1)"
    using live_recovery [of "for_range 4 9" 1] prep by auto
  have loop: "batch_loop live_env live_engine 9 1 (for_range 4 9) None 0 = (Ok ?p, k1)"
    using live_query [of 4 "for_range 4 9" 0] rec
    by (simp add: batch_loop.simps [of live_env live_engine 9 1 "for_range 4 9" None] eng anchor rollback
        budget bind_io_def pure_io_def)
  let ?reorg = "\<lparr>rd_common_ancestor = sample_block 2 2 1, rd_old_tip = sample_block 3 3 2,
        rd_new_tip = sample_block 3 13 2\<rparr>"
  have encodes: "\<exists>bytes. encode_source_checkpoint (Some guard) 0
      (takeWhile (\<lambda>b. br_number b \<le> 2) (ct_blocks sample_tracker)) = Ok bytes" for guard
    by (simp add: encode_source_checkpoint_Ok_iff) (simp add: sample_tracker_def sample_block_def wf_block_def)
  obtain guard where guard: "rollback_guard_at (sample_block 2 2 1) = Ok guard"
    by (simp add: rollback_guard_at_def sample_block_def i64_try_from_u64_def)
  obtain bytes where bytes: "encode_source_checkpoint (Some guard) 0
      (takeWhile (\<lambda>b. br_number b \<le> 2) (ct_blocks sample_tracker)) = Ok bytes"
    using encodes by blast
  have number: "br_number (sample_block 2 2 1) = 2" by (simp add: sample_block_def)
  obtain control r where control: "reorg_delivery live_engine 1 ?reorg = Ok control"
      "del_payload control = Some (PayloadReorg r)"
    by (simp add: reorg_delivery_def guard bytes number eng checked_add_def)
  have "\<exists>eng'. commit_prepared live_env live_engine 1 ?p = Ok (Some control, eng') \<and> se_pending eng' \<noteq> None"
    using c budget control(1)
    by (simp add: commit_prepared_def set_delivery_sequence_def eng checked_add_def Let_def not_less)
  with control(2) have commit: "\<exists>control eng' r. commit_prepared live_env live_engine 1 ?p =
      Ok (Some control, eng') \<and> del_payload control = Some (PayloadReorg r) \<and> se_pending eng' \<noteq> None"
    by blast
  then show ?thesis
    using loop by (auto simp: next_batch_def eng checked_add_def bind_io_def pure_io_def)
qed

lemma live_state:
  "se_pending live_engine = None" "ct_blocks (se_canonical live_engine) \<noteq> []"
  "se_committed_sequence live_engine = 0"
  by (simp_all add: live_engine_def forked_engine_def engine_new_def sample_tracker_def)

lemma token_nonempty: "u64_to_be_bytes n \<noteq> []"
  by (metis length_u64_to_be_bytes length_0_conv zero_neq_numeral)

lemma live_pull:
  obtains d eng' k' r where "next_batch live_env live_engine 9 0 = (Ok (Some d, eng'), k')"
    "del_payload d = Some (PayloadReorg r)" "engine_inflight eng' = Some d" "reachable live_env eng'"
    "del_delivery_token d = u64_to_be_bytes 1" "engine_inv eng'"
proof -
  obtain d eng' k' r where run: "next_batch live_env live_engine 9 0 = (Ok (Some d, eng'), k')"
    and reorg: "del_payload d = Some (PayloadReorg r)"
    using live_fork_announced by blast
  have reach: "reachable live_env eng'" using reach_batch [OF live_reachable run] .
  have inv': "engine_inv eng'" using reachable_engine_inv [OF reach] .
  have next_step: "map_option pd_delivery (se_pending eng') = Some d"
      "se_committed_sequence eng' = 0"
    using next_batch_inv [OF reachable_engine_inv [OF live_reachable] run] live_state by simp_all
  then have "unat (del_sequence d) = 1" "del_delivery_token d = u64_to_be_bytes (del_sequence d)"
    using inv' by (auto simp: engine_inv_def wf_pending_def)
  moreover from this(1) have "del_sequence d = 1" by (simp add: word_unat_eq_iff)
  ultimately show thesis using that [OF run reorg _ reach _ inv'] next_step(1) by (simp add: engine_inflight_def)
qed

theorem engine_reachable_invariant_witness:
  "\<exists>eng. reachable live_env eng \<and> se_pending eng \<noteq> None \<and> engine_inv eng"
proof -
  obtain d eng' where "engine_inflight eng' = Some d" and reach: "reachable live_env eng'" by (rule live_pull)
  with engine_reachable_invariant [OF reach] show ?thesis by (auto simp: engine_inflight_def)
qed

theorem engine_acks_consecutive_witness:
  "\<exists>d eng'. reachable live_env live_engine \<and>
     client_run (engine_pull live_env) acknowledge engine_inflight live_engine
       [Pull (9, 0), Ack [], Ack (u64_to_be_bytes 1)] = ([d], eng') \<and>
     unat (del_sequence d) = 1 \<and> unat (se_committed_sequence eng') = 1"
proof -
  obtain d eng k' r where run: "next_batch live_env live_engine 9 0 = (Ok (Some d, eng), k')"
    and inflight: "engine_inflight eng = Some d" and token: "del_delivery_token d = u64_to_be_bytes 1"
    and inv: "engine_inv eng" by (rule live_pull)
  obtain eng' where ack: "acknowledge eng (u64_to_be_bytes 1) = Ok eng'"
    using acknowledge_accepts [OF inv] inflight token by (auto simp: engine_inflight_def)
  have "acknowledge eng [] = Err DeliveryTokenMismatch"
    using inflight token token_nonempty by (auto simp: engine_inflight_def acknowledge_def)
  then have client: "client_run (engine_pull live_env) acknowledge engine_inflight live_engine
      [Pull (9, 0), Ack [], Ack (u64_to_be_bytes 1)] = ([d], eng')"
    using run inflight ack by (simp add: engine_pull_def)
  from engine_acks_consecutive [OF live_reachable client] live_reachable client live_state(3) show ?thesis by simp
qed




theorem engine_replays_in_flight_witness:
  "\<exists>eng p. reachable live_env eng \<and> se_pending eng = Some p \<and>
     next_batch live_env eng 9 5 = (Ok (Some (pd_delivery p), eng), 5) \<and>
     acknowledge eng [] = Err DeliveryTokenMismatch"
proof -
  obtain d eng where inflight: "engine_inflight eng = Some d" and reach: "reachable live_env eng"
    and token: "del_delivery_token d = u64_to_be_bytes 1" by (rule live_pull)
  obtain p where p: "se_pending eng = Some p" "pd_delivery p = d" using inflight by (auto simp: engine_inflight_def)
  have "[] \<noteq> del_delivery_token (pd_delivery p)" using token p(2) token_nonempty [of 1] by simp
  with engine_replays_in_flight [OF reach p(1), of 9 5] reach p(1) show ?thesis by blast
qed

end
