(* ===== verification/Delivery_Validation.thy ===== *)
theory Delivery_Validation
  imports Desired_State Normalize
begin

text \<open>
  The delivery validators of \<open>event-service/src/session_store.rs\<close>: what a delivery must satisfy
  before it may occupy the durable outbox, judged against the authoritative desired state and
  the last acknowledged cursor.

  The protobuf and RLP codecs, the Keccak hash and the size of a varint belong to third-party
  crates; they are the parameter \<open>StoreEnv\<close>. The hash sets and hash maps of the record loop are
  sets and maps of the scan state \<open>PayloadScan\<close>.
\<close>

section \<open>Data\<close>

datatype SessionStoreError =
    Database
  | Decode
  | Schema string
  | StoreDesiredState DesiredStateError
  | StoreRevisionConflict u64 u64
  | IntegerRange string
  | SequenceOverflow
  | UnknownSession
  | StorePendingDelivery
  | PersistedSessionLimit usize
  | StoreNoPendingDelivery
  | StoreDeliveryTokenMismatch
  | InvalidDelivery string
  | StoreDeliveryTooLarge usize usize

record StoreEnv =
  st_encoded_len :: "Delivery \<Rightarrow> usize"
  st_length_delimiter_len :: "usize \<Rightarrow> usize"
  st_decode_header :: "bytes \<Rightarrow> (ConsensusHeader \<times> bytes) option"
  st_hash_slow :: "ConsensusHeader \<Rightarrow> bytes"
  st_enc_desired :: "ApplyDesiredState \<Rightarrow> bytes"
  st_dec_desired :: "bytes \<Rightarrow> ApplyDesiredState option"
  st_enc_cursor :: "Cursor \<Rightarrow> bytes"
  st_dec_cursor :: "bytes \<Rightarrow> Cursor option"
  st_enc_delivery :: "Delivery \<Rightarrow> bytes"
  st_dec_delivery :: "bytes \<Rightarrow> Delivery option"
  st_enc_block :: "BlockRef \<Rightarrow> bytes"
  st_dec_block :: "bytes \<Rightarrow> BlockRef option"

type_synonym EventOrder = "u64 \<times> u8 \<times> u64 \<times> u64"

record PayloadScan =
  ps_explicit_headers :: "u64 set"
  ps_explicit_progress :: "u64 set"
  ps_block_identities :: "u64 \<rightharpoonup> bytes \<times> u64"
  ps_log_identities :: "(bytes \<times> u64) set"
  ps_transaction_indexes :: "bytes \<times> bytes \<rightharpoonup> u64"
  ps_transaction_hashes :: "bytes \<times> u64 \<rightharpoonup> bytes"
  ps_last_event_order :: "EventOrder option"
  ps_highest_canonical_record :: "u64 option"
  ps_highest_canonical_coverage :: "u64 option"

definition scan_start :: PayloadScan where
  "scan_start =
     \<lparr>ps_explicit_headers = {}, ps_explicit_progress = {}, ps_block_identities = Map.empty,
      ps_log_identities = {}, ps_transaction_indexes = Map.empty,
      ps_transaction_hashes = Map.empty, ps_last_event_order = None,
      ps_highest_canonical_record = None, ps_highest_canonical_coverage = None\<rparr>"

section \<open>Shapes\<close>

definition validate_delivery_size :: "StoreEnv \<Rightarrow> Delivery \<Rightarrow> usize \<Rightarrow> SessionStoreError + unit" where
  "validate_delivery_size env delivery max_delivery_bytes =
     (let delivery_bytes = st_encoded_len env delivery;
          encoded_bytes = usize_saturating_add
            (usize_saturating_add delivery_bytes (st_length_delimiter_len env delivery_bytes)) 1 in
      if max_delivery_bytes < encoded_bytes
        then Err (StoreDeliveryTooLarge encoded_bytes max_delivery_bytes)
      else Ok ())"

definition validate_block_ref :: "BlockRef \<Rightarrow> SessionStoreError + unit" where
  "validate_block_ref blk =
     (if length (br_hash blk) \<noteq> 32 \<or> length (br_parent_hash blk) \<noteq> 32
        then Err (InvalidDelivery ''block reference hashes must be 32 bytes'')
      else Ok ())"

definition validate_reorg_shape :: "BlockRef \<Rightarrow> BlockRef \<Rightarrow> BlockRef \<Rightarrow> SessionStoreError + unit" where
  "validate_reorg_shape ancestor old_tip new_tip =
     (let direct_old_parent_mismatch = br_number old_tip = saturating_add (br_number ancestor) 1 \<and>
            br_parent_hash old_tip \<noteq> br_hash ancestor;
          direct_new_parent_mismatch = br_number new_tip = saturating_add (br_number ancestor) 1 \<and>
            br_parent_hash new_tip \<noteq> br_hash ancestor in
      if br_number old_tip \<le> br_number ancestor \<or> br_number new_tip \<le> br_number ancestor \<or>
         br_timestamp old_tip \<le> br_timestamp ancestor \<or> br_timestamp new_tip \<le> br_timestamp ancestor \<or>
         br_hash old_tip = br_hash new_tip \<or> br_hash old_tip = br_hash ancestor \<or>
         br_hash new_tip = br_hash ancestor \<or> direct_old_parent_mismatch \<or> direct_new_parent_mismatch
        then Err (InvalidDelivery ''reorg tips do not describe two distinct descendant branches'')
      else Ok ())"

definition validate_consensus_header :: "StoreEnv \<Rightarrow> bytes \<Rightarrow> BlockRef \<Rightarrow> SessionStoreError + unit" where
  "validate_consensus_header env encoded blk =
     (case st_decode_header env encoded of
        None \<Rightarrow> Err (InvalidDelivery ''block header contains invalid consensus RLP'')
      | Some (header, remaining) \<Rightarrow>
          (if remaining \<noteq> [] \<or> st_hash_slow env header \<noteq> br_hash blk \<or>
              ch_number header \<noteq> br_number blk \<or> ch_parent_hash header \<noteq> br_parent_hash blk \<or>
              ch_timestamp header \<noteq> br_timestamp blk
             then Err (InvalidDelivery ''block header RLP does not match its block reference'')
           else Ok ()))"

definition validate_block_identity ::
    "(u64 \<rightharpoonup> bytes \<times> u64) \<Rightarrow> u64 \<Rightarrow> bytes \<Rightarrow> u64 \<Rightarrow> SessionStoreError + (u64 \<rightharpoonup> bytes \<times> u64)" where
  "validate_block_identity identities number hash timestamp =
     (case identities number of
        Some (known_hash, known_timestamp) \<Rightarrow>
          (if known_hash \<noteq> hash \<or> known_timestamp \<noteq> timestamp
             then Err (InvalidDelivery ''records for one block height disagree on hash or timestamp'')
           else Ok identities)
      | None \<Rightarrow> Ok (identities(number \<mapsto> (hash, timestamp))))"

section \<open>Control deliveries\<close>

definition is_activation_delivery :: "Delivery \<Rightarrow> u64 \<Rightarrow> bool" where
  "is_activation_delivery delivery revision =
     (case del_cursor delivery of
        None \<Rightarrow> False
      | Some _ \<Rightarrow>
          (case del_payload delivery of
             Some (PayloadBarrier barrier) \<Rightarrow>
               bar_id barrier = as_bytes (''desired-state:'' @ decimal (unat revision)) \<and>
               bar_block barrier = None
           | _ \<Rightarrow> False))"

definition is_cursor_progress_barrier :: "Delivery \<Rightarrow> bool" where
  "is_cursor_progress_barrier delivery =
     (case del_cursor delivery of
        None \<Rightarrow> False
      | Some cursor \<Rightarrow>
          (case del_payload delivery of
             Some (PayloadBarrier barrier) \<Rightarrow>
               bar_block barrier = None \<and>
               bar_id barrier = as_bytes (''source-progress:'' @
                 decimal (unat (del_query_revision delivery)) @ '':'' @
                 decimal (unat (cur_next_block cursor)))
           | _ \<Rightarrow> False))"

definition cursor_head :: "Cursor option \<Rightarrow> BlockRef option" where
  "cursor_head cursor = Option.bind cursor cur_canonical_head"

definition retained_baseline_of :: "ApplyDesiredState \<Rightarrow> BlockRef option" where
  "retained_baseline_of desired_state =
     Option.bind (Option.bind (find oi_canonical (ads_owners desired_state)) oi_backfill)
       bf_retained_baseline"

definition is_exact_activation :: "Cursor option \<Rightarrow> ApplyDesiredState \<Rightarrow> Delivery \<Rightarrow> bool" where
  "is_exact_activation acknowledged_cursor desired_state delivery =
     (let expected_head = or_else (cursor_head acknowledged_cursor) (retained_baseline_of desired_state) in
      is_activation_delivery delivery (ads_new_revision desired_state) \<and>
      ads_expected_revision desired_state =
        (case acknowledged_cursor of None \<Rightarrow> 0 | Some cursor \<Rightarrow> cur_query_revision cursor) \<and>
      del_query_revision delivery = ads_new_revision desired_state \<and>
      is_some_and (\<lambda>cursor. cur_canonical_head cursor = expected_head) (del_cursor delivery))"

definition validate_control_payload :: "Payload \<Rightarrow> SessionStoreError + unit" where
  "validate_control_payload payload =
     (case payload of
        PayloadReorg reorg \<Rightarrow>
          bind_res (ok_or (ro_common_ancestor reorg) (InvalidDelivery ''reorg is missing its common ancestor'')) (\<lambda>ancestor.
          bind_res (ok_or (ro_old_tip reorg) (InvalidDelivery ''reorg is missing its old tip'')) (\<lambda>old_tip.
          bind_res (ok_or (ro_new_tip reorg) (InvalidDelivery ''reorg is missing its new tip'')) (\<lambda>new_tip.
          bind_res (map_res validate_block_ref [ancestor, old_tip, new_tip]) (\<lambda>_.
          validate_reorg_shape ancestor old_tip new_tip))))
      | PayloadFinality finality \<Rightarrow>
          (case finality_kind_try_from (fin_kind finality) of
             None \<Rightarrow> Err (InvalidDelivery ''finality kind is unspecified or unknown'')
           | Some FinalityUnspecified \<Rightarrow> Err (InvalidDelivery ''finality kind is unspecified or unknown'')
           | Some _ \<Rightarrow>
               bind_res (ok_or (fin_block finality) (InvalidDelivery ''finality block is missing''))
                 validate_block_ref)
      | PayloadBarrier barrier \<Rightarrow>
          (if bar_id barrier = [] then Err (InvalidDelivery ''barrier identifier is empty'')
           else case bar_block barrier of
                  None \<Rightarrow> Ok ()
                | Some blk \<Rightarrow> validate_block_ref blk)
      | PayloadData _ \<Rightarrow> Ok ())"

section \<open>Data deliveries\<close>

definition event_order :: "Event \<Rightarrow> EventOrder" where
  "event_order event =
     (case event of
        EventBlockHeader header \<Rightarrow> (case bh_block header of None \<Rightarrow> 0 | Some b \<Rightarrow> br_number b, 0, 0, 0)
      | EventLog log \<Rightarrow> (le_block_number log, 1, le_transaction_index log, le_log_index log)
      | EventBlockProgress progress \<Rightarrow>
          (case bp_block progress of None \<Rightarrow> 0 | Some b \<Rightarrow> br_number b, 2, 0, 0))"

definition validate_audience :: "string set \<Rightarrow> EventRecord \<Rightarrow> SessionStoreError + unit" where
  "validate_audience known_owners record =
     (if er_canonical_audience record then
        (if er_owner_ids record \<noteq> [] then Err (InvalidDelivery ''canonical audience also names owners'')
         else Ok ())
      else if er_owner_ids record = [] \<or>
        list_ex (\<lambda>owner. owner = [] \<or> owner \<notin> known_owners) (er_owner_ids record) \<or>
        \<not> distinct (er_owner_ids record)
        then Err (InvalidDelivery ''owner audience is empty, duplicated, or not authoritative'')
      else Ok ())"

definition max_opt :: "u64 option \<Rightarrow> u64 \<Rightarrow> u64 option" where
  "max_opt known n = Some (case known of None \<Rightarrow> n | Some k \<Rightarrow> max k n)"

definition scan_order ::
    "DeliveryScope \<Rightarrow> Event \<Rightarrow> PayloadScan \<Rightarrow> SessionStoreError + PayloadScan" where
  "scan_order scope event scan =
     (let order = event_order event;
          is_block = (case event of EventLog _ \<Rightarrow> False | _ \<Rightarrow> True);
          scan = (if scope \<noteq> ScopeOwnerCatchup
            then scan\<lparr>ps_highest_canonical_record := max_opt (ps_highest_canonical_record scan) (fst order),
                   ps_highest_canonical_coverage :=
                     (if is_block then max_opt (ps_highest_canonical_coverage scan) (fst order)
                      else ps_highest_canonical_coverage scan)\<rparr>
            else scan) in
      if is_some_and (\<lambda>previous. order < previous) (ps_last_event_order scan)
        then Err (InvalidDelivery ''data records are not in canonical event order'')
      else Ok (scan\<lparr>ps_last_event_order := Some order\<rparr>))"

definition scan_log :: "LogEvent \<Rightarrow> PayloadScan \<Rightarrow> SessionStoreError + PayloadScan" where
  "scan_log log scan =
     (let identity = (le_block_hash log, le_log_index log);
          by_hash = (le_block_hash log, le_transaction_hash log);
          by_index = (le_block_hash log, le_transaction_index log) in
      if length (le_address log) \<noteq> 20 \<or> length (le_block_hash log) \<noteq> 32 \<or>
         length (le_transaction_hash log) \<noteq> 32 \<or> 4 < length (le_topics log) \<or>
         list_ex (\<lambda>topic. length topic \<noteq> 32) (le_topics log)
        then Err (InvalidDelivery ''log record has an invalid address, hash, or topic shape'')
      else if identity \<in> ps_log_identities scan
        then Err (InvalidDelivery ''delivery contains the same log more than once'')
      else if is_some_and (\<lambda>known. known \<noteq> le_transaction_index log) (ps_transaction_indexes scan by_hash) \<or>
         is_some_and (\<lambda>known. known \<noteq> le_transaction_hash log) (ps_transaction_hashes scan by_index)
        then Err (InvalidDelivery ''logs disagree on transaction hash/index identity within a block'')
      else
        bind_res (validate_block_identity (ps_block_identities scan) (le_block_number log)
          (le_block_hash log) (le_block_timestamp log)) (\<lambda>identities.
        Ok (scan\<lparr>ps_block_identities := identities,
               ps_log_identities := insert identity (ps_log_identities scan),
               ps_transaction_indexes := (ps_transaction_indexes scan)(by_hash \<mapsto> le_transaction_index log),
               ps_transaction_hashes := (ps_transaction_hashes scan)(by_index \<mapsto> le_transaction_hash log)\<rparr>)))"

definition scan_header ::
    "StoreEnv \<Rightarrow> BlockHeaderEvent \<Rightarrow> PayloadScan \<Rightarrow> SessionStoreError + PayloadScan" where
  "scan_header env header scan =
     bind_res (ok_or (bh_block header) (InvalidDelivery ''block header reference is missing'')) (\<lambda>blk.
     bind_res (validate_block_ref blk) (\<lambda>_.
     if bh_consensus_header_rlp header = [] \<or> 32 < length (bh_total_difficulty header) \<or>
        32 < length (bh_size header)
       then Err (InvalidDelivery ''block header encoding or quantity width is invalid'')
     else if br_number blk \<in> ps_explicit_headers scan
       then Err (InvalidDelivery ''delivery contains more than one full header record at a height'')
     else
       bind_res (validate_block_identity (ps_block_identities scan) (br_number blk) (br_hash blk)
         (br_timestamp blk)) (\<lambda>identities.
       bind_res (validate_consensus_header env (bh_consensus_header_rlp header) blk) (\<lambda>_.
       Ok (scan\<lparr>ps_explicit_headers := insert (br_number blk) (ps_explicit_headers scan),
              ps_block_identities := identities\<rparr>)))))"

definition scan_progress :: "BlockProgressEvent \<Rightarrow> PayloadScan \<Rightarrow> SessionStoreError + PayloadScan" where
  "scan_progress progress scan =
     bind_res (ok_or (bp_block progress) (InvalidDelivery ''block progress reference is missing'')) (\<lambda>blk.
     bind_res (validate_block_ref blk) (\<lambda>_.
     if br_number blk \<in> ps_explicit_progress scan
       then Err (InvalidDelivery ''delivery contains more than one compact progress record at a height'')
     else
       bind_res (validate_block_identity (ps_block_identities scan) (br_number blk) (br_hash blk)
         (br_timestamp blk)) (\<lambda>identities.
       Ok (scan\<lparr>ps_explicit_progress := insert (br_number blk) (ps_explicit_progress scan),
              ps_block_identities := identities\<rparr>))))"

definition record_event :: "EventRecord \<Rightarrow> Event option" where
  "record_event record = Option.bind (er_event record) ce_event"

definition scan_record ::
    "StoreEnv \<Rightarrow> string set \<Rightarrow> EventRecord \<Rightarrow> PayloadScan \<Rightarrow> SessionStoreError + PayloadScan" where
  "scan_record env known_owners record scan =
     bind_res (ok_or (delivery_scope_try_from (er_scope record))
       (InvalidDelivery ''data record has an unknown delivery scope'')) (\<lambda>scope.
     if scope = ScopeUnspecified
       then Err (InvalidDelivery ''data record has an unspecified delivery scope'')
     else
       bind_res (validate_audience known_owners record) (\<lambda>_.
       if scope = ScopeOwnerCatchup \<and> er_canonical_audience record
         then Err (InvalidDelivery ''owner catch-up cannot use canonical broadcast audience'')
       else
         bind_res (ok_or (record_event record) (InvalidDelivery ''data record is missing its chain event'')) (\<lambda>event.
         bind_res (scan_order scope event scan) (\<lambda>scan.
         bind_res (case event of
             EventLog log \<Rightarrow> scan_log log scan
           | EventBlockHeader header \<Rightarrow> scan_header env header scan
           | EventBlockProgress progress \<Rightarrow> scan_progress progress scan) (\<lambda>scan.
         if scope = ScopeOwnerCatchup \<and> (case event of EventBlockProgress _ \<Rightarrow> True | _ \<Rightarrow> False)
           then Err (InvalidDelivery ''owner catch-up cannot advance canonical block progress'')
         else Ok scan)))))"

definition validate_data_payload ::
    "StoreEnv \<Rightarrow> ApplyDesiredState \<Rightarrow> DataPayload \<Rightarrow> SessionStoreError + unit" where
  "validate_data_payload env desired_state data =
     (if dp_records data = [] then Err (InvalidDelivery ''data delivery contains no records'')
      else
        bind_res (fold_res (scan_record env
            (set (map oi_owner_id (filter (\<lambda>owner. \<not> oi_canonical owner) (ads_owners desired_state)))))
          (dp_records data) scan_start) (\<lambda>scan.
        case ps_highest_canonical_record scan of
          None \<Rightarrow> Ok ()
        | Some record \<Rightarrow>
            (if is_none_or (\<lambda>coverage. coverage < record) (ps_highest_canonical_coverage scan)
               then Err (InvalidDelivery (''canonical data is not certified by a final block identity '' @
                 ''at or above every canonical record''))
             else Ok ())))"

definition validate_delivery_payload ::
    "StoreEnv \<Rightarrow> ApplyDesiredState \<Rightarrow> Delivery \<Rightarrow> SessionStoreError + unit" where
  "validate_delivery_payload env desired_state delivery =
     bind_res (case cursor_head (del_cursor delivery) of None \<Rightarrow> Ok () | Some head \<Rightarrow> validate_block_ref head) (\<lambda>_.
     bind_res (ok_or (del_payload delivery) (InvalidDelivery ''delivery payload is missing'')) (\<lambda>payload.
     let is_neutral_control = is_activation_delivery delivery (ads_new_revision desired_state) \<or>
           is_cursor_progress_barrier delivery in
     if del_checkpoint_neutral delivery \<noteq> is_neutral_control
       then Err (InvalidDelivery (''checkpoint-neutral marker must identify exactly an activation '' @
         ''or scan-only progress barrier''))
     else case payload of
         PayloadData data \<Rightarrow> validate_data_payload env desired_state data
       | _ \<Rightarrow> validate_control_payload payload))"

section \<open>Progress\<close>

definition validate_owner_backfill_activation_boundary ::
    "Cursor option \<Rightarrow> ApplyDesiredState \<Rightarrow> Cursor \<Rightarrow> bool \<Rightarrow> SessionStoreError + unit" where
  "validate_owner_backfill_activation_boundary acknowledged_cursor desired_state cursor is_activation =
     (if is_activation then
        (if list_ex (\<lambda>owner. is_some_and (\<lambda>backfill. bf_to_block_excl backfill = None) (oi_backfill owner))
              (ads_owners desired_state) \<and> cur_owner_backfill_activation_block cursor = None
           then Err (InvalidDelivery ''open owner backfill activation is missing its portable boundary'')
         else if is_some_and (\<lambda>activation. activation < cur_next_block cursor)
              (cur_owner_backfill_activation_block cursor)
           then Err (InvalidDelivery ''owner backfill activation boundary precedes its scan cursor'')
         else Ok ())
      else if is_some_and (\<lambda>acknowledged. cur_query_revision acknowledged = cur_query_revision cursor \<and>
            cur_owner_backfill_activation_block acknowledged \<noteq> cur_owner_backfill_activation_block cursor)
          acknowledged_cursor
        then Err (InvalidDelivery ''owner backfill activation boundary changed within one revision'')
      else Ok ())"

definition canonical_head_regresses_or_changes :: "Cursor \<Rightarrow> Cursor \<Rightarrow> bool" where
  "canonical_head_regresses_or_changes previous current =
     (case (cur_canonical_head previous, cur_canonical_head current) of
        (Some previous, Some current) \<Rightarrow>
          br_number current < br_number previous \<or>
          br_number current = br_number previous \<and> current \<noteq> previous
      | (Some _, None) \<Rightarrow> True
      | _ \<Rightarrow> False)"

definition event_block :: "Event \<Rightarrow> BlockRef option" where
  "event_block event =
     (case event of
        EventBlockHeader header \<Rightarrow> bh_block header
      | EventBlockProgress progress \<Rightarrow> bp_block progress
      | EventLog _ \<Rightarrow> None)"

definition data_head_step ::
    "EventRecord \<Rightarrow> BlockRef option \<times> u64 option \<Rightarrow> SessionStoreError + BlockRef option \<times> u64 option" where
  "data_head_step record s =
     (let (head, last_number) = s in
      bind_res (ok_or (delivery_scope_try_from (er_scope record))
        (InvalidDelivery ''data record has an unknown delivery scope'')) (\<lambda>scope.
      if scope = ScopeOwnerCatchup then Ok (head, last_number)
      else
        bind_res (ok_or (record_event record) (InvalidDelivery ''data record is missing its chain event'')) (\<lambda>event.
        case event_block event of
          None \<Rightarrow> Ok (head, last_number)
        | Some blk \<Rightarrow>
            (if is_some_and (\<lambda>previous. br_number blk < previous) last_number
               then Err (InvalidDelivery ''canonical block records are not ordered by height'')
             else Ok (Some blk, Some (br_number blk))))))"

definition all_owner_catchup :: "DataPayload \<Rightarrow> bool" where
  "all_owner_catchup data =
     list_all (\<lambda>record. er_scope record = delivery_scope_to_i32 ScopeOwnerCatchup) (dp_records data)"

definition declared_head ::
    "Cursor option \<Rightarrow> Cursor \<Rightarrow> bool \<Rightarrow> Payload \<Rightarrow> SessionStoreError + BlockRef option" where
  "declared_head acknowledged_cursor cursor is_activation payload =
     (case payload of
        PayloadData data \<Rightarrow>
          bind_res (fold_res data_head_step (dp_records data) (None, None)) (\<lambda>(head, _).
          Ok (or_else head (if all_owner_catchup data then cursor_head acknowledged_cursor else None)))
      | PayloadReorg reorg \<Rightarrow> Ok (ro_common_ancestor reorg)
      | PayloadFinality _ \<Rightarrow> Ok (cursor_head acknowledged_cursor)
      | PayloadBarrier barrier \<Rightarrow>
          Ok (or_else (or_else (bar_block barrier) (cursor_head acknowledged_cursor))
            (if is_activation then cur_canonical_head cursor else None)))"

definition validate_reorg_progress ::
    "Cursor option \<Rightarrow> Cursor \<Rightarrow> Reorg \<Rightarrow> SessionStoreError + unit" where
  "validate_reorg_progress acknowledged_cursor cursor reorg =
     bind_res (ok_or (ro_common_ancestor reorg) (InvalidDelivery ''reorg is missing its common ancestor'')) (\<lambda>ancestor.
     bind_res (ok_or (ro_old_tip reorg) (InvalidDelivery ''reorg is missing its old tip'')) (\<lambda>old_tip.
     bind_res (ok_or (ro_new_tip reorg) (InvalidDelivery ''reorg is missing its new tip'')) (\<lambda>new_tip.
     if cursor_head acknowledged_cursor \<noteq> Some old_tip \<or> br_number old_tip \<le> br_number ancestor \<or>
        br_number new_tip \<le> br_number ancestor \<or>
        checked_add (br_number ancestor) 1 \<noteq> Some (cur_next_block cursor)
       then Err (InvalidDelivery ''reorg ancestry, prior tip, or cursor successor is invalid'')
     else Ok ())))"

definition validate_delivery_progress ::
    "Cursor option \<Rightarrow> ApplyDesiredState \<Rightarrow> Delivery \<Rightarrow> SessionStoreError + unit" where
  "validate_delivery_progress acknowledged_cursor desired_state delivery =
     bind_res (ok_or (del_cursor delivery) (InvalidDelivery ''delivery cursor is missing'')) (\<lambda>cursor.
     bind_res (ok_or (del_payload delivery) (InvalidDelivery ''delivery payload is missing'')) (\<lambda>payload.
     let is_reorg = (case payload of PayloadReorg _ \<Rightarrow> True | _ \<Rightarrow> False);
         is_activation = is_exact_activation acknowledged_cursor desired_state delivery in
     bind_res (validate_owner_backfill_activation_boundary acknowledged_cursor desired_state cursor is_activation) (\<lambda>_.
     if \<not> is_reorg \<and> is_some_and (\<lambda>acknowledged.
           cur_next_block cursor < cur_next_block acknowledged \<and> \<not> is_activation \<or>
           canonical_head_regresses_or_changes acknowledged cursor) acknowledged_cursor
       then Err (InvalidDelivery ''non-reorg delivery cursor regresses canonical progress'')
     else
       bind_res (case payload of
           PayloadReorg reorg \<Rightarrow> validate_reorg_progress acknowledged_cursor cursor reorg
         | _ \<Rightarrow> Ok ()) (\<lambda>_.
       bind_res (declared_head acknowledged_cursor cursor is_activation payload) (\<lambda>declared.
       if cur_canonical_head cursor \<noteq> declared
         then Err (InvalidDelivery ''delivery cursor canonical head disagrees with its payload'')
       else
         let cursor_is_behind_coverage =
               is_some_and (\<lambda>head. cur_next_block cursor \<le> br_number head) (cur_canonical_head cursor);
             is_owner_catchup_data = (case payload of PayloadData data \<Rightarrow> all_owner_catchup data | _ \<Rightarrow> False);
             preserves_acknowledged_head =
               is_none_or (\<lambda>acknowledged. cur_canonical_head cursor = cur_canonical_head acknowledged)
                 acknowledged_cursor in
         if cursor_is_behind_coverage \<and>
            \<not> (preserves_acknowledged_head \<and>
               (is_activation \<or> is_owner_catchup_data \<or> is_cursor_progress_barrier delivery))
           then Err (InvalidDelivery ''delivery cursor next block does not follow its canonical head'')
         else Ok ())))))"

section \<open>The replacement promised by a reorg\<close>

fun collect_canonical_blocks ::
    "EventRecord list \<Rightarrow> (u64 \<times> BlockRef) list \<Rightarrow> (u64 \<times> BlockRef) list option" where
  "collect_canonical_blocks [] blocks = Some blocks"
| "collect_canonical_blocks (record # records) blocks =
     (case delivery_scope_try_from (er_scope record) of
        None \<Rightarrow> None
      | Some ScopeOwnerCatchup \<Rightarrow> collect_canonical_blocks records blocks
      | Some _ \<Rightarrow>
          (case record_event record of
             None \<Rightarrow> None
           | Some event \<Rightarrow>
               (case event_block event of
                  None \<Rightarrow> collect_canonical_blocks records blocks
                | Some blk \<Rightarrow>
                    (if is_some_and (\<lambda>known. known \<noteq> blk) (map_of blocks (br_number blk)) then None
                     else collect_canonical_blocks records (btree_insert (br_number blk) blk blocks)))))"

text \<open>The last block of a contiguous chain of descendants of \<open>previous\<close>.\<close>

fun descend :: "BlockRef \<Rightarrow> BlockRef list \<Rightarrow> BlockRef option" where
  "descend previous [] = Some previous"
| "descend previous (blk # blocks) =
     (if checked_add (br_number previous) 1 \<noteq> Some (br_number blk) \<or>
         br_parent_hash blk \<noteq> br_hash previous then None
      else descend blk blocks)"

definition follows_head :: "Cursor \<Rightarrow> BlockRef \<Rightarrow> bool" where
  "follows_head cursor head \<longleftrightarrow>
     cur_canonical_head cursor = Some head \<and>
     is_some_and (\<lambda>successor. cur_next_block cursor = successor) (checked_add (br_number head) 1)"

definition delivery_certifies_reorg_tip :: "Delivery \<Rightarrow> BlockRef \<Rightarrow> bool" where
  "delivery_certifies_reorg_tip delivery expected_tip =
     (case del_cursor delivery of
        None \<Rightarrow> False
      | Some cursor \<Rightarrow>
          (case del_payload delivery of
             Some (PayloadData data) \<Rightarrow>
               (case collect_canonical_blocks (dp_records data) [] of
                  None \<Rightarrow> False
                | Some canonical_blocks \<Rightarrow>
                    (if map_of canonical_blocks (br_number expected_tip) \<noteq> Some expected_tip then False
                     else case map snd (filter (\<lambda>(n, _). br_number expected_tip \<le> n) canonical_blocks) of
                            [] \<Rightarrow> False
                          | previous # suffix \<Rightarrow>
                              (case descend previous suffix of
                                 None \<Rightarrow> False
                               | Some terminal \<Rightarrow> follows_head cursor terminal)))
           | Some (PayloadBarrier barrier) \<Rightarrow>
               bar_block barrier = Some expected_tip \<and> follows_head cursor expected_tip
           | _ \<Rightarrow> False))"

definition expected_reorg_tip_after_ack ::
    "BlockRef option \<Rightarrow> Delivery \<Rightarrow> SessionStoreError + BlockRef option" where
  "expected_reorg_tip_after_ack current pending =
     (case del_payload pending of
        Some (PayloadReorg reorg) \<Rightarrow>
          (if current \<noteq> None
             then Err (InvalidDelivery ''a second reorg cannot replace an unfulfilled replacement promise'')
           else bind_res (ok_or (ro_new_tip reorg) (InvalidDelivery ''reorg is missing its new tip'')) (\<lambda>tip.
             Ok (Some tip)))
      | _ \<Rightarrow>
          Ok (case current of
                Some expected \<Rightarrow>
                  (if delivery_certifies_reorg_tip pending expected then None else Some expected)
              | None \<Rightarrow> None))"

end
