(* ===== verification/Session_Store.thy ===== *)
theory Session_Store
  imports Delivery_Validation "HOL-Library.AList"
begin

text \<open>
  The durable session authority and one-item delivery outbox of
  \<open>event-service/src/session_store.rs\<close>. The \<open>sessions\<close> table is an association list from its
  primary key to a row; blobs are decoded with the codecs of \<open>StoreEnv\<close> on every read.

  An SQLite call may fail at any point: \<open>fails\<close> says which calls of an operation do. A failed or
  abandoned transaction rolls back, so an operation that returns an error leaves the store as it
  was; this is why an operation returns the new store only together with its success value.

  \<open>INTEGER\<close> columns are 64-bit words read as signed; chain identifiers and sequences are stored
  bit for bit, revisions only within the nonnegative range.
\<close>

section \<open>Data\<close>

record PersistedSession =
  ps_desired_state :: "ApplyDesiredState option"
  ps_acknowledged_cursor :: "Cursor option"
  ps_runtime_checkpoint_cursor :: "Cursor option"
  ps_pending_delivery :: "Delivery option"
  ps_expected_reorg_tip :: "BlockRef option"

definition persisted_default :: PersistedSession where
  "persisted_default =
     \<lparr>ps_desired_state = None, ps_acknowledged_cursor = None, ps_runtime_checkpoint_cursor = None,
      ps_pending_delivery = None, ps_expected_reorg_tip = None\<rparr>"

record SessionRow =
  row_revision :: i64
  row_desired_state :: "bytes option"
  row_acknowledged_cursor :: "bytes option"
  row_runtime_checkpoint_cursor :: "bytes option"
  row_pending_delivery :: "bytes option"
  row_activation_sequence :: i64
  row_expected_reorg_tip :: "bytes option"

type_synonym row_key = "string \<times> i64"

record SessionStore =
  ss_rows :: "(row_key \<times> SessionRow) list"

datatype SqlCall = LoadRow | BeginTransaction | SelectRow | CountRows | WriteRow | CommitTransaction

type_synonym sql_fails = "SqlCall \<Rightarrow> bool"

definition sql :: "sql_fails \<Rightarrow> SqlCall \<Rightarrow> SessionStoreError + unit" where
  "sql fails call = ensure (\<not> fails call) Database"

section \<open>SQLite integers and blobs\<close>

definition chain_id_to_sql_integer :: "u64 \<Rightarrow> i64" where
  "chain_id_to_sql_integer v = v"

definition chain_id_from_sql_integer :: "i64 \<Rightarrow> u64" where
  "chain_id_from_sql_integer v = v"

definition sequence_to_sql_integer :: "u64 \<Rightarrow> i64" where
  "sequence_to_sql_integer v = v"

definition sequence_from_sql_integer :: "i64 \<Rightarrow> u64" where
  "sequence_from_sql_integer v = v"

definition to_sql_integer :: "u64 \<Rightarrow> string \<Rightarrow> SessionStoreError + i64" where
  "to_sql_integer v field = ok_or (i64_try_from_u64 v) (IntegerRange field)"

definition from_sql_integer :: "i64 \<Rightarrow> string \<Rightarrow> SessionStoreError + u64" where
  "from_sql_integer v field = ok_or (u64_try_from_i64 v) (IntegerRange field)"

definition decode_blob :: "(bytes \<Rightarrow> 'm option) \<Rightarrow> bytes \<Rightarrow> SessionStoreError + 'm" where
  "decode_blob decode encoded = ok_or (decode encoded) Decode"

definition decode_optional :: "(bytes \<Rightarrow> 'm option) \<Rightarrow> bytes option \<Rightarrow> SessionStoreError + 'm option" where
  "decode_optional decode encoded =
     (case encoded of
        None \<Rightarrow> Ok None
      | Some encoded \<Rightarrow> bind_res (decode_blob decode encoded) (\<lambda>m. Ok (Some m)))"

definition sessions_key :: "string \<Rightarrow> u64 \<Rightarrow> row_key" where
  "sessions_key session_id chain_id = (session_id, chain_id_to_sql_integer chain_id)"

definition select_row :: "SessionStore \<Rightarrow> row_key \<Rightarrow> SessionRow option" where
  "select_row store key = map_of (ss_rows store) key"

definition write_row :: "SessionStore \<Rightarrow> row_key \<Rightarrow> SessionRow \<Rightarrow> SessionStore" where
  "write_row store key row = store\<lparr>ss_rows := AList.update key row (ss_rows store)\<rparr>"

definition next_sequence :: "Cursor option \<Rightarrow> SessionStoreError + u64" where
  "next_sequence acknowledged_cursor =
     (case acknowledged_cursor of
        None \<Rightarrow> Ok 1
      | Some cursor \<Rightarrow> ok_or (checked_add (cur_batch_sequence cursor) 1) SequenceOverflow)"

section \<open>Validation of a persisted session\<close>

definition validate_persisted_cursor ::
    "u64 \<Rightarrow> u64 \<Rightarrow> string \<Rightarrow> Cursor \<Rightarrow> SessionStoreError + unit" where
  "validate_persisted_cursor chain_id revision what cursor =
     (if cur_chain_id cursor \<noteq> chain_id \<or> revision < cur_query_revision cursor \<or> cur_batch_sequence cursor = 0
        then Err (InvalidDelivery what)
      else case cur_canonical_head cursor of None \<Rightarrow> Ok () | Some head \<Rightarrow> validate_block_ref head)"

definition validate_persisted_runtime_cursor ::
    "u64 \<Rightarrow> u64 \<Rightarrow> PersistedSession \<Rightarrow> Cursor \<Rightarrow> SessionStoreError + unit" where
  "validate_persisted_runtime_cursor chain_id revision persisted runtime_cursor =
     bind_res (validate_persisted_cursor chain_id revision
       ''durable runtime checkpoint cursor does not match its row'' runtime_cursor) (\<lambda>_.
     bind_res (ok_or (ps_acknowledged_cursor persisted)
       (InvalidDelivery ''runtime checkpoint cursor exists without transport acknowledgement'')) (\<lambda>transport_cursor.
     if cur_batch_sequence transport_cursor < cur_batch_sequence runtime_cursor \<or>
        cur_batch_sequence runtime_cursor = cur_batch_sequence transport_cursor \<and>
        runtime_cursor \<noteq> transport_cursor
       then Err (InvalidDelivery ''runtime checkpoint cursor is ahead of or conflicts with transport authority'')
     else Ok ()))"

definition validate_persisted_promise :: "PersistedSession \<Rightarrow> BlockRef \<Rightarrow> SessionStoreError + unit" where
  "validate_persisted_promise persisted expected_tip =
     bind_res (validate_block_ref expected_tip) (\<lambda>_.
     if is_some_and (\<lambda>head. br_number expected_tip \<le> br_number head)
          (cursor_head (ps_acknowledged_cursor persisted))
       then Err (InvalidDelivery ''durable reorg replacement promise is at or behind acknowledged canonical progress'')
     else Ok ())"

definition validate_persisted_pending ::
    "StoreEnv \<Rightarrow> string \<Rightarrow> u64 \<Rightarrow> u64 \<Rightarrow> ApplyDesiredState \<Rightarrow> PersistedSession \<Rightarrow> Delivery \<Rightarrow>
     SessionStoreError + unit" where
  "validate_persisted_pending env session_id chain_id revision desired_state persisted pending =
     bind_res (ok_or (del_cursor pending)
       (InvalidDelivery ''durable pending delivery is missing its cursor'')) (\<lambda>cursor.
     bind_res (next_sequence (ps_acknowledged_cursor persisted)) (\<lambda>predecessor.
     if del_session_id pending \<noteq> session_id \<or> del_query_revision pending \<noteq> revision \<or>
        del_sequence pending \<noteq> predecessor \<or> del_sequence pending \<noteq> cur_batch_sequence cursor \<or>
        del_delivery_token pending \<noteq> u64_to_be_bytes (del_sequence pending) \<or>
        del_payload pending = None \<or> cur_chain_id cursor \<noteq> chain_id \<or>
        cur_query_revision cursor \<noteq> revision
       then Err (InvalidDelivery ''durable pending delivery violates its row invariants'')
     else
       bind_res (validate_delivery_size env pending MAX_MESSAGE_SIZE_BYTES) (\<lambda>_.
       bind_res (validate_delivery_payload env desired_state pending) (\<lambda>_.
       bind_res (validate_delivery_progress (ps_acknowledged_cursor persisted) desired_state pending) (\<lambda>_.
       if is_some_and (\<lambda>expected.
            \<not> is_activation_delivery pending (ads_new_revision desired_state) \<and>
            \<not> delivery_certifies_reorg_tip pending expected) (ps_expected_reorg_tip persisted)
         then Err (InvalidDelivery
           ''durable pending delivery does not certify the promised reorg replacement tip'')
       else if ps_expected_reorg_tip persisted \<noteq> None \<and>
          (case del_payload pending of Some (PayloadReorg _) \<Rightarrow> True | _ \<Rightarrow> False)
         then Err (InvalidDelivery
           ''durable session contains a second reorg before its promised replacement'')
       else Ok ())))))"

definition validate_persisted_activation ::
    "u64 \<Rightarrow> u64 \<Rightarrow> ApplyDesiredState \<Rightarrow> PersistedSession \<Rightarrow> SessionStoreError + unit" where
  "validate_persisted_activation revision activation_sequence desired_state persisted =
     (let acknowledged_sequence =
            (case ps_acknowledged_cursor persisted of None \<Rightarrow> 0 | Some cursor \<Rightarrow> cur_batch_sequence cursor);
          current_sequence =
            (case ps_pending_delivery persisted of
               None \<Rightarrow> acknowledged_sequence | Some delivery \<Rightarrow> del_sequence delivery);
          pending_is_activation =
            is_some_and (\<lambda>delivery. is_activation_delivery delivery (ads_new_revision desired_state))
              (ps_pending_delivery persisted);
          acknowledged_elsewhere =
            is_none_or (\<lambda>cursor. cur_query_revision cursor \<noteq> revision) (ps_acknowledged_cursor persisted) in
      if current_sequence < activation_sequence
        then Err (InvalidDelivery ''durable activation sequence is ahead of session sequence'')
      else if activation_sequence = 0 then
        (if \<not> pending_is_activation \<and> acknowledged_elsewhere
           then Err (InvalidDelivery ''legacy durable desired state has no acknowledged or pending activation'')
         else Ok ())
      else if acknowledged_sequence < activation_sequence then
        (if is_none_or (\<lambda>delivery. del_sequence delivery \<noteq> activation_sequence \<or> \<not> pending_is_activation)
              (ps_pending_delivery persisted)
           then Err (InvalidDelivery ''durable desired state is missing its pending activation barrier'')
         else Ok ())
      else if acknowledged_elsewhere
        then Err (InvalidDelivery ''durable desired state is not acknowledged at its current revision'')
      else Ok ())"

definition for_some :: "'a option \<Rightarrow> ('a \<Rightarrow> 'e + unit) \<Rightarrow> 'e + unit" where
  "for_some m f = (case m of None \<Rightarrow> Ok () | Some x \<Rightarrow> f x)"

definition validate_persisted_session ::
    "StoreEnv \<Rightarrow> string \<Rightarrow> u64 \<Rightarrow> u64 \<Rightarrow> u64 \<Rightarrow> PersistedSession \<Rightarrow> SessionStoreError + unit" where
  "validate_persisted_session env session_id chain_id revision activation_sequence persisted =
     (case ps_desired_state persisted of
        None \<Rightarrow>
          (if revision = 0 \<and> ps_acknowledged_cursor persisted = None \<and>
              ps_runtime_checkpoint_cursor persisted = None \<and> ps_pending_delivery persisted = None \<and>
              ps_expected_reorg_tip persisted = None
             then Ok ()
           else Err (InvalidDelivery ''durable revision is missing its desired state''))
      | Some desired_state \<Rightarrow>
          bind_res (map_err StoreDesiredState (validate_desired_state desired_state)) (\<lambda>_.
          if ads_session_id desired_state \<noteq> session_id \<or> ads_chain_id desired_state \<noteq> chain_id \<or>
             ads_new_revision desired_state \<noteq> revision
            then Err (InvalidDelivery ''durable desired state does not match its row identity or revision'')
          else
            bind_res (for_some (ps_acknowledged_cursor persisted)
              (validate_persisted_cursor chain_id revision
                ''durable acknowledged cursor does not match its row'')) (\<lambda>_.
            bind_res (for_some (ps_runtime_checkpoint_cursor persisted)
              (validate_persisted_runtime_cursor chain_id revision persisted)) (\<lambda>_.
            bind_res (for_some (ps_expected_reorg_tip persisted)
              (validate_persisted_promise persisted)) (\<lambda>_.
            bind_res (for_some (ps_pending_delivery persisted)
              (validate_persisted_pending env session_id chain_id revision desired_state persisted)) (\<lambda>_.
            validate_persisted_activation revision activation_sequence desired_state persisted))))))"

section \<open>Load\<close>

definition decode_row :: "StoreEnv \<Rightarrow> SessionRow \<Rightarrow> SessionStoreError + PersistedSession" where
  "decode_row env row =
     bind_res (decode_optional (st_dec_desired env) (row_desired_state row)) (\<lambda>desired_state.
     bind_res (decode_optional (st_dec_cursor env) (row_acknowledged_cursor row)) (\<lambda>acknowledged_cursor.
     bind_res (decode_optional (st_dec_cursor env) (row_runtime_checkpoint_cursor row)) (\<lambda>runtime_checkpoint_cursor.
     bind_res (decode_optional (st_dec_delivery env) (row_pending_delivery row)) (\<lambda>pending_delivery.
     bind_res (decode_optional (st_dec_block env) (row_expected_reorg_tip row)) (\<lambda>expected_reorg_tip.
     Ok \<lparr>ps_desired_state = desired_state, ps_acknowledged_cursor = acknowledged_cursor,
         ps_runtime_checkpoint_cursor = runtime_checkpoint_cursor,
         ps_pending_delivery = pending_delivery, ps_expected_reorg_tip = expected_reorg_tip\<rparr>)))))"

definition load_row :: "StoreEnv \<Rightarrow> row_key \<Rightarrow> SessionRow \<Rightarrow> SessionStoreError + PersistedSession" where
  "load_row env key row =
     bind_res (decode_row env row) (\<lambda>persisted.
     bind_res (from_sql_integer (row_revision row) ''revision'') (\<lambda>revision.
     bind_res (validate_persisted_session env (fst key) (chain_id_from_sql_integer (snd key)) revision
       (sequence_from_sql_integer (row_activation_sequence row)) persisted) (\<lambda>_.
     Ok persisted)))"

definition load ::
    "StoreEnv \<Rightarrow> sql_fails \<Rightarrow> SessionStore \<Rightarrow> string \<Rightarrow> u64 \<Rightarrow> SessionStoreError + PersistedSession" where
  "load env fails store session_id chain_id =
     bind_res (sql fails LoadRow) (\<lambda>_.
     case select_row store (sessions_key session_id chain_id) of
       None \<Rightarrow> Ok persisted_default
     | Some row \<Rightarrow> load_row env (sessions_key session_id chain_id) row)"

section \<open>Desired state\<close>

definition initial_cursor :: "ApplyDesiredState \<Rightarrow> Cursor" where
  "initial_cursor request =
     \<lparr>cur_chain_id = ads_chain_id request, cur_query_revision = ads_new_revision request,
      cur_next_block =
        (case List.map_filter (\<lambda>owner. map_option bf_from_block (oi_backfill owner)) (ads_owners request) of
           [] \<Rightarrow> 0
         | from_block # from_blocks \<Rightarrow> fold min from_blocks from_block),
      cur_canonical_head = None, cur_batch_sequence = 0, cur_provider_checkpoint = [],
      cur_owner_backfill_activation_block = None\<rparr>"

definition activation_delivery :: "ApplyDesiredState \<Rightarrow> u64 \<Rightarrow> Cursor \<Rightarrow> Delivery" where
  "activation_delivery request activation_sequence cursor =
     \<lparr>del_session_id = ads_session_id request, del_sequence = activation_sequence,
      del_query_revision = ads_new_revision request,
      del_delivery_token = u64_to_be_bytes activation_sequence,
      del_cursor = Some (cursor\<lparr>cur_query_revision := ads_new_revision request,
        cur_batch_sequence := activation_sequence\<rparr>),
      del_payload = Some (PayloadBarrier
        \<lparr>bar_id = as_bytes (''desired-state:'' @ decimal (unat (ads_new_revision request))),
         bar_block = None\<rparr>),
      del_checkpoint_neutral = True\<rparr>"

definition empty_row :: SessionRow where
  "empty_row =
     \<lparr>row_revision = 0, row_desired_state = None, row_acknowledged_cursor = None,
      row_runtime_checkpoint_cursor = None, row_pending_delivery = None,
      row_activation_sequence = 0, row_expected_reorg_tip = None\<rparr>"

definition enqueue_activation ::
    "StoreEnv \<Rightarrow> sql_fails \<Rightarrow> SessionStore \<Rightarrow> ApplyDesiredState \<Rightarrow> Cursor option \<Rightarrow> usize \<Rightarrow>
     SessionRow option \<Rightarrow> i64 \<Rightarrow> SessionStoreError + (DesiredStateApplied \<times> bool) \<times> SessionStore" where
  "enqueue_activation env fails store request prepared_cursor max_delivery_bytes committed_row revision =
     bind_res (decode_optional (st_dec_cursor env) (Option.bind committed_row row_acknowledged_cursor)) (\<lambda>acknowledged_cursor.
     bind_res (next_sequence acknowledged_cursor) (\<lambda>activation_sequence.
     let cursor = (case prepared_cursor of
           Some cursor \<Rightarrow> cursor
         | None \<Rightarrow> (case acknowledged_cursor of Some cursor \<Rightarrow> cursor | None \<Rightarrow> initial_cursor request));
         activation = activation_delivery request activation_sequence cursor in
     bind_res (validate_delivery_size env activation (min max_delivery_bytes MAX_MESSAGE_SIZE_BYTES)) (\<lambda>_.
     bind_res (validate_delivery_payload env request activation) (\<lambda>_.
     bind_res (validate_delivery_progress acknowledged_cursor request activation) (\<lambda>_.
     bind_res (sql fails WriteRow) (\<lambda>_.
     bind_res (sql fails CommitTransaction) (\<lambda>_.
     let row = (case committed_row of None \<Rightarrow> empty_row | Some row \<Rightarrow> row) in
     Ok ((\<lparr>dsa_session_id = ads_session_id request, dsa_revision = ads_new_revision request,
           dsa_activation_sequence = activation_sequence\<rparr>, True),
         write_row store (sessions_key (ads_session_id request) (ads_chain_id request))
           (row\<lparr>row_revision := revision,
              row_desired_state := Some (st_enc_desired env request),
              row_pending_delivery := Some (st_enc_delivery env activation),
              row_activation_sequence := sequence_to_sql_integer activation_sequence\<rparr>)))))))))"

definition replay_desired_state ::
    "StoreEnv \<Rightarrow> ApplyDesiredState \<Rightarrow> SessionRow option \<Rightarrow> i64 \<Rightarrow> i64 \<Rightarrow>
     SessionStoreError + DesiredStateApplied" where
  "replay_desired_state env request committed_row committed revision =
     (let conflict = bind_res (from_sql_integer committed ''committed revision'') (\<lambda>committed.
            Err (StoreRevisionConflict (ads_expected_revision request) committed)) in
      case (committed_row, Option.bind committed_row row_desired_state) of
        (Some row, Some encoded) \<Rightarrow>
          (if committed = revision then
             bind_res (decode_blob (st_dec_desired env) encoded) (\<lambda>existing.
             if existing = request
               then Ok \<lparr>dsa_session_id = ads_session_id request, dsa_revision = ads_new_revision request,
                 dsa_activation_sequence = sequence_from_sql_integer (row_activation_sequence row)\<rparr>
             else conflict)
           else conflict)
      | _ \<Rightarrow> conflict)"

definition apply_desired_state_with_cursor_and_limit ::
    "StoreEnv \<Rightarrow> sql_fails \<Rightarrow> SessionStore \<Rightarrow> ApplyDesiredState \<Rightarrow> Cursor option \<Rightarrow> usize \<Rightarrow> usize \<Rightarrow>
     SessionStoreError + (DesiredStateApplied \<times> bool) \<times> SessionStore" where
  "apply_desired_state_with_cursor_and_limit env fails store request prepared_cursor
      max_delivery_bytes max_persisted_sessions =
     bind_res (map_err StoreDesiredState (validate_desired_state request)) (\<lambda>_.
     bind_res (load env fails store (ads_session_id request) (ads_chain_id request)) (\<lambda>_.
     if is_some_and (\<lambda>cursor. cur_chain_id cursor \<noteq> ads_chain_id request \<or>
          cur_query_revision cursor \<noteq> ads_new_revision request) prepared_cursor
       then Err (InvalidDelivery ''prepared activation cursor does not match desired state'')
     else
       bind_res (to_sql_integer (ads_expected_revision request) ''expected revision'') (\<lambda>expected.
       bind_res (to_sql_integer (ads_new_revision request) ''new revision'') (\<lambda>revision.
       bind_res (sql fails BeginTransaction) (\<lambda>_.
       bind_res (sql fails SelectRow) (\<lambda>_.
       let committed_row = select_row store (sessions_key (ads_session_id request) (ads_chain_id request));
           committed = (case committed_row of None \<Rightarrow> 0 | Some row \<Rightarrow> row_revision row) in
       bind_res (if committed_row = None then
           bind_res (sql fails CountRows) (\<lambda>_.
           ensure (length (ss_rows store) < max_persisted_sessions) (PersistedSessionLimit max_persisted_sessions))
         else Ok ()) (\<lambda>_.
       if committed \<noteq> expected then
         bind_res (replay_desired_state env request committed_row committed revision) (\<lambda>applied.
         Ok ((applied, False), store))
       else if checked_add (ads_expected_revision request) 1 \<noteq> Some (ads_new_revision request)
         then Err (StoreDesiredState (InvalidState
           ''new revision must immediately follow the committed revision''))
       else if is_some_and (\<lambda>row. row_pending_delivery row \<noteq> None) committed_row
         then Err StorePendingDelivery
       else enqueue_activation env fails store request prepared_cursor max_delivery_bytes
         committed_row revision)))))))"

definition apply_desired_state_with_cursor ::
    "StoreEnv \<Rightarrow> sql_fails \<Rightarrow> SessionStore \<Rightarrow> ApplyDesiredState \<Rightarrow> Cursor option \<Rightarrow>
     SessionStoreError + DesiredStateApplied \<times> SessionStore" where
  "apply_desired_state_with_cursor env fails store request prepared_cursor =
     bind_res (apply_desired_state_with_cursor_and_limit env fails store request prepared_cursor
       MAX_MESSAGE_SIZE_BYTES usize_max) (\<lambda>((applied, _), store). Ok (applied, store))"

definition apply_desired_state ::
    "StoreEnv \<Rightarrow> sql_fails \<Rightarrow> SessionStore \<Rightarrow> ApplyDesiredState \<Rightarrow>
     SessionStoreError + DesiredStateApplied \<times> SessionStore" where
  "apply_desired_state env fails store request =
     apply_desired_state_with_cursor env fails store request None"

section \<open>The outbox\<close>

definition save_pending_with_status ::
    "StoreEnv \<Rightarrow> sql_fails \<Rightarrow> SessionStore \<Rightarrow> ApplyDesiredState \<Rightarrow> Delivery \<Rightarrow>
     SessionStoreError + bool \<times> SessionStore" where
  "save_pending_with_status env fails store desired_state delivery =
     bind_res (ok_or (del_cursor delivery) (InvalidDelivery ''delivery cursor is missing'')) (\<lambda>cursor.
     if del_session_id delivery \<noteq> ads_session_id desired_state \<or>
        cur_chain_id cursor \<noteq> ads_chain_id desired_state \<or>
        del_query_revision delivery \<noteq> ads_new_revision desired_state \<or>
        cur_query_revision cursor \<noteq> ads_new_revision desired_state
       then Err (InvalidDelivery
         ''delivery identity or revision does not match the active desired state'')
     else
       bind_res (load env fails store (ads_session_id desired_state) (ads_chain_id desired_state)) (\<lambda>existing.
       bind_res (ok_or (ps_desired_state existing) UnknownSession) (\<lambda>desired.
       if desired \<noteq> desired_state
         then Err (InvalidDelivery ''delivery desired state is not authoritative'')
       else
         bind_res (if del_sequence delivery \<noteq> cur_batch_sequence cursor \<or>
              del_delivery_token delivery \<noteq> u64_to_be_bytes (del_sequence delivery) \<or>
              del_payload delivery = None
             then Ok True
             else bind_res (next_sequence (ps_acknowledged_cursor existing)) (\<lambda>expected.
               Ok (del_sequence delivery \<noteq> expected))) (\<lambda>mismatch.
         if mismatch
           then Err (InvalidDelivery ''delivery sequence, token, cursor, payload, or predecessor is invalid'')
         else
           bind_res (validate_delivery_size env delivery MAX_MESSAGE_SIZE_BYTES) (\<lambda>_.
           bind_res (validate_delivery_payload env desired_state delivery) (\<lambda>_.
           bind_res (validate_delivery_progress (ps_acknowledged_cursor existing) desired_state delivery) (\<lambda>_.
           if is_some_and (\<lambda>expected. \<not> delivery_certifies_reorg_tip delivery expected)
                (ps_expected_reorg_tip existing)
             then Err (InvalidDelivery ''delivery does not certify the promised reorg replacement tip'')
           else case ps_pending_delivery existing of
               Some pending \<Rightarrow> (if pending = delivery then Ok (False, store) else Err StorePendingDelivery)
             | None \<Rightarrow>
                 bind_res (sql fails WriteRow) (\<lambda>_.
                 let key = sessions_key (ads_session_id desired_state) (ads_chain_id desired_state) in
                 Ok (True, case select_row store key of
                     None \<Rightarrow> store
                   | Some row \<Rightarrow> write_row store key
                       (row\<lparr>row_pending_delivery := Some (st_enc_delivery env delivery)\<rparr>))))))))))"

definition save_pending ::
    "StoreEnv \<Rightarrow> sql_fails \<Rightarrow> SessionStore \<Rightarrow> ApplyDesiredState \<Rightarrow> Delivery \<Rightarrow>
     SessionStoreError + SessionStore" where
  "save_pending env fails store desired_state delivery =
     bind_res (save_pending_with_status env fails store desired_state delivery) (\<lambda>(_, store). Ok store)"

definition acknowledge_replay :: "Cursor option \<Rightarrow> Acknowledge \<Rightarrow> SessionStoreError + Cursor" where
  "acknowledge_replay acknowledged acknowledgement =
     (let exact = ack_delivery_token acknowledgement = u64_to_be_bytes (ack_sequence acknowledgement) in
      case acknowledged of
        Some cursor \<Rightarrow>
          (if cur_batch_sequence cursor = ack_sequence acknowledgement \<and> exact then Ok cursor
           else if \<not> exact then Err StoreDeliveryTokenMismatch else Err StoreNoPendingDelivery)
      | None \<Rightarrow> (if \<not> exact then Err StoreDeliveryTokenMismatch else Err StoreNoPendingDelivery))"

definition acknowledge_with_status ::
    "StoreEnv \<Rightarrow> sql_fails \<Rightarrow> SessionStore \<Rightarrow> u64 \<Rightarrow> Acknowledge \<Rightarrow>
     SessionStoreError + (Cursor \<times> bool) \<times> SessionStore" where
  "acknowledge_with_status env fails store chain_id acknowledgement =
     bind_res (load env fails store (ack_session_id acknowledgement) chain_id) (\<lambda>_.
     bind_res (sql fails BeginTransaction) (\<lambda>_.
     bind_res (sql fails SelectRow) (\<lambda>_.
     let key = sessions_key (ack_session_id acknowledgement) chain_id in
     bind_res (ok_or (select_row store key) UnknownSession) (\<lambda>row.
     bind_res (decode_optional (st_dec_cursor env) (row_acknowledged_cursor row)) (\<lambda>acknowledged.
     bind_res (decode_optional (st_dec_cursor env) (row_runtime_checkpoint_cursor row)) (\<lambda>runtime_checkpoint.
     bind_res (decode_optional (st_dec_block env) (row_expected_reorg_tip row)) (\<lambda>expected_reorg_tip.
     case row_pending_delivery row of
       None \<Rightarrow>
         bind_res (acknowledge_replay acknowledged acknowledgement) (\<lambda>cursor. Ok ((cursor, False), store))
     | Some encoded_pending \<Rightarrow>
         bind_res (decode_blob (st_dec_delivery env) encoded_pending) (\<lambda>pending.
         if del_sequence pending \<noteq> ack_sequence acknowledgement \<or>
            del_delivery_token pending \<noteq> ack_delivery_token acknowledgement
           then Err StoreDeliveryTokenMismatch
         else
           bind_res (expected_reorg_tip_after_ack expected_reorg_tip pending) (\<lambda>next_expected_reorg_tip.
           bind_res (ok_or (del_cursor pending) (InvalidDelivery ''delivery cursor is missing'')) (\<lambda>cursor.
           bind_res (sql fails WriteRow) (\<lambda>_.
           bind_res (sql fails CommitTransaction) (\<lambda>_.
           Ok ((cursor, True), write_row store key
             (row\<lparr>row_acknowledged_cursor := Some (st_enc_cursor env cursor),
                row_runtime_checkpoint_cursor :=
                  (if del_checkpoint_neutral pending
                     then map_option (st_enc_cursor env) runtime_checkpoint
                   else Some (st_enc_cursor env cursor)),
                row_pending_delivery := None,
                row_expected_reorg_tip := map_option (st_enc_block env) next_expected_reorg_tip\<rparr>))))))))))))))"

definition store_acknowledge ::
    "StoreEnv \<Rightarrow> sql_fails \<Rightarrow> SessionStore \<Rightarrow> u64 \<Rightarrow> Acknowledge \<Rightarrow>
     SessionStoreError + Cursor \<times> SessionStore" where
  "store_acknowledge env fails store chain_id acknowledgement =
     bind_res (acknowledge_with_status env fails store chain_id acknowledgement)
       (\<lambda>((cursor, _), store). Ok (cursor, store))"

end
