(* ===== verification/Service_Protocol.thy ===== *)
theory Service_Protocol
  imports Session_Store
begin

text \<open>
  The session protocol of the event service: the envelopes of the bidirectional stream, the
  resource policy with its wire form and its check of a desired state, the resume position a
  client proves in its \<open>Hello\<close>, and the translation of store and source failures to protocol
  errors.
\<close>

section \<open>Stream messages\<close>

record PendingDeliveryResume =
  pr_delivery_token :: bytes
  pr_provider_checkpoint :: "bytes option"
  pr_coverage_head :: "BlockRef option"

record Hello =
  he_protocol_version :: u32
  he_session_id :: string
  he_chain_id :: u64
  he_acknowledged_sequence :: u64
  he_pending_delivery_resume :: "PendingDeliveryResume option"

record DeliveryDemand =
  dd_session_id :: string

record Heartbeat =
  hb_unix_millis :: u64

datatype ClientMessage =
    ClientHello Hello
  | ClientApplyDesiredState ApplyDesiredState
  | ClientAcknowledge Acknowledge
  | ClientHeartbeat Heartbeat
  | ClientDeliveryDemand DeliveryDemand

record SourceDescriptor =
  sd_source_id :: string
  sd_role :: i32
  sd_capabilities :: "i32 list"

record SourceCapabilities =
  sc_capabilities :: "i32 list"
  sc_sources :: "SourceDescriptor list"

record ServiceLimits =
  sl_max_owners :: u32
  sl_max_interests_per_owner :: u32
  sl_max_addresses_per_log_interest :: u32
  sl_max_values_per_topic :: u32
  sl_max_bounded_backfill_blocks :: u64
  sl_max_identifier_bytes :: u32
  sl_max_total_interests :: u32
  sl_max_total_filter_values :: u64
  sl_max_desired_state_bytes :: u64
  sl_max_delivery_bytes :: u64
  sl_max_active_sessions :: u32
  sl_max_persisted_sessions :: u64

record RuntimeCheckpointPosition =
  rcp_cursor :: "Cursor option"

record HelloAccepted =
  ha_protocol_version :: u32
  ha_session_id :: string
  ha_chain_id :: u64
  ha_committed_revision :: u64
  ha_acknowledged_cursor :: "Cursor option"
  ha_desired_state :: "ApplyDesiredState option"
  ha_capabilities :: "SourceCapabilities option"
  ha_service_limits :: "ServiceLimits option"
  ha_runtime_checkpoint_position :: "RuntimeCheckpointPosition option"

record AcknowledgementCommitted =
  ac_session_id :: string
  ac_sequence :: u64
  ac_cursor :: "Cursor option"

datatype ErrorCode =
    CodeUnspecified | CodeProtocolVersion | CodeInvalidInterest | CodeRevisionConflict
  | CodeUnsupportedInterest | CodeAuthentication | CodeInternal | CodePendingDelivery
  | CodeResourceExhausted | CodeSessionInUse | CodeSourceUnavailable

fun error_code_to_i32 :: "ErrorCode \<Rightarrow> i32" where
  "error_code_to_i32 CodeUnspecified = 0"
| "error_code_to_i32 CodeProtocolVersion = 1"
| "error_code_to_i32 CodeInvalidInterest = 2"
| "error_code_to_i32 CodeRevisionConflict = 3"
| "error_code_to_i32 CodeUnsupportedInterest = 4"
| "error_code_to_i32 CodeAuthentication = 5"
| "error_code_to_i32 CodeInternal = 6"
| "error_code_to_i32 CodePendingDelivery = 7"
| "error_code_to_i32 CodeResourceExhausted = 8"
| "error_code_to_i32 CodeSessionInUse = 9"
| "error_code_to_i32 CodeSourceUnavailable = 10"

record ProtocolError =
  pe_code :: i32
  pe_message :: string
  pe_committed_revision :: u64
  pe_retryable :: bool

datatype ServerMessage =
    ServerHelloAccepted HelloAccepted
  | ServerDesiredStateApplied DesiredStateApplied
  | ServerDelivery Delivery
  | ServerAcknowledgementCommitted AcknowledgementCommitted
  | ServerHeartbeat Heartbeat
  | ServerError ProtocolError

section \<open>Resource policy\<close>

record EventServiceLimits =
  lim_max_owners :: usize
  lim_max_interests_per_owner :: usize
  lim_max_addresses_per_log_interest :: usize
  lim_max_values_per_topic :: usize
  lim_max_bounded_backfill_blocks :: u64
  lim_max_identifier_bytes :: usize
  lim_max_total_interests :: usize
  lim_max_total_filter_values :: usize
  lim_max_desired_state_bytes :: usize
  lim_max_delivery_bytes :: usize
  lim_max_active_sessions :: usize
  lim_max_persisted_sessions :: usize

definition default_limits :: EventServiceLimits where
  "default_limits =
     \<lparr>lim_max_owners = 4096, lim_max_interests_per_owner = 256,
      lim_max_addresses_per_log_interest = 4096, lim_max_values_per_topic = 1024,
      lim_max_bounded_backfill_blocks = 10000000, lim_max_identifier_bytes = 256,
      lim_max_total_interests = 16384, lim_max_total_filter_values = 1000000,
      lim_max_desired_state_bytes = 16 * 1024 * 1024,
      lim_max_delivery_bytes = MAX_MESSAGE_SIZE_BYTES, lim_max_active_sessions = 4096,
      lim_max_persisted_sessions = 65536\<rparr>"

definition delivery_limit :: "EventServiceLimits \<Rightarrow> usize" where
  "delivery_limit limits =
     (if lim_max_delivery_bytes limits < MAX_MESSAGE_SIZE_BYTES then lim_max_delivery_bytes limits
      else MAX_MESSAGE_SIZE_BYTES)"

definition usize_as_u32 :: "usize \<Rightarrow> u32" where
  "usize_as_u32 n = of_nat (min n 4294967295)"

definition usize_as_u64 :: "usize \<Rightarrow> u64" where
  "usize_as_u64 n = of_nat (min n usize_max)"

definition wire :: "EventServiceLimits \<Rightarrow> ServiceLimits" where
  "wire limits =
     \<lparr>sl_max_owners = usize_as_u32 (lim_max_owners limits),
      sl_max_interests_per_owner = usize_as_u32 (lim_max_interests_per_owner limits),
      sl_max_addresses_per_log_interest = usize_as_u32 (lim_max_addresses_per_log_interest limits),
      sl_max_values_per_topic = usize_as_u32 (lim_max_values_per_topic limits),
      sl_max_bounded_backfill_blocks = lim_max_bounded_backfill_blocks limits,
      sl_max_identifier_bytes = usize_as_u32 (lim_max_identifier_bytes limits),
      sl_max_total_interests = usize_as_u32 (lim_max_total_interests limits),
      sl_max_total_filter_values = usize_as_u64 (lim_max_total_filter_values limits),
      sl_max_desired_state_bytes = usize_as_u64 (lim_max_desired_state_bytes limits),
      sl_max_delivery_bytes = usize_as_u64 (delivery_limit limits),
      sl_max_active_sessions = usize_as_u32 (lim_max_active_sessions limits),
      sl_max_persisted_sessions = usize_as_u64 (lim_max_persisted_sessions limits)\<rparr>"

text \<open>
  The encoded length of a desired state is the protobuf codec's, a parameter. The running totals
  are \<open>usize\<close> additions that saturate.
\<close>

definition limit_interest ::
    "EventServiceLimits \<Rightarrow> PortableInterest \<Rightarrow> usize \<Rightarrow> string + usize" where
  "limit_interest limits interest total_filter_values =
     (case pi_kind interest of
        Some (KindLog log) \<Rightarrow>
          (let total_filter_values = usize_saturating_add total_filter_values (length (li_addresses log));
               total_filter_values = usize_saturating_add total_filter_values
                 (foldl usize_saturating_add 0 (map (\<lambda>topic. length (tv_values topic)) (li_topics log))) in
           if lim_max_total_filter_values limits < total_filter_values
             then Err ''total log filter value count exceeds the configured limit''
           else if lim_max_addresses_per_log_interest limits < length (li_addresses log)
             then Err ''log address count exceeds the configured limit''
           else if list_ex (\<lambda>topic. lim_max_values_per_topic limits < length (tv_values topic)) (li_topics log)
             then Err ''log topic value count exceeds the configured limit''
           else Ok total_filter_values)
      | _ \<Rightarrow> Ok total_filter_values)"

definition limit_owner ::
    "EventServiceLimits \<Rightarrow> OwnerInterests \<Rightarrow> usize \<times> usize \<Rightarrow> string + usize \<times> usize" where
  "limit_owner limits owner totals =
     (let (total_interests, total_filter_values) = totals in
      if lim_max_identifier_bytes limits < length (oi_owner_id owner)
        then Err ''owner identifier exceeds the configured byte limit''
      else if lim_max_interests_per_owner limits < length (oi_interests owner)
        then Err ''owner interest count exceeds the configured limit''
      else
        (let total_interests = usize_saturating_add total_interests (length (oi_interests owner)) in
         if lim_max_total_interests limits < total_interests
           then Err ''total interest count exceeds the configured limit''
         else if is_some_and (\<lambda>backfill. is_some_and (\<lambda>to_block.
             lim_max_bounded_backfill_blocks limits < saturating_sub to_block (bf_from_block backfill))
             (bf_to_block_excl backfill)) (oi_backfill owner)
           then Err ''bounded backfill exceeds the configured block limit''
         else
           bind_res (fold_res (limit_interest limits) (oi_interests owner) total_filter_values)
             (\<lambda>total_filter_values. Ok (total_interests, total_filter_values))))"

definition validate_limits ::
    "(ApplyDesiredState \<Rightarrow> usize) \<Rightarrow> ApplyDesiredState \<Rightarrow> EventServiceLimits \<Rightarrow> string + unit" where
  "validate_limits encoded_len request limits =
     (if lim_max_identifier_bytes limits < length (ads_session_id request)
        then Err ''session identifier exceeds the configured byte limit''
      else if lim_max_owners limits < length (ads_owners request)
        then Err ''owner count exceeds the configured limit''
      else if lim_max_desired_state_bytes limits < encoded_len request
        then Err ''desired state exceeds the configured encoded-byte limit''
      else bind_res (fold_res (limit_owner limits) (ads_owners request) (0, 0)) (\<lambda>_. Ok ()))"

section \<open>Resume position\<close>

datatype HelloPosition = Confirmed | DiscoveryOnly

definition resume_matches_cursor ::
    "PendingDeliveryResume \<Rightarrow> bytes \<Rightarrow> Cursor \<Rightarrow> string + unit" where
  "resume_matches_cursor resume expected_token cursor =
     (let checkpoint_matches =
            (if cur_provider_checkpoint cursor = [] then pr_provider_checkpoint resume = None
             else pr_provider_checkpoint resume = Some (cur_provider_checkpoint cursor)) in
      if pr_delivery_token resume \<noteq> expected_token \<or> \<not> checkpoint_matches \<or>
         pr_coverage_head resume \<noteq> cur_canonical_head cursor
        then Err ''pending-delivery proof does not match its cursor''
      else Ok ())"

definition cursor_sequence :: "Cursor option \<Rightarrow> u64" where
  "cursor_sequence cursor = (case cursor of None \<Rightarrow> 0 | Some c \<Rightarrow> cur_batch_sequence c)"

definition validate_hello_position :: "Hello \<Rightarrow> PersistedSession \<Rightarrow> string + HelloPosition" where
  "validate_hello_position hello persisted =
     (let transport_sequence = cursor_sequence (ps_acknowledged_cursor persisted);
          runtime_sequence = cursor_sequence (ps_runtime_checkpoint_cursor persisted) in
      case he_pending_delivery_resume hello of
        None \<Rightarrow>
          (if he_acknowledged_sequence hello = runtime_sequence then Ok Confirmed
           else if he_acknowledged_sequence hello = 0 then Ok DiscoveryOnly
           else Err ''client position does not equal runtime checkpoint authority'')
      | Some resume \<Rightarrow>
          (if he_acknowledged_sequence hello = runtime_sequence then
             bind_res (ok_or (ps_runtime_checkpoint_cursor persisted)
               ''zero sequence cannot carry a pending-delivery proof'') (\<lambda>cursor.
             bind_res (resume_matches_cursor resume
               (u64_to_be_bytes (he_acknowledged_sequence hello)) cursor) (\<lambda>_.
             Ok Confirmed))
           else
             bind_res (ok_or (checked_add transport_sequence 1)
               ''durable delivery sequence is exhausted'') (\<lambda>expected_pending.
             bind_res (ok_or (ps_pending_delivery persisted)
               ''service has no pending delivery matching the restored position'') (\<lambda>pending.
             bind_res (ok_or (del_cursor pending) ''pending delivery cursor is missing'') (\<lambda>cursor.
             if he_acknowledged_sequence hello \<noteq> expected_pending \<or>
                del_sequence pending \<noteq> expected_pending \<or>
                del_delivery_token pending \<noteq> pr_delivery_token resume
               then Err ''pending delivery sequence or token does not match''
             else
               bind_res (resume_matches_cursor resume (del_delivery_token pending) cursor) (\<lambda>_.
               Ok Confirmed))))))"

section \<open>Failures on the wire\<close>

definition store_error_code :: "SessionStoreError \<Rightarrow> ErrorCode \<times> u64 \<times> bool" where
  "store_error_code err =
     (case err of
        StoreRevisionConflict _ committed \<Rightarrow> (CodeRevisionConflict, committed, False)
      | StoreDesiredState (ProtocolVersion _ _) \<Rightarrow> (CodeProtocolVersion, 0, False)
      | StoreDesiredState (UnsupportedInterest _ _) \<Rightarrow> (CodeUnsupportedInterest, 0, False)
      | StoreDesiredState (InvalidState _) \<Rightarrow> (CodeInvalidInterest, 0, False)
      | StorePendingDelivery \<Rightarrow> (CodePendingDelivery, 0, True)
      | PersistedSessionLimit _ \<Rightarrow> (CodeResourceExhausted, 0, False)
      | SequenceOverflow \<Rightarrow> (CodeResourceExhausted, 0, False)
      | IntegerRange _ \<Rightarrow> (CodeInvalidInterest, 0, False)
      | StoreDeliveryTooLarge _ _ \<Rightarrow> (CodeResourceExhausted, 0, False)
      | _ \<Rightarrow> (CodeInternal, 0, True))"

definition store_error_message :: "SessionStoreError \<Rightarrow> string" where
  "store_error_message err =
     (case err of
        StoreRevisionConflict _ _ \<Rightarrow> ''desired-state revision conflict''
      | StoreDesiredState (ProtocolVersion _ _) \<Rightarrow> ''unsupported protocol version''
      | StoreDesiredState (UnsupportedInterest _ _) \<Rightarrow> ''desired state contains an unsupported interest''
      | StoreDesiredState (InvalidState _) \<Rightarrow> ''desired state is invalid''
      | StorePendingDelivery \<Rightarrow> ''pending delivery must be acknowledged before desired state changes''
      | PersistedSessionLimit _ \<Rightarrow> ''persisted session capacity is exhausted''
      | SequenceOverflow \<Rightarrow> ''delivery sequence space is exhausted''
      | IntegerRange _ \<Rightarrow> ''value exceeds the durable storage range''
      | StoreDeliveryTooLarge _ _ \<Rightarrow> ''activation delivery exceeds the configured encoded-byte limit''
      | _ \<Rightarrow> ''internal event service failure'')"

definition desired_state_error :: "DesiredStateError \<Rightarrow> ErrorCode \<times> string" where
  "desired_state_error err =
     (case err of
        ProtocolVersion _ _ \<Rightarrow> (CodeProtocolVersion, ''unsupported protocol version'')
      | UnsupportedInterest _ _ \<Rightarrow>
          (CodeUnsupportedInterest, ''desired state contains an unsupported interest'')
      | InvalidState _ \<Rightarrow> (CodeInvalidInterest, ''desired state is invalid'')
      | RevisionConflict _ _ \<Rightarrow> (CodeRevisionConflict, ''desired-state revision conflict''))"

datatype EventSourceErrorKind = InvalidRequest | Unsupported | ResourceExhausted | Unavailable | Internal

record EventSourceError =
  ese_kind :: EventSourceErrorKind
  ese_message :: string

definition source_error_response :: "EventSourceError \<Rightarrow> ErrorCode \<times> string \<times> bool" where
  "source_error_response err =
     (case ese_kind err of
        InvalidRequest \<Rightarrow> (CodeInvalidInterest, ''event source rejected the request'', False)
      | Unsupported \<Rightarrow> (CodeUnsupportedInterest, ''event source does not support the request'', False)
      | ResourceExhausted \<Rightarrow> (CodeResourceExhausted, ''event source resource limit exceeded'', True)
      | Unavailable \<Rightarrow> (CodeSourceUnavailable, ''event source is temporarily unavailable'', True)
      | Internal \<Rightarrow> (CodeInternal, ''internal event source failure'', True))"

text \<open>A source operation that does not finish before its deadline is an unavailable source.\<close>

definition source_call :: "(EventSourceError + 'a) option \<Rightarrow> EventSourceError + 'a" where
  "source_call outcome =
     (case outcome of
        Some answer \<Rightarrow> answer
      | None \<Rightarrow> Err \<lparr>ese_kind = Unavailable, ese_message = ''source operation timed out''\<rparr>)"

end
