(* ===== verification/Event_Service.thy ===== *)
theory Event_Service
  imports Service_Protocol
begin

text \<open>
  The event service of \<open>event-service/src/service.rs\<close>: many concurrent session streams over one
  durable store, one lease registry and one source.

  A stream is the task that \<open>session\<close> spawns. Its local variables are the record \<open>SessionTask\<close>;
  the field \<open>tk_at\<close> says at which suspension point of the task its control is, with the
  arguments of the call it waits for. One step of a task, \<open>task_step\<close>, runs from one of these
  points to the next: between two steps of a task any other task may run. What the awaited future
  yields is the \<open>Wakeup\<close> of the step; what is left to chance within a step, whether the outbound
  channel takes a message and which SQLite calls fail, is its \<open>Chance\<close>. The provider, the
  authorizer and the codecs are parameters.

  Granularity. The select, every call of the source and the first wait for the store lock (the load
  after Hello) are points of their own. Two kinds of await are merged into the neighbouring step:
  the waits of \<open>send_outbound\<close> for room in the outbound channel, and the waits for the store lock
  before the later store calls. Between the previous point and such a lock the task reads and
  writes its own variables only, and the store call itself runs under the lock; after a send the
  task changes its own variables, and at most gives its lease back. So what another task does
  during a merged await can as well be scheduled before or after the step, as far as the store and
  the task's variables go, and the lease keeps others from the row meanwhile. One order is not
  represented: a lease that is dropped after an error was sent is dropped in the step that sends.

  \<open>acquire_lease\<close> inserts the key and counts it in the gauge in one step. The code unlocks the
  registry between the two, so a reader of the metrics, which nothing in the service is, can see a
  gauge that is one behind the registry for an instant; \<open>drop_lease\<close> does both under the lock.
\<close>

section \<open>State\<close>

record ServiceMetrics =
  mt_active_sessions :: u64
  mt_sessions_accepted :: u64
  mt_authentication_rejections :: u64
  mt_lease_rejections :: u64
  mt_desired_states_committed :: u64
  mt_deliveries_persisted :: u64
  mt_deliveries_replayed :: u64
  mt_acknowledgements_committed :: u64
  mt_source_errors :: u64

definition default_metrics :: ServiceMetrics where
  "default_metrics =
     \<lparr>mt_active_sessions = 0, mt_sessions_accepted = 0, mt_authentication_rejections = 0,
      mt_lease_rejections = 0, mt_desired_states_committed = 0, mt_deliveries_persisted = 0,
      mt_deliveries_replayed = 0, mt_acknowledgements_committed = 0, mt_source_errors = 0\<rparr>"

text \<open>
  \<open>svc_shutdown\<close> is what the shutdown watch channel shows: that shutdown was requested or that
  its sender is gone. Both end the select of a task.
\<close>

record EventService =
  svc_store :: SessionStore
  svc_next_preparation_id :: u64
  svc_active_sessions :: "session_key set"
  svc_registry_poisoned :: bool
  svc_metrics :: ServiceMetrics
  svc_shutdown :: bool

record 'm ServiceConfig =
  cfg_store :: StoreEnv
  cfg_limits :: EventServiceLimits
  cfg_desired_len :: "ApplyDesiredState \<Rightarrow> usize"
  cfg_authorize :: "'m \<Rightarrow> bool"
  cfg_authorize_session :: "'m \<Rightarrow> string \<Rightarrow> u64 \<Rightarrow> bool"
  cfg_capabilities_for_chain :: "u64 \<Rightarrow> SourceCapabilities"

datatype EventServiceConfigError =
    ZeroPollInterval | ZeroSourceOperationTimeout | ZeroClientHelloTimeout | ZeroClientSendTimeout

definition service_new :: "SessionStore \<Rightarrow> nat \<Rightarrow> EventServiceConfigError + EventService" where
  "service_new store poll_interval =
     (if poll_interval = 0 then Err ZeroPollInterval
      else Ok \<lparr>svc_store = store, svc_next_preparation_id = 1, svc_active_sessions = {},
               svc_registry_poisoned = False, svc_metrics = default_metrics, svc_shutdown = False\<rparr>)"

datatype Status = Unauthenticated string | UnavailableStatus string | DeadlineExceeded string

record SessionLease =
  ls_key :: session_key
  ls_retain_registry_entry :: bool

datatype LeaseError = InUse | Capacity | Poisoned

record DeliveryRequest =
  dr_desired_state :: ApplyDesiredState
  dr_acknowledged_cursor :: "Cursor option"
  dr_required_reorg_anchor :: "BlockRef option"

text \<open>The suspension points of a task, in the order the code has them.\<close>

datatype Suspension =
    Selecting
  | HelloLoading Hello SessionLease
  | HelloPreparing Hello HelloPosition PersistedSession u64 ApplyDesiredState
  | HelloPrepareAborting u64 ApplyDesiredState
  | HelloActivating Hello HelloPosition PersistedSession u64 ApplyDesiredState
  | HelloActivationAborting u64 ApplyDesiredState
  | ApplyPreparing ApplyDesiredState u64
  | ApplyPrepareAborting ApplyDesiredState u64 EventSourceError
  | ApplyActivating ApplyDesiredState u64 DesiredStateApplied bool
  | ApplyActivationAborting ApplyDesiredState u64
  | ApplyRejectionAborting ApplyDesiredState u64 SessionStoreError
  | AcknowledgementReconciling Acknowledge Cursor
  | AwaitingDelivery DeliveryRequest
  | Releasing
  | Closed

record 'm SessionTask =
  tk_metadata :: 'm
  tk_identity :: "session_key option"
  tk_desired_state :: "ApplyDesiredState option"
  tk_cursor :: "Cursor option"
  tk_required_reorg_anchor :: "BlockRef option"
  tk_has_pending :: bool
  tk_pending_was_sent :: bool
  tk_delivery_requested :: bool
  tk_session_lease :: "SessionLease option"
  tk_position_confirmed :: bool
  tk_at :: Suspension
  tk_outbound :: "(Status + ServerMessage) list"

definition task_new :: "'m \<Rightarrow> 'm SessionTask" where
  "task_new metadata =
     \<lparr>tk_metadata = metadata, tk_identity = None, tk_desired_state = None, tk_cursor = None,
      tk_required_reorg_anchor = None, tk_has_pending = False, tk_pending_was_sent = False,
      tk_delivery_requested = False, tk_session_lease = None, tk_position_confirmed = False,
      tk_at = Selecting, tk_outbound = []\<rparr>"

text \<open>What a task waits for, and what is left to chance within a step.\<close>

datatype Wakeup =
    OnShutdown
  | OnHelloDeadline
  | OnInbound "ClientMessage option option"
  | OnTick
  | OnProviderUpdate "EventSourceError + unit"
  | OnStoreLock
  | OnPrepared "(EventSourceError + Cursor option) option"
  | OnDone "(EventSourceError + unit) option"
  | OnDelivery "(EventSourceError + Delivery option) option"

record Chance =
  ch_send :: bool
  ch_sql :: sql_fails
  ch_reload :: sql_fails

section \<open>Counters, leases and identifiers\<close>

definition count_source_error :: "EventService \<Rightarrow> EventService" where
  "count_source_error svc = svc\<lparr>svc_metrics := (svc_metrics svc)\<lparr>mt_source_errors := mt_source_errors (svc_metrics svc) + 1\<rparr>\<rparr>"

definition count_authentication_rejection :: "EventService \<Rightarrow> EventService" where
  "count_authentication_rejection svc =
     svc\<lparr>svc_metrics := (svc_metrics svc)\<lparr>mt_authentication_rejections := mt_authentication_rejections (svc_metrics svc) + 1\<rparr>\<rparr>"

definition count_lease_rejection :: "EventService \<Rightarrow> EventService" where
  "count_lease_rejection svc =
     svc\<lparr>svc_metrics := (svc_metrics svc)\<lparr>mt_lease_rejections := mt_lease_rejections (svc_metrics svc) + 1\<rparr>\<rparr>"

definition acquire_lease ::
    "EventService \<Rightarrow> session_key \<Rightarrow> usize \<Rightarrow> LeaseError + SessionLease \<times> EventService" where
  "acquire_lease svc key max_active_sessions =
     (if svc_registry_poisoned svc then Err Poisoned
      else if key \<in> svc_active_sessions svc then Err InUse
      else if max_active_sessions \<le> card (svc_active_sessions svc) then Err Capacity
      else Ok (\<lparr>ls_key = key, ls_retain_registry_entry = False\<rparr>,
               svc\<lparr>svc_active_sessions := insert key (svc_active_sessions svc),
                 svc_metrics := (svc_metrics svc)\<lparr>mt_active_sessions := mt_active_sessions (svc_metrics svc) + 1\<rparr>\<rparr>))"

definition retain_on_drop :: "SessionLease \<Rightarrow> SessionLease" where
  "retain_on_drop lease = lease\<lparr>ls_retain_registry_entry := True\<rparr>"

definition drop_lease :: "EventService \<Rightarrow> SessionLease \<Rightarrow> EventService" where
  "drop_lease svc lease =
     (if ls_retain_registry_entry lease then svc
      else if \<not> svc_registry_poisoned svc \<and> ls_key lease \<in> svc_active_sessions svc
        then svc\<lparr>svc_active_sessions := svc_active_sessions svc - {ls_key lease},
               svc_metrics := (svc_metrics svc)\<lparr>mt_active_sessions := mt_active_sessions (svc_metrics svc) - 1\<rparr>\<rparr>
      else svc)"

definition allocate_preparation_id :: "EventService \<Rightarrow> (u64 \<times> EventService) option" where
  "allocate_preparation_id svc =
     (case checked_add (svc_next_preparation_id svc) 1 of
        None \<Rightarrow> None
      | Some next_id \<Rightarrow> Some (svc_next_preparation_id svc, svc\<lparr>svc_next_preparation_id := next_id\<rparr>))"

definition encoded_delivery_len :: "StoreEnv \<Rightarrow> Delivery \<Rightarrow> usize" where
  "encoded_delivery_len env delivery =
     (let delivery_bytes = st_encoded_len env delivery in
      usize_saturating_add (usize_saturating_add delivery_bytes (st_length_delimiter_len env delivery_bytes)) 1)"

section \<open>Sending and leaving the loop\<close>

definition break_loop :: "'m SessionTask \<Rightarrow> 'm SessionTask" where
  "break_loop task = task\<lparr>tk_at := (case tk_session_lease task of None \<Rightarrow> Closed | Some _ \<Rightarrow> Releasing)\<rparr>"

definition continue_loop :: "'m SessionTask \<Rightarrow> 'm SessionTask" where
  "continue_loop task = task\<lparr>tk_at := Selecting\<rparr>"

definition send_outbound :: "Chance \<Rightarrow> ServerMessage \<Rightarrow> 'm SessionTask \<Rightarrow> bool \<times> 'm SessionTask" where
  "send_outbound chance message task =
     (if ch_send chance then (True, task\<lparr>tk_outbound := tk_outbound task @ [Ok message]\<rparr>) else (False, task))"

definition send_status :: "Chance \<Rightarrow> Status \<Rightarrow> 'm SessionTask \<Rightarrow> 'm SessionTask" where
  "send_status chance status task =
     (if ch_send chance then task\<lparr>tk_outbound := tk_outbound task @ [Err status]\<rparr> else task)"

definition send_internal :: "Chance \<Rightarrow> 'm SessionTask \<Rightarrow> 'm SessionTask" where
  "send_internal chance = send_status chance (UnavailableStatus ''internal event service failure'')"

definition send_source_unavailable :: "Chance \<Rightarrow> 'm SessionTask \<Rightarrow> 'm SessionTask" where
  "send_source_unavailable chance = send_status chance (UnavailableStatus ''event source unavailable'')"

definition protocol_error :: "ErrorCode \<Rightarrow> string \<Rightarrow> u64 \<Rightarrow> bool \<Rightarrow> ServerMessage" where
  "protocol_error code message revision retryable =
     ServerError \<lparr>pe_code = error_code_to_i32 code, pe_message = message,
       pe_committed_revision = revision, pe_retryable = retryable\<rparr>"

text \<open>Send a message and go back to the select, or leave the loop when it cannot be sent.\<close>

definition reply :: "Chance \<Rightarrow> ServerMessage \<Rightarrow> 'm SessionTask \<Rightarrow> 'm SessionTask" where
  "reply chance message task =
     (let (sent, task) = send_outbound chance message task in
      if sent then continue_loop task else break_loop task)"

definition send_error :: "Chance \<Rightarrow> ErrorCode \<Rightarrow> string \<Rightarrow> u64 \<Rightarrow> bool \<Rightarrow> 'm SessionTask \<Rightarrow> 'm SessionTask" where
  "send_error chance code message revision retryable =
     reply chance (protocol_error code message revision retryable)"

definition task_revision :: "'m SessionTask \<Rightarrow> u64" where
  "task_revision task = committed_revision (tk_desired_state task)"

section \<open>Hello\<close>

definition on_hello ::
    "'m ServiceConfig \<Rightarrow> Chance \<Rightarrow> EventService \<Rightarrow> 'm SessionTask \<Rightarrow> Hello \<Rightarrow> EventService \<times> 'm SessionTask" where
  "on_hello cfg chance svc task hello =
     (if tk_identity task \<noteq> None
        then (svc, send_error chance CodeInvalidInterest ''session already negotiated'' 0 False task)
      else if he_protocol_version hello \<noteq> PROTOCOL_VERSION
        then (svc, send_error chance CodeProtocolVersion ''unsupported protocol version'' 0 False task)
      else if lim_max_identifier_bytes (cfg_limits cfg) < length (he_session_id hello)
        then (svc, send_error chance CodeResourceExhausted
          ''session identifier exceeds the configured byte limit'' 0 False task)
      else if he_session_id hello = []
        then (svc, send_error chance CodeInvalidInterest ''session identifier is empty'' 0 False task)
      else if \<not> cfg_authorize_session cfg (tk_metadata task) (he_session_id hello) (he_chain_id hello)
        then (count_authentication_rejection svc, send_error chance CodeAuthentication
          ''event session is not authorized for this identity'' 0 False task)
      else
        (case acquire_lease svc (he_session_id hello, he_chain_id hello) (lim_max_active_sessions (cfg_limits cfg)) of
           Inl InUse \<Rightarrow> (count_lease_rejection svc, send_error chance CodeSessionInUse
             ''another connection owns this session'' 0 True task)
         | Inl Capacity \<Rightarrow> (count_lease_rejection svc, send_error chance CodeResourceExhausted
             ''active session capacity is exhausted'' 0 True task)
         | Inl Poisoned \<Rightarrow> (svc, break_loop (send_internal chance task))
         | Inr (lease, svc) \<Rightarrow> (svc, task\<lparr>tk_at := HelloLoading hello lease\<rparr>)))"

definition accept_hello ::
    "'m ServiceConfig \<Rightarrow> Chance \<Rightarrow> EventService \<Rightarrow> 'm SessionTask \<Rightarrow> Hello \<Rightarrow> HelloPosition \<Rightarrow> PersistedSession \<Rightarrow>
     EventService \<times> 'm SessionTask" where
  "accept_hello cfg chance svc task hello position persisted =
     (svc\<lparr>svc_metrics := (svc_metrics svc)\<lparr>mt_sessions_accepted := mt_sessions_accepted (svc_metrics svc) + 1\<rparr>\<rparr>,
      reply chance (ServerHelloAccepted
          \<lparr>ha_protocol_version = PROTOCOL_VERSION, ha_session_id = he_session_id hello,
           ha_chain_id = he_chain_id hello,
           ha_committed_revision = committed_revision (ps_desired_state persisted),
           ha_acknowledged_cursor = ps_acknowledged_cursor persisted,
           ha_desired_state = ps_desired_state persisted,
           ha_capabilities = Some (cfg_capabilities_for_chain cfg (he_chain_id hello)),
           ha_service_limits = Some (wire (cfg_limits cfg)),
           ha_runtime_checkpoint_position =
             Some \<lparr>rcp_cursor = ps_runtime_checkpoint_cursor persisted\<rparr>\<rparr>)
        (task\<lparr>tk_identity := Some (he_session_id hello, he_chain_id hello),
           tk_position_confirmed := (position = Confirmed),
           tk_desired_state := ps_desired_state persisted,
           tk_cursor := ps_acknowledged_cursor persisted,
           tk_required_reorg_anchor := ps_expected_reorg_tip persisted,
           tk_has_pending := (ps_pending_delivery persisted \<noteq> None),
           tk_pending_was_sent := (ps_pending_delivery persisted \<noteq> None),
           tk_delivery_requested := False\<rparr>))"

definition on_hello_loaded ::
    "'m ServiceConfig \<Rightarrow> Chance \<Rightarrow> EventService \<Rightarrow> 'm SessionTask \<Rightarrow> Hello \<Rightarrow> SessionLease \<Rightarrow>
     EventService \<times> 'm SessionTask" where
  "on_hello_loaded cfg chance svc task hello lease =
     (case load (cfg_store cfg) (ch_sql chance) (svc_store svc) (he_session_id hello) (he_chain_id hello) of
        Inl _ \<Rightarrow> (drop_lease svc lease, break_loop (send_internal chance task))
      | Inr persisted \<Rightarrow>
          (let revision = committed_revision (ps_desired_state persisted) in
           case validate_hello_position hello persisted of
             Inl _ \<Rightarrow> (drop_lease svc lease, send_error chance CodeRevisionConflict
               ''client resume position does not match durable service state'' revision False task)
           | Inr position \<Rightarrow>
               (if is_some_and (\<lambda>delivery. MAX_MESSAGE_SIZE_BYTES < encoded_delivery_len (cfg_store cfg) delivery)
                     (ps_pending_delivery persisted)
                  then (drop_lease svc lease, send_error chance CodeResourceExhausted
                    ''durable pending delivery exceeds the hard transport limit'' revision False task)
                else
                  (let task = task\<lparr>tk_session_lease := Some lease\<rparr> in
                   case ps_desired_state persisted of
                     None \<Rightarrow> accept_hello cfg chance svc task hello position persisted
                   | Some committed \<Rightarrow>
                       (case allocate_preparation_id svc of
                          None \<Rightarrow> (svc, break_loop (snd (send_outbound chance (protocol_error CodeResourceExhausted
                            ''source preparation identity space is exhausted'' revision False) task)))
                        | Some (preparation_id, svc) \<Rightarrow>
                            (svc, task\<lparr>tk_at := HelloPreparing hello position persisted preparation_id committed\<rparr>))))))"

definition on_hello_prepared ::
    "EventService \<Rightarrow> 'm SessionTask \<Rightarrow> Hello \<Rightarrow> HelloPosition \<Rightarrow> PersistedSession \<Rightarrow> u64 \<Rightarrow> ApplyDesiredState \<Rightarrow>
     (EventSourceError + Cursor option) option \<Rightarrow> EventService \<times> 'm SessionTask" where
  "on_hello_prepared svc task hello position persisted preparation_id committed outcome =
     (case source_call outcome of
        Inl _ \<Rightarrow> (count_source_error svc, task\<lparr>tk_at := HelloPrepareAborting preparation_id committed\<rparr>)
      | Inr _ \<Rightarrow> (svc, task\<lparr>tk_at := HelloActivating hello position persisted preparation_id committed\<rparr>))"

definition on_hello_prepare_aborted ::
    "Chance \<Rightarrow> EventService \<Rightarrow> 'm SessionTask \<Rightarrow> (EventSourceError + unit) option \<Rightarrow> EventService \<times> 'm SessionTask" where
  "on_hello_prepare_aborted chance svc task outcome =
     (if is_ok (source_call outcome) then svc else count_source_error svc,
      break_loop (send_source_unavailable chance task))"

definition on_hello_activated ::
    "'m ServiceConfig \<Rightarrow> Chance \<Rightarrow> EventService \<Rightarrow> 'm SessionTask \<Rightarrow> Hello \<Rightarrow> HelloPosition \<Rightarrow> PersistedSession \<Rightarrow> u64 \<Rightarrow>
     ApplyDesiredState \<Rightarrow> (EventSourceError + unit) option \<Rightarrow> EventService \<times> 'm SessionTask" where
  "on_hello_activated cfg chance svc task hello position persisted preparation_id committed outcome =
     (case source_call outcome of
        Inl _ \<Rightarrow> (count_source_error svc, task\<lparr>tk_at := HelloActivationAborting preparation_id committed\<rparr>)
      | Inr _ \<Rightarrow> accept_hello cfg chance svc task hello position persisted)"

section \<open>Desired state\<close>

definition proof_required :: "Chance \<Rightarrow> 'm SessionTask \<Rightarrow> 'm SessionTask" where
  "proof_required chance task =
     send_error chance CodeRevisionConflict ''runtime checkpoint proof is required on a new session''
       (task_revision task) False task"

definition on_apply ::
    "'m ServiceConfig \<Rightarrow> Chance \<Rightarrow> EventService \<Rightarrow> 'm SessionTask \<Rightarrow> ApplyDesiredState \<Rightarrow>
     EventService \<times> 'm SessionTask" where
  "on_apply cfg chance svc task request =
     (case tk_identity task of
        None \<Rightarrow> (svc, send_error chance CodeProtocolVersion ''Hello must be sent first'' 0 False task)
      | Some (session_id, chain_id) \<Rightarrow>
          (if ads_session_id request \<noteq> session_id \<or> ads_chain_id request \<noteq> chain_id
             then (svc, send_error chance CodeInvalidInterest
               ''desired state does not match negotiated session'' 0 False task)
           else if \<not> tk_position_confirmed task then (svc, proof_required chance task)
           else
             (case validate_limits (cfg_desired_len cfg) request (cfg_limits cfg) of
                Inl message \<Rightarrow> (svc, send_error chance CodeResourceExhausted message
                  (ads_expected_revision request) False task)
              | Inr _ \<Rightarrow>
                  (case validate_desired_state request of
                     Inl err \<Rightarrow>
                       (let (code, message) = desired_state_error err in
                        (svc, send_error chance code message (ads_expected_revision request) False task))
                   | Inr _ \<Rightarrow>
                       (if 2 ^ 63 \<le> unat (ads_expected_revision request) \<or> 2 ^ 63 \<le> unat (ads_new_revision request)
                          then (svc, send_error chance CodeInvalidInterest
                            ''desired-state revision exceeds the durable storage range''
                            (ads_expected_revision request) False task)
                        else
                          (case allocate_preparation_id svc of
                             None \<Rightarrow> (svc, send_error chance CodeResourceExhausted
                               ''source preparation identity space is exhausted''
                               (ads_expected_revision request) False task)
                           | Some (preparation_id, svc) \<Rightarrow>
                               (svc, task\<lparr>tk_at := ApplyPreparing request preparation_id\<rparr>)))))))"

definition on_apply_prepared ::
    "'m ServiceConfig \<Rightarrow> Chance \<Rightarrow> EventService \<Rightarrow> 'm SessionTask \<Rightarrow> ApplyDesiredState \<Rightarrow> u64 \<Rightarrow>
     (EventSourceError + Cursor option) option \<Rightarrow> EventService \<times> 'm SessionTask" where
  "on_apply_prepared cfg chance svc task request preparation_id outcome =
     (case source_call outcome of
        Inl err \<Rightarrow> (count_source_error svc, task\<lparr>tk_at := ApplyPrepareAborting request preparation_id err\<rparr>)
      | Inr prepared_cursor \<Rightarrow>
          (case apply_desired_state_with_cursor_and_limit (cfg_store cfg) (ch_sql chance) (svc_store svc) request
                  prepared_cursor (delivery_limit (cfg_limits cfg)) (lim_max_persisted_sessions (cfg_limits cfg)) of
             Inl err \<Rightarrow> (svc, task\<lparr>tk_at := ApplyRejectionAborting request preparation_id err\<rparr>)
           | Inr ((applied, newly_committed), store) \<Rightarrow>
               (let metrics = svc_metrics svc in
                (svc\<lparr>svc_store := store, svc_metrics :=
                   (if newly_committed then metrics\<lparr>mt_desired_states_committed := mt_desired_states_committed metrics + 1,
                      mt_deliveries_persisted := mt_deliveries_persisted metrics + 1\<rparr> else metrics)\<rparr>,
                 task\<lparr>tk_at := ApplyActivating request preparation_id applied newly_committed\<rparr>))))"

definition on_apply_prepare_aborted ::
    "Chance \<Rightarrow> EventService \<Rightarrow> 'm SessionTask \<Rightarrow> ApplyDesiredState \<Rightarrow> EventSourceError \<Rightarrow>
     (EventSourceError + unit) option \<Rightarrow> EventService \<times> 'm SessionTask" where
  "on_apply_prepare_aborted chance svc task request err outcome =
     (case source_call outcome of
        Inl _ \<Rightarrow> (count_source_error svc, break_loop (send_source_unavailable chance task))
      | Inr _ \<Rightarrow>
          (let (code, message, retryable) = source_error_response err in
           (svc, send_error chance code message (ads_expected_revision request) retryable task)))"

definition on_apply_activated ::
    "'m ServiceConfig \<Rightarrow> Chance \<Rightarrow> EventService \<Rightarrow> 'm SessionTask \<Rightarrow> ApplyDesiredState \<Rightarrow> u64 \<Rightarrow> DesiredStateApplied \<Rightarrow>
     bool \<Rightarrow> (EventSourceError + unit) option \<Rightarrow> EventService \<times> 'm SessionTask" where
  "on_apply_activated cfg chance svc task request preparation_id applied newly_committed outcome =
     (case source_call outcome of
        Inl _ \<Rightarrow> (count_source_error svc, task\<lparr>tk_at := ApplyActivationAborting request preparation_id\<rparr>)
      | Inr _ \<Rightarrow>
          (let task = task\<lparr>tk_desired_state := Some request\<rparr> in
           case load (cfg_store cfg) (ch_sql chance) (svc_store svc) (ads_session_id request) (ads_chain_id request) of
             Inl _ \<Rightarrow> (svc, break_loop (send_internal chance task))
           | Inr persisted \<Rightarrow>
               (let has_pending = (ps_pending_delivery persisted \<noteq> None) in
                (svc, reply chance (ServerDesiredStateApplied applied)
                   (task\<lparr>tk_has_pending := has_pending,
                      tk_pending_was_sent := (\<not> newly_committed \<and> has_pending),
                      tk_delivery_requested := False\<rparr>)))))"

definition on_apply_rejection_aborted ::
    "Chance \<Rightarrow> EventService \<Rightarrow> 'm SessionTask \<Rightarrow> SessionStoreError \<Rightarrow> (EventSourceError + unit) option \<Rightarrow>
     EventService \<times> 'm SessionTask" where
  "on_apply_rejection_aborted chance svc task err outcome =
     (case source_call outcome of
        Inl _ \<Rightarrow> (count_source_error svc, break_loop (send_source_unavailable chance task))
      | Inr _ \<Rightarrow>
          (let (code, committed, retryable) = store_error_code err in
           if code = CodeInternal then (svc, break_loop (send_internal chance task))
           else (svc, send_error chance code (store_error_message err) committed retryable task)))"

section \<open>Acknowledgement, heartbeat and demand\<close>

definition on_acknowledge ::
    "'m ServiceConfig \<Rightarrow> Chance \<Rightarrow> EventService \<Rightarrow> 'm SessionTask \<Rightarrow> Acknowledge \<Rightarrow> EventService \<times> 'm SessionTask" where
  "on_acknowledge cfg chance svc task acknowledgement =
     (case tk_identity task of
        None \<Rightarrow> (svc, send_error chance CodeProtocolVersion ''Hello must be sent first'' 0 False task)
      | Some (session_id, chain_id) \<Rightarrow>
          (if ack_session_id acknowledgement \<noteq> session_id
             then (svc, send_error chance CodeInvalidInterest
               ''acknowledgement does not match negotiated session'' 0 False task)
           else if \<not> tk_position_confirmed task then (svc, proof_required chance task)
           else
             (case acknowledge_with_status (cfg_store cfg) (ch_sql chance) (svc_store svc) chain_id acknowledgement of
                Inl _ \<Rightarrow> (svc, break_loop (send_internal chance task))
              | Inr ((committed_cursor, newly_committed), store) \<Rightarrow>
                  (let svc = svc\<lparr>svc_store := store\<rparr>; metrics = svc_metrics svc in
                   case load (cfg_store cfg) (ch_reload chance) store session_id chain_id of
                     Inl _ \<Rightarrow> (svc, break_loop (send_internal chance task))
                   | Inr persisted \<Rightarrow>
                       (svc\<lparr>svc_metrics := (if newly_committed
                            then metrics\<lparr>mt_acknowledgements_committed := mt_acknowledgements_committed metrics + 1\<rparr>
                            else metrics)\<rparr>,
                        task\<lparr>tk_required_reorg_anchor := ps_expected_reorg_tip persisted,
                          tk_at := AcknowledgementReconciling acknowledgement committed_cursor\<rparr>)))))"

definition on_acknowledgement_reconciled ::
    "Chance \<Rightarrow> EventService \<Rightarrow> 'm SessionTask \<Rightarrow> Acknowledge \<Rightarrow> Cursor \<Rightarrow> (EventSourceError + unit) option \<Rightarrow>
     EventService \<times> 'm SessionTask" where
  "on_acknowledgement_reconciled chance svc task acknowledgement committed_cursor outcome =
     (case source_call outcome of
        Inl _ \<Rightarrow> (count_source_error svc, break_loop (send_source_unavailable chance task))
      | Inr _ \<Rightarrow>
          (let (sent, task) = send_outbound chance (ServerAcknowledgementCommitted
                 \<lparr>ac_session_id = ack_session_id acknowledgement, ac_sequence = ack_sequence acknowledgement,
                  ac_cursor = Some committed_cursor\<rparr>) task in
           (svc, if sent then continue_loop (task\<lparr>tk_cursor := Some committed_cursor, tk_has_pending := False,
                   tk_pending_was_sent := False, tk_delivery_requested := False\<rparr>)
                 else break_loop task)))"

definition on_heartbeat :: "Chance \<Rightarrow> EventService \<Rightarrow> 'm SessionTask \<Rightarrow> Heartbeat \<Rightarrow> EventService \<times> 'm SessionTask" where
  "on_heartbeat chance svc task heartbeat =
     (svc, if tk_identity task = None
        then send_error chance CodeProtocolVersion ''Hello must be sent first'' 0 False task
      else reply chance (ServerHeartbeat heartbeat) task)"

definition on_delivery_demand ::
    "'m ServiceConfig \<Rightarrow> Chance \<Rightarrow> EventService \<Rightarrow> 'm SessionTask \<Rightarrow> DeliveryDemand \<Rightarrow> EventService \<times> 'm SessionTask" where
  "on_delivery_demand cfg chance svc task demand =
     (case tk_identity task of
        None \<Rightarrow> (svc, send_error chance CodeProtocolVersion ''Hello must be sent first'' 0 False task)
      | Some (session_id, chain_id) \<Rightarrow>
          (if dd_session_id demand \<noteq> session_id
             then (svc, send_error chance CodeInvalidInterest
               ''delivery demand does not match negotiated session'' 0 False task)
           else if \<not> tk_position_confirmed task then (svc, proof_required chance task)
           else if tk_has_pending task then
             (case (case load (cfg_store cfg) (ch_sql chance) (svc_store svc) session_id chain_id of
                      Inl _ \<Rightarrow> None | Inr persisted \<Rightarrow> ps_pending_delivery persisted) of
                Some delivery \<Rightarrow>
                  (if encoded_delivery_len (cfg_store cfg) delivery \<le> MAX_MESSAGE_SIZE_BYTES then
                     (let metrics = svc_metrics svc;
                          svc = (if tk_pending_was_sent task
                            then svc\<lparr>svc_metrics := metrics\<lparr>mt_deliveries_replayed := mt_deliveries_replayed metrics + 1\<rparr>\<rparr>
                            else svc);
                          (sent, task) = send_outbound chance (ServerDelivery delivery) task in
                      (svc, if sent then continue_loop (task\<lparr>tk_pending_was_sent := True\<rparr>) else break_loop task))
                   else (svc, send_error chance CodeResourceExhausted
                     ''durable pending delivery exceeds the hard transport limit'' (task_revision task) False task))
              | None \<Rightarrow> (svc, continue_loop (task\<lparr>tk_has_pending := False, tk_pending_was_sent := False,
                  tk_delivery_requested := True\<rparr>)))
           else (svc, continue_loop (task\<lparr>tk_delivery_requested := True\<rparr>))))"

section \<open>Polling the source\<close>

definition delivery_request :: "'m SessionTask \<Rightarrow> ApplyDesiredState \<Rightarrow> DeliveryRequest" where
  "delivery_request task desired =
     \<lparr>dr_desired_state = desired, dr_acknowledged_cursor = tk_cursor task,
      dr_required_reorg_anchor = tk_required_reorg_anchor task\<rparr>"

definition poll_source :: "'m SessionTask \<Rightarrow> 'm SessionTask" where
  "poll_source task =
     (case tk_desired_state task of
        None \<Rightarrow> continue_loop task
      | Some desired \<Rightarrow> task\<lparr>tk_at := AwaitingDelivery (delivery_request task desired)\<rparr>)"

definition report_source_error ::
    "Chance \<Rightarrow> EventService \<Rightarrow> 'm SessionTask \<Rightarrow> EventSourceError \<Rightarrow> EventService \<times> 'm SessionTask" where
  "report_source_error chance svc task err =
     (let (code, message, retryable) = source_error_response err in
      (count_source_error svc,
       send_error chance code message (task_revision task) retryable (task\<lparr>tk_delivery_requested := False\<rparr>)))"

definition on_delivery ::
    "'m ServiceConfig \<Rightarrow> Chance \<Rightarrow> EventService \<Rightarrow> 'm SessionTask \<Rightarrow> DeliveryRequest \<Rightarrow>
     (EventSourceError + Delivery option) option \<Rightarrow> EventService \<times> 'm SessionTask" where
  "on_delivery cfg chance svc task request outcome =
     (case source_call outcome of
        Inl err \<Rightarrow> report_source_error chance svc task err
      | Inr None \<Rightarrow> (svc, continue_loop task)
      | Inr (Some delivery) \<Rightarrow>
          (if delivery_limit (cfg_limits cfg) < encoded_delivery_len (cfg_store cfg) delivery
             then (svc, send_error chance CodeResourceExhausted
               ''source delivery exceeds the configured encoded-byte limit''
               (ads_new_revision (dr_desired_state request)) False (task\<lparr>tk_delivery_requested := False\<rparr>))
           else
             (case save_pending_with_status (cfg_store cfg) (ch_sql chance) (svc_store svc)
                     (dr_desired_state request) delivery of
                Inl _ \<Rightarrow> (svc, break_loop (send_internal chance task))
              | Inr (newly_persisted, store) \<Rightarrow>
                  (let metrics = svc_metrics svc in
                   (svc\<lparr>svc_store := store, svc_metrics := (if newly_persisted
                      then metrics\<lparr>mt_deliveries_persisted := mt_deliveries_persisted metrics + 1\<rparr> else metrics)\<rparr>,
                    reply chance (ServerDelivery delivery) (task\<lparr>tk_has_pending := True,
                      tk_pending_was_sent := True, tk_delivery_requested := False\<rparr>))))))"

section \<open>The task\<close>

definition on_inbound ::
    "'m ServiceConfig \<Rightarrow> Chance \<Rightarrow> EventService \<Rightarrow> 'm SessionTask \<Rightarrow> ClientMessage option option \<Rightarrow>
     EventService \<times> 'm SessionTask" where
  "on_inbound cfg chance svc task inbound =
     (case inbound of
        None \<Rightarrow> (svc, break_loop task)
      | Some None \<Rightarrow> (svc, send_error chance CodeInvalidInterest ''empty client message'' 0 False task)
      | Some (Some (ClientHello hello)) \<Rightarrow> on_hello cfg chance svc task hello
      | Some (Some (ClientApplyDesiredState request)) \<Rightarrow> on_apply cfg chance svc task request
      | Some (Some (ClientAcknowledge acknowledgement)) \<Rightarrow> on_acknowledge cfg chance svc task acknowledgement
      | Some (Some (ClientHeartbeat heartbeat)) \<Rightarrow> on_heartbeat chance svc task heartbeat
      | Some (Some (ClientDeliveryDemand demand)) \<Rightarrow> on_delivery_demand cfg chance svc task demand)"

definition wants_delivery :: "'m SessionTask \<Rightarrow> bool" where
  "wants_delivery task \<longleftrightarrow>
     tk_identity task \<noteq> None \<and> tk_position_confirmed task \<and> tk_delivery_requested task \<and> \<not> tk_has_pending task"

definition on_select ::
    "'m ServiceConfig \<Rightarrow> Chance \<Rightarrow> EventService \<Rightarrow> 'm SessionTask \<Rightarrow> Wakeup \<Rightarrow>
     (EventService \<times> 'm SessionTask) option" where
  "on_select cfg chance svc task wakeup =
     (case wakeup of
        OnShutdown \<Rightarrow> (if svc_shutdown svc then Some (svc, break_loop task) else None)
      | OnHelloDeadline \<Rightarrow>
          (if tk_identity task = None
             then Some (svc, break_loop (send_status chance (DeadlineExceeded ''event session Hello timed out'') task))
           else None)
      | OnInbound inbound \<Rightarrow> Some (on_inbound cfg chance svc task inbound)
      | OnTick \<Rightarrow>
          (if wants_delivery task \<and> tk_desired_state task \<noteq> None then Some (svc, poll_source task) else None)
      | OnProviderUpdate update \<Rightarrow>
          (if wants_delivery task \<and> tk_desired_state task \<noteq> None
             then Some (case update of
                 Inr _ \<Rightarrow> (svc, poll_source task)
               | Inl err \<Rightarrow> report_source_error chance svc task err)
           else None)
      | _ \<Rightarrow> None)"

definition on_released ::
    "EventService \<Rightarrow> 'm SessionTask \<Rightarrow> (EventSourceError + unit) option \<Rightarrow> EventService \<times> 'm SessionTask" where
  "on_released svc task release =
     (case tk_session_lease task of
        None \<Rightarrow> (svc, task\<lparr>tk_at := Closed\<rparr>)
      | Some lease \<Rightarrow>
          (let svc = (case release of Some (Inl _) \<Rightarrow> count_source_error svc | _ \<Rightarrow> svc);
               lease = (if release = Some (Inr ()) then lease else retain_on_drop lease) in
           (drop_lease svc lease, task\<lparr>tk_session_lease := None, tk_at := Closed\<rparr>)))"

definition task_step ::
    "'m ServiceConfig \<Rightarrow> Chance \<Rightarrow> EventService \<Rightarrow> 'm SessionTask \<Rightarrow> Wakeup \<Rightarrow>
     (EventService \<times> 'm SessionTask) option" where
  "task_step cfg chance svc task wakeup =
     (case (tk_at task, wakeup) of
        (Selecting, _) \<Rightarrow> on_select cfg chance svc task wakeup
      | (HelloLoading hello lease, OnStoreLock) \<Rightarrow> Some (on_hello_loaded cfg chance svc task hello lease)
      | (HelloPreparing hello position persisted preparation_id committed, OnPrepared outcome) \<Rightarrow>
          Some (on_hello_prepared svc task hello position persisted preparation_id committed outcome)
      | (HelloPrepareAborting _ _, OnDone outcome) \<Rightarrow> Some (on_hello_prepare_aborted chance svc task outcome)
      | (HelloActivating hello position persisted preparation_id committed, OnDone outcome) \<Rightarrow>
          Some (on_hello_activated cfg chance svc task hello position persisted preparation_id committed outcome)
      | (HelloActivationAborting _ _, OnDone _) \<Rightarrow> Some (svc, break_loop (send_source_unavailable chance task))
      | (ApplyPreparing request preparation_id, OnPrepared outcome) \<Rightarrow>
          Some (on_apply_prepared cfg chance svc task request preparation_id outcome)
      | (ApplyPrepareAborting request _ err, OnDone outcome) \<Rightarrow>
          Some (on_apply_prepare_aborted chance svc task request err outcome)
      | (ApplyActivating request preparation_id applied newly_committed, OnDone outcome) \<Rightarrow>
          Some (on_apply_activated cfg chance svc task request preparation_id applied newly_committed outcome)
      | (ApplyActivationAborting _ _, OnDone _) \<Rightarrow> Some (svc, break_loop (send_source_unavailable chance task))
      | (ApplyRejectionAborting _ _ err, OnDone outcome) \<Rightarrow>
          Some (on_apply_rejection_aborted chance svc task err outcome)
      | (AcknowledgementReconciling acknowledgement committed_cursor, OnDone outcome) \<Rightarrow>
          Some (on_acknowledgement_reconciled chance svc task acknowledgement committed_cursor outcome)
      | (AwaitingDelivery request, OnDelivery outcome) \<Rightarrow> Some (on_delivery cfg chance svc task request outcome)
      | (Releasing, OnDone release) \<Rightarrow> Some (on_released svc task release)
      | _ \<Rightarrow> None)"

definition session :: "'m ServiceConfig \<Rightarrow> EventService \<Rightarrow> 'm \<Rightarrow> (Status + 'm SessionTask) \<times> EventService" where
  "session cfg svc metadata =
     (if \<not> cfg_authorize cfg metadata
        then (Err (Unauthenticated ''event session authentication failed''), count_authentication_rejection svc)
      else if svc_shutdown svc then (Err (UnavailableStatus ''event service is shutting down''), svc)
      else (Ok (task_new metadata), svc))"

definition shutdown :: "EventService \<Rightarrow> EventService" where
  "shutdown svc = svc\<lparr>svc_shutdown := True\<rparr>"

end
