(* ===== verification/Session_Invariant.thy ===== *)
theory Session_Invariant
  imports Session_Store
begin

text \<open>
  The durable session store as a state machine: every row that the store's own operations can
  produce loads again, the compare-and-swap contract, and the refinement of the store to an
  abstract outbox with at most one delivery in flight.
\<close>

section \<open>Codecs\<close>

text \<open>What the store relies on of the protobuf codec: decoding inverts encoding.\<close>

definition codec_laws :: "StoreEnv \<Rightarrow> bool" where
  "codec_laws env \<longleftrightarrow>
     (\<forall>x. st_dec_desired env (st_enc_desired env x) = Some x) \<and>
     (\<forall>x. st_dec_cursor env (st_enc_cursor env x) = Some x) \<and>
     (\<forall>x. st_dec_delivery env (st_enc_delivery env x) = Some x) \<and>
     (\<forall>x. st_dec_block env (st_enc_block env x) = Some x)"

lemma decode_optional_simps [simp]:
  "decode_optional dec None = Ok None"
  "dec b = Some x \<Longrightarrow> decode_optional dec (Some b) = Ok (Some x)"
  by (simp_all add: decode_optional_def decode_blob_def)

lemma decode_optional_Ok_iff [result_simps]:
  "decode_optional dec m = Ok v \<longleftrightarrow>
     (case m of None \<Rightarrow> v = None | Some b \<Rightarrow> \<exists>x. dec b = Some x \<and> v = Some x)"
  by (auto simp: decode_optional_def decode_blob_def result_simps split: option.splits)

lemma decode_blob_Ok_iff [result_simps]: "decode_blob dec b = Ok x \<longleftrightarrow> dec b = Some x"
  by (simp add: decode_blob_def result_simps)

lemma sql_Ok_iff [result_simps]: "sql fails call = Ok u \<longleftrightarrow> \<not> fails call"
  by (simp add: sql_def result_simps)

lemma for_some_Ok_iff [result_simps]: "for_some m f = Ok u \<longleftrightarrow> pred_option (\<lambda>x. f x = Ok u) m"
  by (cases m) (simp_all add: for_some_def)

lemma next_sequence_Ok_iff [result_simps]:
  "next_sequence acked = Ok n \<longleftrightarrow>
     unat n = Suc (case acked of None \<Rightarrow> 0 | Some c \<Rightarrow> unat (cur_batch_sequence c))"
  by (cases acked) (auto simp: next_sequence_def result_simps u64_simps word_unat_eq_iff)

lemma select_write_row [simp]:
  "select_row (write_row store key row) key' = (if key' = key then Some row else select_row store key')"
  by (simp add: select_row_def write_row_def update_conv')

lemma distinct_write_row:
  "distinct (map fst (ss_rows store)) \<Longrightarrow> distinct (map fst (ss_rows (write_row store key row)))"
  by (simp add: write_row_def distinct_update)

lemmas sql_integers = chain_id_to_sql_integer_def chain_id_from_sql_integer_def
  sequence_to_sql_integer_def sequence_from_sql_integer_def

section \<open>Rows that load\<close>

lemma decode_row_Ok_iff:
  "decode_row env row = Ok p \<longleftrightarrow>
     decode_optional (st_dec_desired env) (row_desired_state row) = Ok (ps_desired_state p) \<and>
     decode_optional (st_dec_cursor env) (row_acknowledged_cursor row) = Ok (ps_acknowledged_cursor p) \<and>
     decode_optional (st_dec_cursor env) (row_runtime_checkpoint_cursor row) = Ok (ps_runtime_checkpoint_cursor p) \<and>
     decode_optional (st_dec_delivery env) (row_pending_delivery row) = Ok (ps_pending_delivery p) \<and>
     decode_optional (st_dec_block env) (row_expected_reorg_tip row) = Ok (ps_expected_reorg_tip p)"
  by (cases p) (auto simp: decode_row_def bind_res_Ok_iff)

lemma load_row_Ok_iff:
  "load_row env key row = Ok p \<longleftrightarrow>
     decode_row env row = Ok p \<and> 0 \<le> sint (row_revision row) \<and>
     validate_persisted_session env (fst key) (snd key) (row_revision row) (row_activation_sequence row) p = Ok ()"
  by (auto simp: load_row_def from_sql_integer_def bind_res_Ok_iff ok_or_Ok_iff u64_try_from_i64_def
      sql_integers split: if_splits)

text \<open>The conjuncts of a valid session with a desired state.\<close>

lemma valid_session_iff:
  assumes "ps_desired_state p = Some ds"
  shows "validate_persisted_session env sid cid rv act p = Ok () \<longleftrightarrow>
    wf_desired_state ds \<and> ads_session_id ds = sid \<and> ads_chain_id ds = cid \<and> ads_new_revision ds = rv \<and>
    pred_option (\<lambda>c. validate_persisted_cursor cid rv
      ''durable acknowledged cursor does not match its row'' c = Ok ()) (ps_acknowledged_cursor p) \<and>
    pred_option (\<lambda>c. validate_persisted_runtime_cursor cid rv p c = Ok ()) (ps_runtime_checkpoint_cursor p) \<and>
    pred_option (\<lambda>b. validate_persisted_promise p b = Ok ()) (ps_expected_reorg_tip p) \<and>
    pred_option (\<lambda>d. validate_persisted_pending env sid cid rv ds p d = Ok ()) (ps_pending_delivery p) \<and>
    validate_persisted_activation rv act ds p = Ok ()"
  using assms
  by (auto simp: validate_persisted_session_def bind_res_Ok_iff map_err_Ok_iff validate_desired_state_Ok_iff
      for_some_Ok_iff if_Err_Ok_iff)

lemma validate_block_ref_Ok_iff [result_simps]:
  "validate_block_ref b = Ok u \<longleftrightarrow> length (br_hash b) = 32 \<and> length (br_parent_hash b) = 32"
  by (auto simp: validate_block_ref_def)

lemma persisted_cursor_Ok_iff [result_simps]:
  "validate_persisted_cursor cid rv what c = Ok u \<longleftrightarrow>
     cur_chain_id c = cid \<and> cur_query_revision c \<le> rv \<and> cur_batch_sequence c \<noteq> 0 \<and>
     pred_option (\<lambda>b. validate_block_ref b = Ok ()) (cur_canonical_head c)"
  by (auto simp: validate_persisted_cursor_def not_less split: option.splits)

definition acked_sequence :: "Cursor option \<Rightarrow> nat" where
  "acked_sequence acked = (case acked of None \<Rightarrow> 0 | Some c \<Rightarrow> unat (cur_batch_sequence c))"

lemma acked_sequence_simps [simp]:
  "acked_sequence None = 0" "acked_sequence (Some c) = unat (cur_batch_sequence c)"
  by (simp_all add: acked_sequence_def)

text \<open>The identity of the delivery in flight.\<close>

definition next_in_flight :: "ApplyDesiredState \<Rightarrow> Cursor option \<Rightarrow> Delivery \<Rightarrow> bool" where
  "next_in_flight ds acked d \<longleftrightarrow>
     del_session_id d = ads_session_id ds \<and> del_query_revision d = ads_new_revision ds \<and>
     unat (del_sequence d) = Suc (acked_sequence acked) \<and>
     del_delivery_token d = u64_to_be_bytes (del_sequence d) \<and> del_payload d \<noteq> None \<and>
     (\<exists>c. del_cursor d = Some c \<and> cur_batch_sequence c = del_sequence d \<and>
        cur_chain_id c = ads_chain_id ds \<and> cur_query_revision c = ads_new_revision ds)"

definition keeps_promise :: "ApplyDesiredState \<Rightarrow> BlockRef option \<Rightarrow> Delivery \<Rightarrow> bool" where
  "keeps_promise ds promise d \<longleftrightarrow>
     pred_option (\<lambda>tip. is_activation_delivery d (ads_new_revision ds) \<or>
       delivery_certifies_reorg_tip d tip) promise"

definition admissible_delivery :: "StoreEnv \<Rightarrow> ApplyDesiredState \<Rightarrow> Cursor option \<Rightarrow> Delivery \<Rightarrow> bool" where
  "admissible_delivery env ds acked d \<longleftrightarrow>
     next_in_flight ds acked d \<and>
     validate_delivery_size env d MAX_MESSAGE_SIZE_BYTES = Ok () \<and>
     validate_delivery_payload env ds d = Ok () \<and> validate_delivery_progress acked ds d = Ok ()"

lemma is_activation_not_reorg:
  "is_activation_delivery d rv \<Longrightarrow> del_payload d \<noteq> Some (PayloadReorg r)"
  by (auto simp: is_activation_delivery_def split: option.splits)

lemma certifies_not_reorg:
  "delivery_certifies_reorg_tip d b \<Longrightarrow> del_payload d \<noteq> Some (PayloadReorg r)"
  by (auto simp: delivery_certifies_reorg_tip_def split: option.splits)

lemma persisted_pending_Ok_iff:
  "validate_persisted_pending env (ads_session_id ds) (ads_chain_id ds) (ads_new_revision ds) ds p d = Ok () \<longleftrightarrow>
     admissible_delivery env ds (ps_acknowledged_cursor p) d \<and>
     keeps_promise ds (ps_expected_reorg_tip p) d"
proof -
  have seq: "next_sequence acked = Ok (del_sequence d) \<longleftrightarrow> unat (del_sequence d) = Suc (acked_sequence acked)" for acked
    by (simp add: next_sequence_Ok_iff acked_sequence_def)
  have second: "ps_expected_reorg_tip p \<noteq> None \<and>
      (case del_payload d of Some (PayloadReorg _) \<Rightarrow> True | _ \<Rightarrow> False) \<longrightarrow> \<not> keeps_promise ds (ps_expected_reorg_tip p) d"
    by (auto simp: keeps_promise_def is_activation_not_reorg
        dest: certifies_not_reorg is_activation_not_reorg split: option.splits Payload.splits)
  have promise: "\<not> is_some_and (\<lambda>expected. \<not> is_activation_delivery d (ads_new_revision ds) \<and>
      \<not> delivery_certifies_reorg_tip d expected) (ps_expected_reorg_tip p) \<longleftrightarrow>
      keeps_promise ds (ps_expected_reorg_tip p) d"
    by (cases "ps_expected_reorg_tip p") (auto simp: keeps_promise_def)
  show ?thesis
    using second unfolding validate_persisted_pending_def admissible_delivery_def next_in_flight_def
    by (auto simp: bind_res_Ok_iff ok_or_Ok_iff if_Err_Ok_iff promise simp flip: seq)
qed


lemma persisted_activation_Ok_iff:
  "validate_persisted_activation rv act ds p = Ok u \<longleftrightarrow>
     (let acked = acked_sequence (ps_acknowledged_cursor p);
          acked_here = (\<exists>c. ps_acknowledged_cursor p = Some c \<and> cur_query_revision c = rv);
          activating = (\<lambda>d. ps_pending_delivery p = Some d \<and> is_activation_delivery d (ads_new_revision ds)) in
      unat act \<le> (case ps_pending_delivery p of None \<Rightarrow> acked | Some d \<Rightarrow> unat (del_sequence d)) \<and>
      (if acked < unat act then \<exists>d. activating d \<and> del_sequence d = act
       else acked_here \<or> act = 0 \<and> (\<exists>d. activating d)))"
  by (cases "ps_acknowledged_cursor p"; cases "ps_pending_delivery p")
     (auto simp: validate_persisted_activation_def Let_def u64_order not_less)

section \<open>The invariant of the store\<close>

text \<open>
  Beyond loading, a stored session has a desired state that follows its predecessor, and a
  replacement promise lies above the acknowledged head, which exists.
\<close>

definition session_ok :: "PersistedSession \<Rightarrow> bool" where
  "session_ok p \<longleftrightarrow>
     (\<exists>ds. ps_desired_state p = Some ds \<and>
        unat (ads_new_revision ds) = Suc (unat (ads_expected_revision ds))) \<and>
     pred_option (\<lambda>promised. \<exists>head. cursor_head (ps_acknowledged_cursor p) = Some head \<and>
        br_number head < br_number promised) (ps_expected_reorg_tip p)"

definition store_inv :: "StoreEnv \<Rightarrow> SessionStore \<Rightarrow> bool" where
  "store_inv env store \<longleftrightarrow>
     distinct (map fst (ss_rows store)) \<and>
     (\<forall>key row. select_row store key = Some row \<longrightarrow> (\<exists>p. load_row env key row = Ok p \<and> session_ok p))"

text \<open>What a session's row holds, the empty session when there is none.\<close>

definition session_view :: "StoreEnv \<Rightarrow> SessionStore \<Rightarrow> row_key \<Rightarrow> PersistedSession" where
  "session_view env store key =
     (case select_row store key of
        None \<Rightarrow> persisted_default
      | Some row \<Rightarrow> (case load_row env key row of Inl _ \<Rightarrow> persisted_default | Inr p \<Rightarrow> p))"

lemma load_view:
  assumes "store_inv env store"
  shows "load env fails store sid cid = Ok p \<longleftrightarrow>
    \<not> fails LoadRow \<and> p = session_view env store (sessions_key sid cid)"
proof (cases "select_row store (sessions_key sid cid)")
  case None
  then show ?thesis by (auto simp: load_def session_view_def bind_res_Ok_iff sql_Ok_iff)
next
  case (Some row)
  with assms obtain q where "load_row env (sessions_key sid cid) row = Ok q"
    unfolding store_inv_def by blast
  with Some show ?thesis by (auto simp: load_def session_view_def bind_res_Ok_iff sql_Ok_iff)
qed

lemma view_of_row:
  assumes "store_inv env store" and "select_row store key = Some row"
  shows "load_row env key row = Ok (session_view env store key)" and "session_ok (session_view env store key)"
proof -
  obtain q where "load_row env key row = Ok q" "session_ok q"
    using assms unfolding store_inv_def by blast
  with assms(2) show "load_row env key row = Ok (session_view env store key)" "session_ok (session_view env store key)"
    by (auto simp: session_view_def)
qed

lemma row_of_view:
  assumes "store_inv env store" and "ps_desired_state (session_view env store key) = Some ds"
  obtains row where "select_row store key = Some row"
  using assms by (cases "select_row store key") (auto simp: session_view_def persisted_default_def)

text \<open>Writing back a row that loads as a good session keeps the invariant.\<close>

lemma store_inv_write:
  assumes "store_inv env store" and "load_row env key row = Ok p" and "session_ok p"
  shows "store_inv env (write_row store key row)"
    and "session_view env (write_row store key row) key = p"
    and "key' \<noteq> key \<Longrightarrow> session_view env (write_row store key row) key' = session_view env store key'"
  using assms by (auto simp: store_inv_def session_view_def distinct_write_row)

lemma store_inv_empty: "store_inv env \<lparr>ss_rows = []\<rparr>"
  by (simp add: store_inv_def select_row_def)


section \<open>Transitions of one session\<close>

definition valid_session :: "StoreEnv \<Rightarrow> row_key \<Rightarrow> u64 \<Rightarrow> u64 \<Rightarrow> PersistedSession \<Rightarrow> bool" where
  "valid_session env key rv act p \<longleftrightarrow>
     validate_persisted_session env (fst key) (snd key) rv act p = Ok () \<and> session_ok p"

lemma valid_session_default_or:
  assumes "store_inv env store"
  shows "session_view env store key = persisted_default \<or>
    (\<exists>rv act. valid_session env key rv act (session_view env store key))"
proof (cases "select_row store key")
  case None
  then show ?thesis by (simp add: session_view_def)
next
  case (Some row)
  from view_of_row [OF assms this] show ?thesis
    by (auto simp: valid_session_def load_row_Ok_iff)
qed

lemma runtime_cursor_frame:
  "ps_acknowledged_cursor p' = ps_acknowledged_cursor p \<Longrightarrow>
   validate_persisted_runtime_cursor cid rv p' c = validate_persisted_runtime_cursor cid rv p c"
  "ps_acknowledged_cursor p' = ps_acknowledged_cursor p \<Longrightarrow>
   validate_persisted_promise p' b = validate_persisted_promise p b"
  by (simp_all add: validate_persisted_runtime_cursor_def validate_persisted_promise_def)

lemma runtime_cursor_Ok_iff [result_simps]:
  "validate_persisted_runtime_cursor cid rv p c = Ok u \<longleftrightarrow>
     validate_persisted_cursor cid rv [] c = Ok () \<and>
     (\<exists>t. ps_acknowledged_cursor p = Some t \<and> cur_batch_sequence c \<le> cur_batch_sequence t \<and>
        (cur_batch_sequence c = cur_batch_sequence t \<longrightarrow> c = t))"
  by (auto simp: validate_persisted_runtime_cursor_def bind_res_Ok_iff ok_or_Ok_iff persisted_cursor_Ok_iff not_less)

lemma promise_Ok_iff [result_simps]:
  "validate_persisted_promise p b = Ok u \<longleftrightarrow> validate_block_ref b = Ok () \<and>
     pred_option (\<lambda>head. br_number head < br_number b) (cursor_head (ps_acknowledged_cursor p))"
  by (cases "cursor_head (ps_acknowledged_cursor p)")
     (auto simp: validate_persisted_promise_def bind_res_Ok_iff not_le)

text \<open>Enqueuing an activation.\<close>

lemma session_activate:
  assumes old: "p = persisted_default \<or> (\<exists>rv act. valid_session env key rv act p)"
    and request: "wf_desired_state r" "key = (ads_session_id r, ads_chain_id r)"
    and cas: "ads_expected_revision r = committed_revision (ps_desired_state p)"
      "unat (ads_new_revision r) = Suc (unat (ads_expected_revision r))"
    and idle: "ps_pending_delivery p = None"
    and d: "admissible_delivery env r (ps_acknowledged_cursor p) d" "is_activation_delivery d (ads_new_revision r)"
  shows "valid_session env key (ads_new_revision r) (del_sequence d)
    (p\<lparr>ps_desired_state := Some r, ps_pending_delivery := Some d\<rparr>)"
proof -
  let ?p = "p\<lparr>ps_desired_state := Some r, ps_pending_delivery := Some d\<rparr>"
  have keeps: "keeps_promise r (ps_expected_reorg_tip p) d"
    using d(2) by (auto simp: keeps_promise_def pred_option_def)
  have older: "cur_query_revision c \<le> ads_new_revision r"
    if "cur_query_revision c \<le> ads_new_revision ds" "ps_desired_state p = Some ds" for c ds
    using cas that by (simp add: committed_revision_def u64_order)
  have acked: "pred_option (\<lambda>c. validate_persisted_cursor (ads_chain_id r) (ads_new_revision r)
        ''durable acknowledged cursor does not match its row'' c = Ok ()) (ps_acknowledged_cursor p)"
    and runtime: "pred_option (\<lambda>c. validate_persisted_runtime_cursor (ads_chain_id r) (ads_new_revision r) p c = Ok ())
        (ps_runtime_checkpoint_cursor p)"
    and promise: "pred_option (\<lambda>b. validate_persisted_promise p b = Ok ()) (ps_expected_reorg_tip p)"
    and ok: "p \<noteq> persisted_default \<Longrightarrow> session_ok p"
    using old request(2)
    by (auto simp: valid_session_def persisted_default_def session_ok_def valid_session_iff
        persisted_cursor_Ok_iff runtime_cursor_Ok_iff pred_option_def intro: older)
  have "ps_expected_reorg_tip p \<noteq> None \<Longrightarrow> p \<noteq> persisted_default" by (auto simp: persisted_default_def)
  with ok cas(2) have ok': "session_ok ?p" by (auto simp: session_ok_def pred_option_def)
  have act: "validate_persisted_activation (ads_new_revision r) (del_sequence d) r ?p = Ok ()"
    using d by (simp add: persisted_activation_Ok_iff admissible_delivery_def next_in_flight_def)
  show ?thesis
    using acked runtime promise keeps d(1) request act ok'
    by (simp add: valid_session_def valid_session_iff [of ?p r] persisted_pending_Ok_iff
        runtime_cursor_frame [of ?p p])
qed

text \<open>Putting a delivery in flight.\<close>

lemma session_offer:
  assumes old: "valid_session env key rv act p" and ds: "ps_desired_state p = Some ds"
    and idle: "ps_pending_delivery p = None"
    and d: "admissible_delivery env ds (ps_acknowledged_cursor p) d" "keeps_promise ds (ps_expected_reorg_tip p) d"
  shows "valid_session env key rv act (p\<lparr>ps_pending_delivery := Some d\<rparr>)"
proof -
  let ?p = "p\<lparr>ps_pending_delivery := Some d\<rparr>"
  note v = old [unfolded valid_session_def valid_session_iff [OF ds]]
  have "validate_persisted_activation rv act ds ?p = Ok ()"
    using v d(1) idle
    by (auto simp: persisted_activation_Ok_iff admissible_delivery_def next_in_flight_def Let_def split: if_splits)
  moreover have "session_ok ?p" using v by (simp add: session_ok_def)
  moreover have "validate_persisted_pending env (fst key) (snd key) rv ds ?p d = Ok ()"
    using persisted_pending_Ok_iff [of env ds ?p d] v d by auto
  ultimately show ?thesis
    using v ds by (simp add: valid_session_def valid_session_iff [of ?p ds] runtime_cursor_frame [of ?p p])
qed


text \<open>What an admitted delivery tells about the canonical head of its cursor.\<close>

lemma progress_declared:
  assumes "validate_delivery_progress acked ds d = Ok u" and "del_cursor d = Some c" and "del_payload d = Some pl"
  shows "declared_head acked c (is_exact_activation acked ds d) pl = Ok (cur_canonical_head c)"
    and "pl = PayloadReorg r \<Longrightarrow> validate_reorg_progress acked c r = Ok ()"
    and "(\<And>r. pl \<noteq> PayloadReorg r) \<Longrightarrow> acked = Some a \<Longrightarrow> \<not> canonical_head_regresses_or_changes a c \<and>
      (cur_next_block a \<le> cur_next_block c \<or> is_exact_activation acked ds d)"
proof -
  show "declared_head acked c (is_exact_activation acked ds d) pl = Ok (cur_canonical_head c)"
    using assms by (auto simp: validate_delivery_progress_def Let_def bind_res_Ok_iff if_Err_Ok_iff)
  show "pl = PayloadReorg r \<Longrightarrow> validate_reorg_progress acked c r = Ok ()"
    using assms by (auto simp: validate_delivery_progress_def Let_def bind_res_Ok_iff if_Err_Ok_iff)
  show "(\<And>r. pl \<noteq> PayloadReorg r) \<Longrightarrow> acked = Some a \<Longrightarrow> \<not> canonical_head_regresses_or_changes a c \<and>
      (cur_next_block a \<le> cur_next_block c \<or> is_exact_activation acked ds d)"
    using assms by (cases pl) (auto simp: validate_delivery_progress_def Let_def bind_res_Ok_iff if_Err_Ok_iff)
qed

lemma payload_head_wf:
  "validate_delivery_payload env ds d = Ok u \<Longrightarrow> del_cursor d = Some c \<Longrightarrow>
   pred_option (\<lambda>b. validate_block_ref b = Ok ()) (cur_canonical_head c)"
  by (cases "cur_canonical_head c")
     (auto simp: validate_delivery_payload_def cursor_head_def bind_res_Ok_iff)

lemma payload_reorg_wf:
  assumes "validate_delivery_payload env ds d = Ok u" and "del_payload d = Some (PayloadReorg r)"
  obtains ancestor old_tip new_tip where "ro_common_ancestor r = Some ancestor" "ro_old_tip r = Some old_tip"
    "ro_new_tip r = Some new_tip" "validate_block_ref new_tip = Ok ()" "validate_reorg_shape ancestor old_tip new_tip = Ok ()"
  using assms
  by (auto simp: validate_delivery_payload_def validate_control_payload_def bind_res_Ok_iff ok_or_Ok_iff
      if_Err_Ok_iff Let_def)

text \<open>An activation keeps an acknowledged head.\<close>

lemma activation_head:
  assumes "validate_delivery_progress acked ds d = Ok u" and "is_activation_delivery d rv"
    and "del_cursor d = Some c" and "cursor_head acked = Some h"
  shows "cur_canonical_head c = Some h"
proof -
  obtain b where "del_payload d = Some (PayloadBarrier b)" "bar_block b = None"
    using assms(2) by (auto simp: is_activation_delivery_def split: option.splits Payload.splits)
  with progress_declared(1) [OF assms(1,3)] assms(4) show ?thesis by (auto simp: declared_head_def)
qed

text \<open>A reorg control rewinds the head to the common ancestor, below the promised tip.\<close>

lemma reorg_head:
  assumes "validate_delivery_progress acked ds d = Ok u" and "del_payload d = Some (PayloadReorg r)"
    and "del_cursor d = Some c"
  obtains ancestor old_tip new_tip where "ro_common_ancestor r = Some ancestor" "ro_old_tip r = Some old_tip"
    "ro_new_tip r = Some new_tip" "cursor_head acked = Some old_tip" "br_number ancestor < br_number old_tip"
    "br_number ancestor < br_number new_tip" "cur_canonical_head c = Some ancestor"
    "unat (cur_next_block c) = Suc (unat (br_number ancestor))"
  using progress_declared(1) [OF assms(1,3,2)] progress_declared(2) [OF assms(1,3,2) refl]
  by (auto simp: declared_head_def validate_reorg_progress_def bind_res_Ok_iff ok_or_Ok_iff if_Err_Ok_iff
      not_le u64_simps)

text \<open>Acknowledging the delivery in flight.\<close>

lemma promise_after_ack:
  assumes "expected_reorg_tip_after_ack promise d = Ok (Some b)"
    and progress: "validate_delivery_progress acked ds d = Ok u" and payload: "validate_delivery_payload env ds d = Ok u"
    and keeps: "keeps_promise ds promise d" and c: "del_cursor d = Some c"
    and old: "pred_option (\<lambda>promised. validate_block_ref promised = Ok () \<and>
      (\<exists>head. cursor_head acked = Some head \<and> br_number head < br_number promised)) promise"
  shows "validate_block_ref b = Ok () \<and> (\<exists>head. cur_canonical_head c = Some head \<and> br_number head < br_number b)"
proof (cases "\<exists>r. del_payload d = Some (PayloadReorg r)")
  case True
  then obtain r where r: "del_payload d = Some (PayloadReorg r)" by blast
  with assms(1) have b: "ro_new_tip r = Some b"
    by (auto simp: expected_reorg_tip_after_ack_def bind_res_Ok_iff ok_or_Ok_iff split: if_splits)
  from payload_reorg_wf [OF payload r] reorg_head [OF progress r c] b show ?thesis by auto
next
  case False
  with assms(1) have b: "promise = Some b" "\<not> delivery_certifies_reorg_tip d b"
    by (auto simp: expected_reorg_tip_after_ack_def split: option.splits Payload.splits if_splits)
  with keeps have act: "is_activation_delivery d (ads_new_revision ds)" by (simp add: keeps_promise_def)
  from old b obtain h where "cursor_head acked = Some h" "br_number h < br_number b" "validate_block_ref b = Ok ()" by auto
  with activation_head [OF progress act c] show ?thesis by simp
qed

lemma session_ack:
  assumes old: "valid_session env key rv act p" and ds: "ps_desired_state p = Some ds"
    and d: "ps_pending_delivery p = Some d" and c: "del_cursor d = Some c"
    and promise: "expected_reorg_tip_after_ack (ps_expected_reorg_tip p) d = Ok promise'"
  shows "valid_session env key rv act
    (p\<lparr>ps_acknowledged_cursor := Some c,
       ps_runtime_checkpoint_cursor := (if del_checkpoint_neutral d then ps_runtime_checkpoint_cursor p else Some c),
       ps_pending_delivery := None, ps_expected_reorg_tip := promise'\<rparr>)" (is "valid_session env key rv act ?p")
proof -
  note v = old [unfolded valid_session_def valid_session_iff [OF ds]]
  have adm: "admissible_delivery env ds (ps_acknowledged_cursor p) d" "keeps_promise ds (ps_expected_reorg_tip p) d"
    using v d persisted_pending_Ok_iff [of env ds p d] by auto
  then have payload: "validate_delivery_payload env ds d = Ok ()"
    and progress: "validate_delivery_progress (ps_acknowledged_cursor p) ds d = Ok ()"
    and nx: "next_in_flight ds (ps_acknowledged_cursor p) d"
    by (simp_all add: admissible_delivery_def)
  have cur: "validate_persisted_cursor (snd key) rv w c = Ok ()" for w
    using payload_head_wf [OF payload c] nx c v
    by (auto simp: persisted_cursor_Ok_iff next_in_flight_def u64_order)
  have later: "acked_sequence (ps_acknowledged_cursor p) < unat (cur_batch_sequence c)"
    using nx c by (auto simp: next_in_flight_def)
  have runtime: "pred_option (\<lambda>x. validate_persisted_runtime_cursor (snd key) rv ?p x = Ok ()) (ps_runtime_checkpoint_cursor ?p)"
    using v cur later by (auto simp: runtime_cursor_Ok_iff pred_option_def u64_order)
  have tips: "pred_option (\<lambda>promised. validate_block_ref promised = Ok () \<and>
      (\<exists>head. cursor_head (ps_acknowledged_cursor p) = Some head \<and> br_number head < br_number promised))
      (ps_expected_reorg_tip p)"
    using v by (auto simp: session_ok_def promise_Ok_iff pred_option_def)
  have prom: "validate_block_ref b = Ok () \<and> (\<exists>head. cur_canonical_head c = Some head \<and> br_number head < br_number b)"
    if "promise' = Some b" for b
    using promise_after_ack [OF promise [unfolded that] progress payload adm(2) c tips] .
  have act: "validate_persisted_activation rv act ds ?p = Ok ()"
    using v d nx c
    by (auto simp: persisted_activation_Ok_iff next_in_flight_def Let_def split: if_splits)
  have "session_ok ?p" using v prom by (auto simp: session_ok_def pred_option_def cursor_head_def)
  with v cur runtime act prom ds show ?thesis
    by (auto simp: valid_session_def valid_session_iff [of ?p ds] promise_Ok_iff pred_option_def cursor_head_def)
qed


section \<open>Effects of the operations\<close>

lemma validate_delivery_size_mono:
  "validate_delivery_size env d m = Ok u \<Longrightarrow> m \<le> n \<Longrightarrow> validate_delivery_size env d n = Ok ()"
  by (auto simp: validate_delivery_size_def Let_def if_Err_Ok_iff)

text \<open>The row a view comes from, and what it decodes to.\<close>

lemma row_decodes:
  assumes "store_inv env store" and "select_row store key = Some row" and "p = session_view env store key"
  obtains ds where "ps_desired_state p = Some ds" "valid_session env key (row_revision row) (row_activation_sequence row) p"
    "ads_new_revision ds = row_revision row" "key = (ads_session_id ds, ads_chain_id ds)" "decode_row env row = Ok p"
    "0 \<le> sint (row_revision row)"
proof -
  note view = view_of_row [OF assms(1,2), folded assms(3)]
  then obtain ds where ds: "ps_desired_state p = Some ds" by (auto simp: session_ok_def)
  have dec: "decode_row env row = Ok p" "0 \<le> sint (row_revision row)"
    and valid: "valid_session env key (row_revision row) (row_activation_sequence row) p"
    using view by (simp_all add: load_row_Ok_iff valid_session_def)
  from valid have "ads_new_revision ds = row_revision row" "key = (ads_session_id ds, ads_chain_id ds)"
    by (cases key, auto simp: valid_session_def valid_session_iff [OF ds])
  with ds dec valid that show thesis by blast
qed

lemma activation_is_activation: "is_activation_delivery (activation_delivery r n c) (ads_new_revision r)"
  by (simp add: is_activation_delivery_def activation_delivery_def)

text \<open>A new activation is admissible once its validators pass.\<close>

lemma activation_admissible:
  assumes "next_sequence acked = Ok n" and "cur_chain_id c = ads_chain_id r"
    and "validate_delivery_size env (activation_delivery r n c) (min m MAX_MESSAGE_SIZE_BYTES) = Ok u"
    and "validate_delivery_payload env r (activation_delivery r n c) = Ok u"
    and "validate_delivery_progress acked r (activation_delivery r n c) = Ok u"
  shows "admissible_delivery env r acked (activation_delivery r n c)"
  using assms validate_delivery_size_mono [OF assms(3), of MAX_MESSAGE_SIZE_BYTES]
  by (simp add: admissible_delivery_def next_in_flight_def activation_delivery_def next_sequence_Ok_iff
      acked_sequence_def)

definition activates :: "StoreEnv \<Rightarrow> ApplyDesiredState \<Rightarrow> PersistedSession \<Rightarrow> Delivery \<Rightarrow> PersistedSession \<Rightarrow> bool" where
  "activates env r p d p' \<longleftrightarrow>
     ads_expected_revision r = committed_revision (ps_desired_state p) \<and>
     unat (ads_new_revision r) = Suc (unat (ads_expected_revision r)) \<and>
     ps_pending_delivery p = None \<and> is_activation_delivery d (ads_new_revision r) \<and>
     admissible_delivery env r (ps_acknowledged_cursor p) d \<and>
     p' = p\<lparr>ps_desired_state := Some r, ps_pending_delivery := Some d\<rparr>"

lemma enqueue_effect:
  assumes laws: "codec_laws env" and inv: "store_inv env store"
    and key: "key = (ads_session_id r, ads_chain_id r)" and p: "p = session_view env store key"
    and wf: "wf_desired_state r" "i64_try_from_u64 (ads_new_revision r) = Some rv"
    and cas: "ads_expected_revision r = committed_revision (ps_desired_state p)"
      "unat (ads_new_revision r) = Suc (unat (ads_expected_revision r))"
    and idle: "\<not> is_some_and (\<lambda>row. row_pending_delivery row \<noteq> None) (select_row store key)"
    and prepared: "pred_option (\<lambda>c. cur_chain_id c = ads_chain_id r) prepared"
    and run: "enqueue_activation env fails store r prepared mx (select_row store key) rv = Ok ((a, changed), store')"
  shows "\<exists>d row. changed \<and> dsa_activation_sequence a = del_sequence d \<and> del_checkpoint_neutral d \<and>
    activates env r p d (p\<lparr>ps_desired_state := Some r, ps_pending_delivery := Some d\<rparr>) \<and>
    load_row env key row = Ok (p\<lparr>ps_desired_state := Some r, ps_pending_delivery := Some d\<rparr>) \<and>
    session_ok (p\<lparr>ps_desired_state := Some r, ps_pending_delivery := Some d\<rparr>) \<and>
    store' = write_row store key row"
proof -
  let ?row = "case select_row store key of None \<Rightarrow> empty_row | Some row \<Rightarrow> row"
  have rv: "rv = ads_new_revision r" "0 \<le> sint rv" using wf(2) by (auto simp: i64_try_from_u64_Some_iff)
  have row: "decode_row env ?row = Ok p" "row_pending_delivery ?row = None" "ps_pending_delivery p = None"
  proof -
    show dec: "decode_row env ?row = Ok p"
    proof (cases "select_row store key")
      case None
      then show ?thesis
        by (simp add: decode_row_Ok_iff empty_row_def p session_view_def persisted_default_def)
    next
      case (Some row)
      from row_decodes [OF inv Some p] have "decode_row env row = Ok p" by blast
      with Some show ?thesis by simp
    qed
    show "row_pending_delivery ?row = None"
      using idle by (cases "select_row store key") (auto simp: empty_row_def)
    with dec show "ps_pending_delivery p = None" by (simp add: decode_row_Ok_iff)
  qed
  have acked: "decode_optional (st_dec_cursor env) (Option.bind (select_row store key) row_acknowledged_cursor) =
      Ok (ps_acknowledged_cursor p)"
    using row(1) by (cases "select_row store key") (simp_all add: decode_row_Ok_iff empty_row_def)
  from run [unfolded enqueue_activation_def acked] obtain n where n: "next_sequence (ps_acknowledged_cursor p) = Ok n"
    by (auto simp: bind_res_Ok_iff)
  define c where "c = (case prepared of Some c \<Rightarrow> c | None \<Rightarrow>
      (case ps_acknowledged_cursor p of Some c \<Rightarrow> c | None \<Rightarrow> initial_cursor r))"
  let ?d = "activation_delivery r n c"
  have checks: "validate_delivery_size env ?d (min mx MAX_MESSAGE_SIZE_BYTES) = Ok ()"
      "validate_delivery_payload env r ?d = Ok ()"
      "validate_delivery_progress (ps_acknowledged_cursor p) r ?d = Ok ()"
    and result: "a = \<lparr>dsa_session_id = ads_session_id r, dsa_revision = ads_new_revision r, dsa_activation_sequence = n\<rparr>"
      "changed" "store' = write_row store key (?row\<lparr>row_revision := rv, row_desired_state := Some (st_enc_desired env r),
         row_pending_delivery := Some (st_enc_delivery env ?d), row_activation_sequence := n\<rparr>)"
    using run unfolding enqueue_activation_def acked
    by (auto simp: bind_res_Ok_iff n Let_def c_def sessions_key_def sql_integers key)
  have valid: "p = persisted_default \<or> (\<exists>rv act. valid_session env key rv act p)"
    using valid_session_default_or [OF inv] p by simp
  have chain: "cur_chain_id c = ads_chain_id r"
    using prepared valid key
    by (auto simp: c_def initial_cursor_def valid_session_def session_ok_def valid_session_iff
        persisted_default_def persisted_cursor_Ok_iff split: option.splits)
  have adm: "admissible_delivery env r (ps_acknowledged_cursor p) ?d"
    using activation_admissible [OF n chain checks] .
  have valid': "valid_session env key rv n (p\<lparr>ps_desired_state := Some r, ps_pending_delivery := Some ?d\<rparr>)"
    using session_activate [OF valid wf(1) key cas row(3) adm activation_is_activation] rv(1)
    by (simp add: activation_delivery_def)
  have "load_row env key (?row\<lparr>row_revision := rv, row_desired_state := Some (st_enc_desired env r),
      row_pending_delivery := Some (st_enc_delivery env ?d), row_activation_sequence := n\<rparr>) =
      Ok (p\<lparr>ps_desired_state := Some r, ps_pending_delivery := Some ?d\<rparr>)"
    using valid' row(1) rv(2) laws by (simp add: load_row_Ok_iff valid_session_def decode_row_Ok_iff codec_laws_def)
  moreover have "activates env r p ?d (p\<lparr>ps_desired_state := Some r, ps_pending_delivery := Some ?d\<rparr>)"
    using cas row(3) adm activation_is_activation by (simp add: activates_def)
  moreover have "session_ok (p\<lparr>ps_desired_state := Some r, ps_pending_delivery := Some ?d\<rparr>)"
    using valid' by (simp add: valid_session_def)
  moreover have "dsa_activation_sequence a = del_sequence ?d" "del_checkpoint_neutral ?d"
    by (simp_all add: result(1) activation_delivery_def)
  ultimately show ?thesis using result(2,3) by blast
qed


lemma apply_effect:
  assumes laws: "codec_laws env" and inv: "store_inv env store"
    and key: "key = (ads_session_id r, ads_chain_id r)" and p: "p = session_view env store key"
    and run: "apply_desired_state_with_cursor_and_limit env fails store r prepared mx ms = Ok ((a, changed), store')"
  shows "wf_desired_state r \<and>
    (\<not> changed \<and> store' = store \<and> ps_desired_state p = Some r \<or>
     (\<exists>d row. changed \<and> dsa_activation_sequence a = del_sequence d \<and> del_checkpoint_neutral d \<and>
        activates env r p d (p\<lparr>ps_desired_state := Some r, ps_pending_delivery := Some d\<rparr>) \<and>
        load_row env key row = Ok (p\<lparr>ps_desired_state := Some r, ps_pending_delivery := Some d\<rparr>) \<and>
        session_ok (p\<lparr>ps_desired_state := Some r, ps_pending_delivery := Some d\<rparr>) \<and>
        store' = write_row store key row))"
proof -
  let ?row = "select_row store key"
  let ?committed = "case ?row of None \<Rightarrow> 0 | Some row \<Rightarrow> row_revision row"
  have skey: "sessions_key (ads_session_id r) (ads_chain_id r) = key"
    by (simp add: sessions_key_def key sql_integers)
  note run' = run [unfolded apply_desired_state_with_cursor_and_limit_def skey Let_def]
  from run' have wf: "wf_desired_state r" by (auto simp: bind_res_Ok_iff map_err_Ok_iff validate_desired_state_Ok_iff)
  have committed: "committed_revision (ps_desired_state p) = ?committed"
  proof (cases ?row)
    case None
    then show ?thesis by (simp add: p session_view_def persisted_default_def committed_revision_def)
  next
    case (Some row)
    from row_decodes [OF inv Some p] obtain ds where "ps_desired_state p = Some ds" "ads_new_revision ds = row_revision row"
      by blast
    with Some show ?thesis by (simp add: committed_revision_def)
  qed
  show ?thesis
  proof (cases "?committed = ads_expected_revision r")
    case False
    with run' have "replay_desired_state env r ?row ?committed (ads_new_revision r) = Ok a" "\<not> changed" "store' = store"
      by (auto simp: bind_res_Ok_iff if_Err_Ok_iff to_sql_integer_def ok_or_Ok_iff i64_try_from_u64_Some_iff)
    moreover from this(1) obtain row encoded where row: "?row = Some row" "row_desired_state row = Some encoded"
        "st_dec_desired env encoded = Some r"
      by (auto simp: replay_desired_state_def Let_def bind_res_Ok_iff decode_blob_Ok_iff bind_eq_Some_conv
          split: option.splits if_splits)
    moreover from row_decodes [OF inv row(1) p] have "decode_row env row = Ok p" by blast
    ultimately show ?thesis using wf by (simp add: decode_row_Ok_iff decode_optional_Ok_iff)
  next
    case True
    with run' have succ: "unat (ads_new_revision r) = Suc (unat (ads_expected_revision r))"
      and idle: "\<not> is_some_and (\<lambda>row. row_pending_delivery row \<noteq> None) ?row"
      and sqli: "i64_try_from_u64 (ads_new_revision r) = Some (ads_new_revision r)"
      and prepared: "pred_option (\<lambda>c. cur_chain_id c = ads_chain_id r) prepared"
      and go: "enqueue_activation env fails store r prepared mx ?row (ads_new_revision r) = Ok ((a, changed), store')"
      by (cases prepared; auto simp: bind_res_Ok_iff if_Err_Ok_iff to_sql_integer_def ok_or_Ok_iff i64_try_from_u64_Some_iff u64_simps)+
    have cas: "ads_expected_revision r = committed_revision (ps_desired_state p)" using committed True by simp
    from enqueue_effect [OF laws inv key p wf sqli cas succ idle prepared go] wf show ?thesis by blast
  qed
qed

text \<open>A delivery enters the outbox.\<close>

definition offers :: "StoreEnv \<Rightarrow> PersistedSession \<Rightarrow> Delivery \<Rightarrow> PersistedSession \<Rightarrow> bool" where
  "offers env p d p' \<longleftrightarrow>
     ps_pending_delivery p = None \<and>
     (\<exists>ds. ps_desired_state p = Some ds \<and> admissible_delivery env ds (ps_acknowledged_cursor p) d) \<and>
     pred_option (delivery_certifies_reorg_tip d) (ps_expected_reorg_tip p) \<and>
     p' = p\<lparr>ps_pending_delivery := Some d\<rparr>"

lemma save_effect:
  assumes laws: "codec_laws env" and inv: "store_inv env store"
    and key: "key = (ads_session_id ds, ads_chain_id ds)" and p: "p = session_view env store key"
    and run: "save_pending_with_status env fails store ds d = Ok (changed, store')"
  shows "ps_desired_state p = Some ds \<and>
    (\<not> changed \<and> store' = store \<and> ps_pending_delivery p = Some d \<or>
     changed \<and> offers env p d (p\<lparr>ps_pending_delivery := Some d\<rparr>) \<and>
     (\<exists>row. load_row env key row = Ok (p\<lparr>ps_pending_delivery := Some d\<rparr>) \<and>
        session_ok (p\<lparr>ps_pending_delivery := Some d\<rparr>) \<and> store' = write_row store key row))"
proof -
  have skey: "sessions_key (ads_session_id ds) (ads_chain_id ds) = key"
    by (simp add: sessions_key_def key sql_integers)
  have loads: "load env fails store (ads_session_id ds) (ads_chain_id ds) = Ok q \<longleftrightarrow> \<not> fails LoadRow \<and> q = p" for q
    using load_view [OF inv] by (simp add: skey p)
  note run' = run [unfolded save_pending_with_status_def skey Let_def]
  from run' have des: "ps_desired_state p = Some ds" and adm: "admissible_delivery env ds (ps_acknowledged_cursor p) d"
    and certifies: "pred_option (delivery_certifies_reorg_tip d) (ps_expected_reorg_tip p)"
    by (cases "ps_expected_reorg_tip p"; auto simp: bind_res_Ok_iff if_Err_Ok_iff ok_or_Ok_iff loads
      next_sequence_Ok_iff admissible_delivery_def next_in_flight_def acked_sequence_def split: if_splits)+
  obtain row where row: "select_row store key = Some row" using row_of_view [OF inv] des p by metis
  from row_decodes [OF inv row p] des have valid: "valid_session env key (row_revision row) (row_activation_sequence row) p"
    and dec: "decode_row env row = Ok p" "0 \<le> sint (row_revision row)" by blast+
  show ?thesis
  proof (cases "ps_pending_delivery p")
    case (Some e)
    with run' des show ?thesis
      by (auto simp: bind_res_Ok_iff if_Err_Ok_iff ok_or_Ok_iff loads split: if_splits)
  next
    case None
    let ?row = "row\<lparr>row_pending_delivery := Some (st_enc_delivery env d)\<rparr>"
    have store': "changed" "store' = write_row store key ?row"
      using run' None row by (auto simp: bind_res_Ok_iff if_Err_Ok_iff ok_or_Ok_iff loads split: if_splits)
    have "keeps_promise ds (ps_expected_reorg_tip p) d"
      using certifies by (auto simp: keeps_promise_def pred_option_def)
    from session_offer [OF valid des None adm this]
    have "valid_session env key (row_revision row) (row_activation_sequence row) (p\<lparr>ps_pending_delivery := Some d\<rparr>)" .
    then have "load_row env key ?row = Ok (p\<lparr>ps_pending_delivery := Some d\<rparr>)" "session_ok (p\<lparr>ps_pending_delivery := Some d\<rparr>)"
      using dec laws by (simp_all add: load_row_Ok_iff valid_session_def decode_row_Ok_iff codec_laws_def)
    with store' None des adm certifies show ?thesis by (auto simp: offers_def)
  qed
qed


text \<open>A delivery leaves the outbox.\<close>

definition acks :: "PersistedSession \<Rightarrow> Delivery \<Rightarrow> Cursor \<Rightarrow> PersistedSession \<Rightarrow> bool" where
  "acks p d c p' \<longleftrightarrow>
     ps_pending_delivery p = Some d \<and> del_cursor d = Some c \<and>
     (\<exists>promise. expected_reorg_tip_after_ack (ps_expected_reorg_tip p) d = Ok promise \<and>
        p' = p\<lparr>ps_acknowledged_cursor := Some c,
          ps_runtime_checkpoint_cursor :=
            (if del_checkpoint_neutral d then ps_runtime_checkpoint_cursor p else Some c),
          ps_pending_delivery := None, ps_expected_reorg_tip := promise\<rparr>)"

lemma acknowledge_replay_Ok_iff:
  "acknowledge_replay acked a = Ok c \<longleftrightarrow>
     acked = Some c \<and> cur_batch_sequence c = ack_sequence a \<and> ack_delivery_token a = u64_to_be_bytes (ack_sequence a)"
  by (auto simp: acknowledge_replay_def Let_def split: option.splits)

text \<open>
  Acknowledging is determined by the view: what is in flight, or what was acknowledged last.
\<close>

lemma acknowledge_with_status_conv:
  assumes inv: "store_inv env store" and key: "key = (ack_session_id a, cid)" and p: "p = session_view env store key"
    and row: "select_row store key = Some row"
  shows "acknowledge_with_status env fails store cid a = Ok ((c, changed), store') \<longleftrightarrow>
    \<not> fails LoadRow \<and> \<not> fails BeginTransaction \<and> \<not> fails SelectRow \<and>
    (case ps_pending_delivery p of
       None \<Rightarrow> acknowledge_replay (ps_acknowledged_cursor p) a = Ok c \<and> \<not> changed \<and> store' = store
     | Some d \<Rightarrow> del_sequence d = ack_sequence a \<and> del_delivery_token d = ack_delivery_token a \<and> changed \<and>
         del_cursor d = Some c \<and> \<not> fails WriteRow \<and> \<not> fails CommitTransaction \<and>
         (\<exists>promise. expected_reorg_tip_after_ack (ps_expected_reorg_tip p) d = Ok promise \<and>
            store' = write_row store key
              (row\<lparr>row_acknowledged_cursor := Some (st_enc_cursor env c),
                 row_runtime_checkpoint_cursor :=
                   (if del_checkpoint_neutral d then map_option (st_enc_cursor env) (ps_runtime_checkpoint_cursor p)
                    else Some (st_enc_cursor env c)),
                 row_pending_delivery := None,
                 row_expected_reorg_tip := map_option (st_enc_block env) promise\<rparr>)))"
proof -
  have skey: "sessions_key (ack_session_id a) cid = key" by (simp add: sessions_key_def key sql_integers)
  have loads: "load env fails store (ack_session_id a) cid = Ok q \<longleftrightarrow> \<not> fails LoadRow \<and> q = p" for q
    using load_view [OF inv] by (simp add: skey p)
  from row_decodes [OF inv row p] have "decode_row env row = Ok p" by blast
  then have dec: "decode_optional (st_dec_cursor env) (row_acknowledged_cursor row) = Ok (ps_acknowledged_cursor p)"
      "decode_optional (st_dec_cursor env) (row_runtime_checkpoint_cursor row) = Ok (ps_runtime_checkpoint_cursor p)"
      "decode_optional (st_dec_block env) (row_expected_reorg_tip row) = Ok (ps_expected_reorg_tip p)"
    and pending: "decode_optional (st_dec_delivery env) (row_pending_delivery row) = Ok (ps_pending_delivery p)"
    by (simp_all add: decode_row_Ok_iff)
  show ?thesis
  proof (cases "row_pending_delivery row")
    case None
    with pending have "ps_pending_delivery p = None" by simp
    with None show ?thesis
      unfolding acknowledge_with_status_def skey Let_def
      by (auto simp: bind_res_Ok_iff loads sql_Ok_iff row dec)
  next
    case (Some encoded)
    with pending obtain d where d: "st_dec_delivery env encoded = Some d" "ps_pending_delivery p = Some d"
      by (auto simp: decode_optional_Ok_iff)
    with Some show ?thesis
      unfolding acknowledge_with_status_def skey Let_def
      by (auto simp: bind_res_Ok_iff loads sql_Ok_iff row dec decode_blob_Ok_iff if_Err_Ok_iff ok_or_Ok_iff)
  qed
qed

lemma ack_effect:
  assumes laws: "codec_laws env" and inv: "store_inv env store"
    and key: "key = (ack_session_id a, cid)" and p: "p = session_view env store key"
    and run: "acknowledge_with_status env fails store cid a = Ok ((c, changed), store')"
  shows "\<not> changed \<and> store' = store \<and> ps_pending_delivery p = None \<and> ps_acknowledged_cursor p = Some c \<and>
      cur_batch_sequence c = ack_sequence a \<and> ack_delivery_token a = u64_to_be_bytes (ack_sequence a) \<or>
    changed \<and> (\<exists>d p' row. acks p d c p' \<and> del_sequence d = ack_sequence a \<and> del_delivery_token d = ack_delivery_token a \<and>
      load_row env key row = Ok p' \<and> session_ok p' \<and> store' = write_row store key row)"
proof -
  have skey: "sessions_key (ack_session_id a) cid = key" by (simp add: sessions_key_def key sql_integers)
  from run obtain row where row: "select_row store key = Some row"
    unfolding acknowledge_with_status_def skey by (auto simp: bind_res_Ok_iff ok_or_Ok_iff Let_def)
  note eff = run [unfolded acknowledge_with_status_conv [OF inv key p row]]
  from row_decodes [OF inv row p] obtain ds where ds: "ps_desired_state p = Some ds"
    and valid: "valid_session env key (row_revision row) (row_activation_sequence row) p"
    and dec: "decode_row env row = Ok p" "0 \<le> sint (row_revision row)" by blast
  show ?thesis
  proof (cases "ps_pending_delivery p")
    case None
    with eff show ?thesis by (simp add: acknowledge_replay_Ok_iff)
  next
    case (Some d)
    with eff obtain promise where
      facts: "del_sequence d = ack_sequence a" "del_delivery_token d = ack_delivery_token a" "changed" "del_cursor d = Some c"
      and promise: "expected_reorg_tip_after_ack (ps_expected_reorg_tip p) d = Ok promise"
      and store': "store' = write_row store key
        (row\<lparr>row_acknowledged_cursor := Some (st_enc_cursor env c),
           row_runtime_checkpoint_cursor :=
             (if del_checkpoint_neutral d then map_option (st_enc_cursor env) (ps_runtime_checkpoint_cursor p)
              else Some (st_enc_cursor env c)),
           row_pending_delivery := None,
           row_expected_reorg_tip := map_option (st_enc_block env) promise\<rparr>)" (is "_ = write_row store key ?row")
      by auto
    define p' where "p' = p\<lparr>ps_acknowledged_cursor := Some c,
       ps_runtime_checkpoint_cursor := (if del_checkpoint_neutral d then ps_runtime_checkpoint_cursor p else Some c),
       ps_pending_delivery := None, ps_expected_reorg_tip := promise\<rparr>"
    have valid': "valid_session env key (row_revision row) (row_activation_sequence row) p'"
      unfolding p'_def by (rule session_ack [OF valid ds Some facts(4) promise])
    have laws': "\<And>x. st_dec_cursor env (st_enc_cursor env x) = Some x" "\<And>x. st_dec_block env (st_enc_block env x) = Some x"
      using laws by (simp_all add: codec_laws_def)
    have "decode_row env ?row = Ok p'"
      using dec(1) by (auto simp: decode_row_Ok_iff p'_def decode_optional_Ok_iff laws' split: option.splits)
    then have "load_row env key ?row = Ok p'" "session_ok p'"
      using valid' dec(2) by (simp_all add: load_row_Ok_iff valid_session_def)
    moreover have "acks p d c p'" using Some facts(4) promise by (auto simp: acks_def p'_def)
    ultimately show ?thesis using facts store' by blast
  qed
qed

section \<open>The store as a state machine\<close>

text \<open>
  One successful call; a refused one leaves the store as it was. The failures of SQLite are
  arbitrary.
\<close>

inductive store_step :: "StoreEnv \<Rightarrow> SessionStore \<Rightarrow> SessionStore \<Rightarrow> bool" for env where
  step_apply: "apply_desired_state_with_cursor_and_limit env fails store r prepared mx ms = Ok (out, store') \<Longrightarrow>
    store_step env store store'"
| step_save: "save_pending_with_status env fails store ds d = Ok (changed, store') \<Longrightarrow> store_step env store store'"
| step_ack: "acknowledge_with_status env fails store cid a = Ok (out, store') \<Longrightarrow> store_step env store store'"

inductive store_reachable :: "StoreEnv \<Rightarrow> SessionStore \<Rightarrow> bool" for env where
  reach_open: "store_reachable env \<lparr>ss_rows = []\<rparr>"
| reach_step: "store_reachable env store \<Longrightarrow> store_step env store store' \<Longrightarrow> store_reachable env store'"

definition session_moves :: "StoreEnv \<Rightarrow> PersistedSession \<Rightarrow> PersistedSession \<Rightarrow> bool" where
  "session_moves env p p' \<longleftrightarrow>
     (\<exists>r d. wf_desired_state r \<and> activates env r p d p') \<or> (\<exists>d. offers env p d p') \<or> (\<exists>d c. acks p d c p')"

text \<open>A call changes at most the one session it names, by one of the three transitions.\<close>

lemma store_step_view:
  assumes laws: "codec_laws env" and inv: "store_inv env store" and step: "store_step env store store'"
  shows "store_inv env store' \<and>
    (store' = store \<or>
     (\<exists>key. session_moves env (session_view env store key) (session_view env store' key) \<and>
        (\<forall>key'. key' \<noteq> key \<longrightarrow> session_view env store' key' = session_view env store key')))"
proof -
  have written: ?thesis if "load_row env key row = Ok p'" "session_ok p'" "store' = write_row store key row"
      "session_moves env (session_view env store key) p'" for key row p'
    using store_inv_write [OF inv that(1,2)] that(3,4) by metis
  from step show ?thesis
  proof cases
    case (step_apply fails r prepared mx ms out)
    obtain a changed where out: "out = (a, changed)" by (cases out)
    from apply_effect [OF laws inv refl refl step_apply [unfolded out]]
    show ?thesis using inv written unfolding session_moves_def by blast
  next
    case (step_save fails ds d changed)
    from save_effect [OF laws inv refl refl step_save]
    show ?thesis using inv written unfolding session_moves_def by blast
  next
    case (step_ack fails cid a out)
    obtain c changed where out: "out = (c, changed)" by (cases out)
    from ack_effect [OF laws inv refl refl step_ack [unfolded out]]
    show ?thesis using inv written unfolding session_moves_def by blast
  qed
qed

lemma reachable_store_inv:
  assumes "codec_laws env" and "store_reachable env store"
  shows "store_inv env store"
  using assms(2) by induction (auto simp: store_inv_empty dest: store_step_view [OF assms(1)])

end
