(* ===== verification/Self_Delimiting.thy ===== *)
theory Self_Delimiting
  imports Wire
begin

text \<open>
  A self-delimiting byte encoding of the wire messages, built from combinators. The components
  only assume that decoding inverts encoding; this encoding shows that the assumption can be met
  for every message, and instantiates it in the examples.
\<close>

section \<open>Combinators\<close>

text \<open>A parser reads a value off the front of a byte string and returns what is left.\<close>

type_synonym 'a parser = "bytes \<Rightarrow> ('a \<times> bytes) option"

definition delimits :: "('a \<Rightarrow> bytes) \<Rightarrow> 'a parser \<Rightarrow> bool" where
  "delimits enc dec \<longleftrightarrow> (\<forall>x rest. dec (enc x @ rest) = Some (x, rest))"

definition whole :: "'a parser \<Rightarrow> bytes \<Rightarrow> 'a option" where
  "whole dec bs = Option.bind (dec bs) (\<lambda>(x, rest). if rest = [] then Some x else None)"

lemma delimitsD: "delimits enc dec \<Longrightarrow> dec (enc x @ rest) = Some (x, rest)"
  by (simp add: delimits_def)

lemma whole_enc: "delimits enc dec \<Longrightarrow> whole dec (enc x) = Some x"
  using delimitsD [of enc dec x "[]"] by (simp add: whole_def)

definition enc_iso :: "('b \<Rightarrow> 'a) \<Rightarrow> ('a \<Rightarrow> bytes) \<Rightarrow> 'b \<Rightarrow> bytes" where
  "enc_iso f enc x = enc (f x)"

definition dec_iso :: "('a \<Rightarrow> 'b) \<Rightarrow> 'a parser \<Rightarrow> 'b parser" where
  "dec_iso g dec bs = map_option (\<lambda>(x, rest). (g x, rest)) (dec bs)"

definition enc_pair :: "('a \<Rightarrow> bytes) \<Rightarrow> ('b \<Rightarrow> bytes) \<Rightarrow> 'a \<times> 'b \<Rightarrow> bytes" where
  "enc_pair e f p = e (fst p) @ f (snd p)"

definition dec_pair :: "'a parser \<Rightarrow> 'b parser \<Rightarrow> ('a \<times> 'b) parser" where
  "dec_pair d e bs = Option.bind (d bs) (\<lambda>(x, bs). Option.bind (e bs) (\<lambda>(y, bs). Some ((x, y), bs)))"

definition enc_word :: "u64 \<Rightarrow> bytes" where
  "enc_word x = u64_to_be_bytes x"

definition dec_word :: "u64 parser" where
  "dec_word bs = Some (u64_from_be_bytes (take 8 bs), drop 8 bs)"

definition enc_opt :: "('a \<Rightarrow> bytes) \<Rightarrow> 'a option \<Rightarrow> bytes" where
  "enc_opt e m = (case m of None \<Rightarrow> [0] | Some x \<Rightarrow> 1 # e x)"

definition dec_opt :: "'a parser \<Rightarrow> 'a option parser" where
  "dec_opt d bs =
     (case bs of
        [] \<Rightarrow> None
      | b # bs \<Rightarrow> (if b = 0 then Some (None, bs) else map_option (\<lambda>(x, rest). (Some x, rest)) (d bs)))"

fun enc_list :: "('a \<Rightarrow> bytes) \<Rightarrow> 'a list \<Rightarrow> bytes" where
  "enc_list e [] = [0]"
| "enc_list e (x # xs) = 1 # e x @ enc_list e xs"

partial_function (option) dec_list :: "'a parser \<Rightarrow> bytes \<Rightarrow> ('a list \<times> bytes) option" where
  "dec_list d bs =
     (case bs of
        [] \<Rightarrow> None
      | b # bs \<Rightarrow>
          (if b = 0 then Some ([], bs)
           else Option.bind (d bs) (\<lambda>(x, bs). Option.bind (dec_list d bs) (\<lambda>(xs, bs). Some (x # xs, bs)))))"

definition enc_sum :: "('a \<Rightarrow> bytes) \<Rightarrow> ('b \<Rightarrow> bytes) \<Rightarrow> 'a + 'b \<Rightarrow> bytes" where
  "enc_sum e f s = (case s of Inl x \<Rightarrow> 0 # e x | Inr y \<Rightarrow> 1 # f y)"

definition dec_sum :: "'a parser \<Rightarrow> 'b parser \<Rightarrow> ('a + 'b) parser" where
  "dec_sum d e bs =
     (case bs of
        [] \<Rightarrow> None
      | b # bs \<Rightarrow>
          (if b = 0 then map_option (\<lambda>(x, rest). (Inl x, rest)) (d bs)
           else map_option (\<lambda>(y, rest). (Inr y, rest)) (e bs)))"

named_theorems delimits_intros \<open>introduction rules for self-delimiting encodings\<close>

lemma delimits_iso: "delimits e d \<Longrightarrow> (\<And>x. g (f x) = x) \<Longrightarrow> delimits (enc_iso f e) (dec_iso g d)"
  by (simp add: delimits_def enc_iso_def dec_iso_def)

lemma delimits_pair [delimits_intros]:
  "delimits e d \<Longrightarrow> delimits e' d' \<Longrightarrow> delimits (enc_pair e e') (dec_pair d d')"
  by (simp add: delimits_def enc_pair_def dec_pair_def)

lemma delimits_word [delimits_intros]: "delimits enc_word dec_word"
  by (simp add: delimits_def enc_word_def dec_word_def)

lemma delimits_opt [delimits_intros]: "delimits e d \<Longrightarrow> delimits (enc_opt e) (dec_opt d)"
  by (simp add: delimits_def enc_opt_def dec_opt_def split: option.splits)

lemma delimits_list [delimits_intros]:
  assumes "delimits e d"
  shows "delimits (enc_list e) (dec_list d)"
  unfolding delimits_def
proof (intro allI)
  fix xs rest
  show "dec_list d (enc_list e xs @ rest) = Some (xs, rest)"
    by (induction xs) (simp_all add: dec_list.simps delimitsD [OF assms])
qed

lemma delimits_sum [delimits_intros]:
  "delimits e d \<Longrightarrow> delimits e' d' \<Longrightarrow> delimits (enc_sum e e') (dec_sum d d')"
  by (simp add: delimits_def enc_sum_def dec_sum_def split: sum.splits)

section \<open>Scalars\<close>

definition enc_byte :: "u8 \<Rightarrow> bytes" where
  "enc_byte b = [b]"

definition dec_byte :: "u8 parser" where
  "dec_byte bs = (case bs of [] \<Rightarrow> None | b # bs \<Rightarrow> Some (b, bs))"

lemma delimits_byte [delimits_intros]: "delimits enc_byte dec_byte"
  by (simp add: delimits_def enc_byte_def dec_byte_def)

abbreviation enc_bytes :: "bytes \<Rightarrow> bytes" where "enc_bytes \<equiv> enc_list enc_byte"
abbreviation dec_bytes :: "bytes parser" where "dec_bytes \<equiv> dec_list dec_byte"

definition enc_bool :: "bool \<Rightarrow> bytes" where
  "enc_bool = enc_iso (\<lambda>b. if b then 1 else 0) enc_byte"

definition dec_bool :: "bool parser" where
  "dec_bool = dec_iso (\<lambda>b. b = 1) dec_byte"

lemma delimits_bool [delimits_intros]: "delimits enc_bool dec_bool"
  unfolding enc_bool_def dec_bool_def by (rule delimits_iso [OF delimits_byte]) simp

definition enc_i32 :: "i32 \<Rightarrow> bytes" where
  "enc_i32 = enc_iso (\<lambda>x. of_nat (unat x)) enc_word"

definition dec_i32 :: "i32 parser" where
  "dec_i32 = dec_iso (\<lambda>x. of_nat (unat x)) dec_word"

lemma delimits_i32 [delimits_intros]: "delimits enc_i32 dec_i32"
  unfolding enc_i32_def dec_i32_def
proof (rule delimits_iso [OF delimits_word])
  fix x :: i32
  have "unat x < 2 ^ LENGTH(64)" using unsigned_less [of x, where ?'a = nat] by simp
  then have eq: "unat (of_nat (unat x) :: u64) = unat x" by (simp add: unat_of_nat take_bit_eq_mod del: of_nat_unat)
  show "of_nat (unat (of_nat (unat x) :: u64)) = x" unfolding eq by simp
qed

definition enc_string :: "string \<Rightarrow> bytes" where
  "enc_string = enc_list (enc_iso (\<lambda>c. of_nat (of_char c)) enc_byte)"

definition dec_string :: "string parser" where
  "dec_string = dec_list (dec_iso (\<lambda>b. char_of (unat b)) dec_byte)"

lemma delimits_string [delimits_intros]: "delimits enc_string dec_string"
  unfolding enc_string_def dec_string_def
proof (rule delimits_list [OF delimits_iso [OF delimits_byte]])
  fix c :: char
  show "char_of (unat (of_nat (of_char c) :: u8)) = c" by (simp add: unat_of_nat take_bit_eq_mod)
qed

section \<open>Messages\<close>

definition enc_block :: "BlockRef \<Rightarrow> bytes" where
  "enc_block = enc_iso (\<lambda>b. (br_number b, br_hash b, br_parent_hash b, br_timestamp b))
     (enc_pair enc_word (enc_pair enc_bytes (enc_pair enc_bytes enc_word)))"

definition dec_block :: "BlockRef parser" where
  "dec_block = dec_iso (\<lambda>(n, h, p, t). \<lparr>br_number = n, br_hash = h, br_parent_hash = p, br_timestamp = t\<rparr>)
     (dec_pair dec_word (dec_pair dec_bytes (dec_pair dec_bytes dec_word)))"

lemma delimits_block [delimits_intros]: "delimits enc_block dec_block"
  unfolding enc_block_def dec_block_def by (rule delimits_iso) (auto intro!: delimits_intros)

definition enc_cursor :: "Cursor \<Rightarrow> bytes" where
  "enc_cursor = enc_iso (\<lambda>c. (cur_chain_id c, cur_query_revision c, cur_next_block c, cur_canonical_head c,
       cur_batch_sequence c, cur_provider_checkpoint c, cur_owner_backfill_activation_block c))
     (enc_pair enc_word (enc_pair enc_word (enc_pair enc_word (enc_pair (enc_opt enc_block)
       (enc_pair enc_word (enc_pair enc_bytes (enc_opt enc_word)))))))"

definition dec_cursor :: "Cursor parser" where
  "dec_cursor = dec_iso (\<lambda>(i, r, n, h, s, p, a). \<lparr>cur_chain_id = i, cur_query_revision = r, cur_next_block = n,
       cur_canonical_head = h, cur_batch_sequence = s, cur_provider_checkpoint = p,
       cur_owner_backfill_activation_block = a\<rparr>)
     (dec_pair dec_word (dec_pair dec_word (dec_pair dec_word (dec_pair (dec_opt dec_block)
       (dec_pair dec_word (dec_pair dec_bytes (dec_opt dec_word)))))))"

lemma delimits_cursor [delimits_intros]: "delimits enc_cursor dec_cursor"
  unfolding enc_cursor_def dec_cursor_def by (rule delimits_iso) (auto intro!: delimits_intros)

definition enc_interest :: "PortableInterest \<Rightarrow> bytes" where
  "enc_interest = enc_iso (\<lambda>i. map_option (\<lambda>k. case k of
       KindLog l \<Rightarrow> Inl (li_addresses l, map tv_values (li_topics l)) | KindBlock b \<Rightarrow> Inr (bi_mode b)) (pi_kind i))
     (enc_opt (enc_sum (enc_pair (enc_list enc_bytes) (enc_list (enc_list enc_bytes))) enc_i32))"

definition dec_interest :: "PortableInterest parser" where
  "dec_interest = dec_iso (\<lambda>m. \<lparr>pi_kind = map_option (\<lambda>s. case s of
       Inl (a, t) \<Rightarrow> KindLog \<lparr>li_addresses = a, li_topics = map (\<lambda>v. \<lparr>tv_values = v\<rparr>) t\<rparr>
     | Inr b \<Rightarrow> KindBlock \<lparr>bi_mode = b\<rparr>) m\<rparr>)
     (dec_opt (dec_sum (dec_pair (dec_list dec_bytes) (dec_list (dec_list dec_bytes))) dec_i32))"

lemma delimits_interest [delimits_intros]: "delimits enc_interest dec_interest"
  unfolding enc_interest_def dec_interest_def
proof (rule delimits_iso)
  fix i :: PortableInterest
  show "\<lparr>pi_kind = map_option (\<lambda>s. case s of
       Inl (a, t) \<Rightarrow> KindLog \<lparr>li_addresses = a, li_topics = map (\<lambda>v. \<lparr>tv_values = v\<rparr>) t\<rparr>
     | Inr b \<Rightarrow> KindBlock \<lparr>bi_mode = b\<rparr>) (map_option (\<lambda>k. case k of
       KindLog l \<Rightarrow> Inl (li_addresses l, map tv_values (li_topics l)) | KindBlock b \<Rightarrow> Inr (bi_mode b)) (pi_kind i))\<rparr> = i"
    by (cases i; cases "pi_kind i") (auto simp: comp_def map_idI split: InterestKind.splits)
qed (auto intro!: delimits_intros)

lemma record_eta [simp]:
  "\<lparr>bf_from_block = bf_from_block b, bf_to_block_excl = bf_to_block_excl b,
    bf_retained_baseline = bf_retained_baseline b\<rparr> = b"
  "\<lparr>ce_event = ce_event e\<rparr> = e"
  by simp_all

definition enc_owner :: "OwnerInterests \<Rightarrow> bytes" where
  "enc_owner = enc_iso (\<lambda>w. (oi_owner_id w, oi_interests w,
       map_option (\<lambda>b. (bf_from_block b, bf_to_block_excl b, bf_retained_baseline b)) (oi_backfill w), oi_canonical w))
     (enc_pair enc_string (enc_pair (enc_list enc_interest)
       (enc_pair (enc_opt (enc_pair enc_word (enc_pair (enc_opt enc_word) (enc_opt enc_block)))) enc_bool)))"

definition dec_owner :: "OwnerInterests parser" where
  "dec_owner = dec_iso (\<lambda>(i, ints, b, c). \<lparr>oi_owner_id = i, oi_interests = ints,
       oi_backfill = map_option (\<lambda>(f, t, r). \<lparr>bf_from_block = f, bf_to_block_excl = t, bf_retained_baseline = r\<rparr>) b,
       oi_canonical = c\<rparr>)
     (dec_pair dec_string (dec_pair (dec_list dec_interest)
       (dec_pair (dec_opt (dec_pair dec_word (dec_pair (dec_opt dec_word) (dec_opt dec_block)))) dec_bool)))"

lemma delimits_owner [delimits_intros]: "delimits enc_owner dec_owner"
  unfolding enc_owner_def dec_owner_def
  by (rule delimits_iso) (auto intro!: delimits_intros simp: option.map_comp comp_def option.map_ident)

definition enc_desired :: "ApplyDesiredState \<Rightarrow> bytes" where
  "enc_desired = enc_iso (\<lambda>a. (ads_protocol_version a, ads_session_id a, ads_chain_id a, ads_expected_revision a,
       ads_new_revision a, ads_owners a))
     (enc_pair enc_i32 (enc_pair enc_string (enc_pair enc_word (enc_pair enc_word (enc_pair enc_word (enc_list enc_owner))))))"

definition dec_desired :: "ApplyDesiredState parser" where
  "dec_desired = dec_iso (\<lambda>(v, s, c, e, n, os). \<lparr>ads_protocol_version = v, ads_session_id = s, ads_chain_id = c,
       ads_expected_revision = e, ads_new_revision = n, ads_owners = os\<rparr>)
     (dec_pair dec_i32 (dec_pair dec_string (dec_pair dec_word (dec_pair dec_word (dec_pair dec_word (dec_list dec_owner))))))"

lemma delimits_desired: "delimits enc_desired dec_desired"
  unfolding enc_desired_def dec_desired_def by (rule delimits_iso) (auto intro!: delimits_intros)

section \<open>Deliveries\<close>

definition enc_log :: "LogEvent \<Rightarrow> bytes" where
  "enc_log = enc_iso (\<lambda>l. (le_address l, le_topics l, le_data l, le_block_number l, le_block_hash l,
       le_transaction_hash l, le_transaction_index l, le_log_index l, le_block_timestamp l, le_removed l))
     (enc_pair enc_bytes (enc_pair (enc_list enc_bytes) (enc_pair enc_bytes (enc_pair enc_word (enc_pair enc_bytes
       (enc_pair enc_bytes (enc_pair enc_word (enc_pair enc_word (enc_pair enc_word enc_bool)))))))))"

definition dec_log :: "LogEvent parser" where
  "dec_log = dec_iso (\<lambda>(a, t, d, n, h, x, ti, li, s, r). \<lparr>le_address = a, le_topics = t, le_data = d,
       le_block_number = n, le_block_hash = h, le_transaction_hash = x, le_transaction_index = ti,
       le_log_index = li, le_block_timestamp = s, le_removed = r\<rparr>)
     (dec_pair dec_bytes (dec_pair (dec_list dec_bytes) (dec_pair dec_bytes (dec_pair dec_word (dec_pair dec_bytes
       (dec_pair dec_bytes (dec_pair dec_word (dec_pair dec_word (dec_pair dec_word dec_bool)))))))))"

lemma delimits_log [delimits_intros]: "delimits enc_log dec_log"
  unfolding enc_log_def dec_log_def by (rule delimits_iso) (auto intro!: delimits_intros)

definition enc_header :: "BlockHeaderEvent \<Rightarrow> bytes" where
  "enc_header = enc_iso (\<lambda>h. (bh_block h, bh_consensus_header_rlp h, bh_total_difficulty h, bh_size h))
     (enc_pair (enc_opt enc_block) (enc_pair enc_bytes (enc_pair enc_bytes enc_bytes)))"

definition dec_header :: "BlockHeaderEvent parser" where
  "dec_header = dec_iso (\<lambda>(b, r, t, s). \<lparr>bh_block = b, bh_consensus_header_rlp = r, bh_total_difficulty = t, bh_size = s\<rparr>)
     (dec_pair (dec_opt dec_block) (dec_pair dec_bytes (dec_pair dec_bytes dec_bytes)))"

lemma delimits_header [delimits_intros]: "delimits enc_header dec_header"
  unfolding enc_header_def dec_header_def by (rule delimits_iso) (auto intro!: delimits_intros)

definition enc_event :: "Event \<Rightarrow> bytes" where
  "enc_event = enc_iso (\<lambda>e. case e of EventLog l \<Rightarrow> Inl l | EventBlockHeader h \<Rightarrow> Inr (Inl h)
       | EventBlockProgress p \<Rightarrow> Inr (Inr (bp_block p)))
     (enc_sum enc_log (enc_sum enc_header (enc_opt enc_block)))"

definition dec_event :: "Event parser" where
  "dec_event = dec_iso (\<lambda>s. case s of Inl l \<Rightarrow> EventLog l | Inr (Inl h) \<Rightarrow> EventBlockHeader h
       | Inr (Inr b) \<Rightarrow> EventBlockProgress \<lparr>bp_block = b\<rparr>)
     (dec_sum dec_log (dec_sum dec_header (dec_opt dec_block)))"

lemma delimits_event [delimits_intros]: "delimits enc_event dec_event"
  unfolding enc_event_def dec_event_def
  by (rule delimits_iso) (auto intro!: delimits_intros split: Event.splits)

definition enc_record :: "EventRecord \<Rightarrow> bytes" where
  "enc_record = enc_iso (\<lambda>r. (map_option ce_event (er_event r), er_canonical_audience r, er_owner_ids r, er_scope r))
     (enc_pair (enc_opt (enc_opt enc_event)) (enc_pair enc_bool (enc_pair (enc_list enc_string) enc_i32)))"

definition dec_record :: "EventRecord parser" where
  "dec_record = dec_iso (\<lambda>(e, c, os, s). \<lparr>er_event = map_option (\<lambda>e. \<lparr>ce_event = e\<rparr>) e,
       er_canonical_audience = c, er_owner_ids = os, er_scope = s\<rparr>)
     (dec_pair (dec_opt (dec_opt dec_event)) (dec_pair dec_bool (dec_pair (dec_list dec_string) dec_i32)))"

lemma delimits_record [delimits_intros]: "delimits enc_record dec_record"
  unfolding enc_record_def dec_record_def
  by (rule delimits_iso) (auto intro!: delimits_intros simp: option.map_comp comp_def option.map_ident)

type_synonym payload_code =
  "EventRecord list + (BlockRef option \<times> BlockRef option \<times> BlockRef option) +
   (i32 \<times> BlockRef option) + (bytes \<times> BlockRef option)"

definition payload_code :: "Payload \<Rightarrow> payload_code" where
  "payload_code pl =
     (case pl of
        PayloadData d \<Rightarrow> Inl (dp_records d)
      | PayloadReorg r \<Rightarrow> Inr (Inl (ro_common_ancestor r, ro_old_tip r, ro_new_tip r))
      | PayloadFinality f \<Rightarrow> Inr (Inr (Inl (fin_kind f, fin_block f)))
      | PayloadBarrier b \<Rightarrow> Inr (Inr (Inr (bar_id b, bar_block b))))"

definition payload_of_code :: "payload_code \<Rightarrow> Payload" where
  "payload_of_code s =
     (case s of
        Inl rs \<Rightarrow> PayloadData \<lparr>dp_records = rs\<rparr>
      | Inr (Inl (a, b, c)) \<Rightarrow> PayloadReorg \<lparr>ro_common_ancestor = a, ro_old_tip = b, ro_new_tip = c\<rparr>
      | Inr (Inr (Inl (k, b))) \<Rightarrow> PayloadFinality \<lparr>fin_kind = k, fin_block = b\<rparr>
      | Inr (Inr (Inr (i, b))) \<Rightarrow> PayloadBarrier \<lparr>bar_id = i, bar_block = b\<rparr>)"

lemma payload_code_inverse: "payload_of_code (payload_code pl) = pl"
  by (simp add: payload_code_def payload_of_code_def split: Payload.splits)

definition enc_payload :: "Payload \<Rightarrow> bytes" where
  "enc_payload = enc_iso payload_code
     (enc_sum (enc_list enc_record) (enc_sum (enc_pair (enc_opt enc_block) (enc_pair (enc_opt enc_block) (enc_opt enc_block)))
       (enc_sum (enc_pair enc_i32 (enc_opt enc_block)) (enc_pair enc_bytes (enc_opt enc_block)))))"

definition dec_payload :: "Payload parser" where
  "dec_payload = dec_iso payload_of_code
     (dec_sum (dec_list dec_record) (dec_sum (dec_pair (dec_opt dec_block) (dec_pair (dec_opt dec_block) (dec_opt dec_block)))
       (dec_sum (dec_pair dec_i32 (dec_opt dec_block)) (dec_pair dec_bytes (dec_opt dec_block)))))"

lemma delimits_payload [delimits_intros]: "delimits enc_payload dec_payload"
  unfolding enc_payload_def dec_payload_def
  by (rule delimits_iso) (auto intro!: delimits_intros simp: payload_code_inverse)

definition enc_delivery :: "Delivery \<Rightarrow> bytes" where
  "enc_delivery = enc_iso (\<lambda>d. (del_session_id d, del_sequence d, del_query_revision d, del_delivery_token d,
       del_cursor d, del_payload d, del_checkpoint_neutral d))
     (enc_pair enc_string (enc_pair enc_word (enc_pair enc_word (enc_pair enc_bytes (enc_pair (enc_opt enc_cursor)
       (enc_pair (enc_opt enc_payload) enc_bool))))))"

definition dec_delivery :: "Delivery parser" where
  "dec_delivery = dec_iso (\<lambda>(s, n, r, t, c, p, b). \<lparr>del_session_id = s, del_sequence = n, del_query_revision = r,
       del_delivery_token = t, del_cursor = c, del_payload = p, del_checkpoint_neutral = b\<rparr>)
     (dec_pair dec_string (dec_pair dec_word (dec_pair dec_word (dec_pair dec_bytes (dec_pair (dec_opt dec_cursor)
       (dec_pair (dec_opt dec_payload) dec_bool))))))"

lemma delimits_delivery: "delimits enc_delivery dec_delivery"
  unfolding enc_delivery_def dec_delivery_def by (rule delimits_iso) (auto intro!: delimits_intros)

end
