(* ===== verification/Outbox.thy ===== *)
theory Outbox
  imports Session_Invariant Self_Delimiting
begin

text \<open>
  The abstract outbox that the durable session store implements, the refinement, and the
  properties of the store: every reachable row loads, desired states are compare-and-swapped,
  a delivery stays in flight until its acknowledgement, and a promised replacement is certified
  before coverage moves again.
\<close>

section \<open>The abstract outbox\<close>

record Outbox =
  ob_revision :: nat
  ob_acked :: nat
  ob_head :: "BlockRef option"
  ob_inflight :: "Delivery option"
  ob_promise :: "BlockRef option"

text \<open>Coverage moves up or stands still.\<close>

definition head_advances :: "BlockRef option \<Rightarrow> BlockRef option \<Rightarrow> bool" where
  "head_advances old new \<longleftrightarrow>
     pred_option (\<lambda>h. \<exists>h'. new = Some h' \<and> (h' = h \<or> br_number h < br_number h')) old"

definition outstanding :: "BlockRef option \<Rightarrow> Delivery \<Rightarrow> BlockRef option" where
  "outstanding promise d =
     Option.bind promise (\<lambda>promised. if delivery_certifies_reorg_tip d promised then None else Some promised)"

inductive outbox_step :: "Outbox \<Rightarrow> Outbox \<Rightarrow> bool" where
  ob_activate: "ob_inflight ob = None \<Longrightarrow> unat (del_sequence d) = Suc (ob_acked ob) \<Longrightarrow>
    ob_head ob = None \<or> cursor_head (del_cursor d) = ob_head ob \<Longrightarrow>
    outbox_step ob (ob\<lparr>ob_revision := Suc (ob_revision ob), ob_inflight := Some d\<rparr>)"
| ob_offer: "ob_inflight ob = None \<Longrightarrow> unat (del_sequence d) = Suc (ob_acked ob) \<Longrightarrow>
    pred_option (delivery_certifies_reorg_tip d) (ob_promise ob) \<Longrightarrow>
    outbox_step ob (ob\<lparr>ob_inflight := Some d\<rparr>)"
| ob_advance: "ob_inflight ob = Some d \<Longrightarrow> head_advances (ob_head ob) (cursor_head (del_cursor d)) \<Longrightarrow>
    outstanding (ob_promise ob) d = None \<or> cursor_head (del_cursor d) = ob_head ob \<Longrightarrow>
    outbox_step ob (ob\<lparr>ob_acked := Suc (ob_acked ob), ob_head := cursor_head (del_cursor d),
      ob_inflight := None, ob_promise := outstanding (ob_promise ob) d\<rparr>)"
| ob_rewind: "ob_inflight ob = Some d \<Longrightarrow> del_payload d = Some (PayloadReorg r) \<Longrightarrow> ob_promise ob = None \<Longrightarrow>
    ro_common_ancestor r = Some ancestor \<Longrightarrow> ro_old_tip r = Some old_tip \<Longrightarrow> ro_new_tip r = Some new_tip \<Longrightarrow>
    ob_head ob = Some old_tip \<Longrightarrow> br_number ancestor < br_number old_tip \<Longrightarrow> br_number ancestor < br_number new_tip \<Longrightarrow>
    outbox_step ob (ob\<lparr>ob_acked := Suc (ob_acked ob), ob_head := Some ancestor,
      ob_inflight := None, ob_promise := Some new_tip\<rparr>)"

definition outbox_of :: "PersistedSession \<Rightarrow> Outbox" where
  "outbox_of p =
     \<lparr>ob_revision = unat (committed_revision (ps_desired_state p)),
      ob_acked = acked_sequence (ps_acknowledged_cursor p),
      ob_head = cursor_head (ps_acknowledged_cursor p),
      ob_inflight = ps_pending_delivery p, ob_promise = ps_expected_reorg_tip p\<rparr>"

section \<open>Refinement\<close>

lemma outbox_activate:
  assumes "activates env r p d p'"
  shows "outbox_step (outbox_of p) (outbox_of p')"
proof -
  have "unat (del_sequence d) = Suc (acked_sequence (ps_acknowledged_cursor p))"
    and progress: "validate_delivery_progress (ps_acknowledged_cursor p) r d = Ok ()"
    and act: "is_activation_delivery d (ads_new_revision r)"
    using assms by (simp_all add: activates_def admissible_delivery_def next_in_flight_def)
  moreover obtain c where "del_cursor d = Some c"
    using act by (auto simp: is_activation_delivery_def split: option.splits)
  then have "cursor_head (ps_acknowledged_cursor p) = None \<or>
      cursor_head (del_cursor d) = cursor_head (ps_acknowledged_cursor p)"
    using activation_head [OF progress act]
    by (cases "cursor_head (ps_acknowledged_cursor p)") (simp_all add: cursor_head_def)
  ultimately have "outbox_step (outbox_of p) ((outbox_of p)\<lparr>ob_revision := Suc (ob_revision (outbox_of p)),
      ob_inflight := Some d\<rparr>)"
    using assms by (intro ob_activate) (simp_all add: outbox_of_def activates_def)
  moreover have "outbox_of p' = (outbox_of p)\<lparr>ob_revision := Suc (ob_revision (outbox_of p)), ob_inflight := Some d\<rparr>"
    using assms by (simp add: outbox_of_def activates_def) (simp add: committed_revision_def)
  ultimately show ?thesis by simp
qed

lemma outbox_offer:
  assumes "offers env p d p'"
  shows "outbox_step (outbox_of p) (outbox_of p')"
proof -
  have "outbox_step (outbox_of p) ((outbox_of p)\<lparr>ob_inflight := Some d\<rparr>)"
    using assms by (intro ob_offer) (auto simp: outbox_of_def offers_def admissible_delivery_def next_in_flight_def)
  moreover have "outbox_of p' = (outbox_of p)\<lparr>ob_inflight := Some d\<rparr>"
    using assms by (simp add: outbox_of_def offers_def)
  ultimately show ?thesis by simp
qed

text \<open>What validity of the session says of its delivery in flight.\<close>

lemma pending_facts:
  assumes "valid_session env key rv act p" and "ps_pending_delivery p = Some d"
  obtains ds where "ps_desired_state p = Some ds" "next_in_flight ds (ps_acknowledged_cursor p) d"
    "validate_delivery_payload env ds d = Ok ()"
    "validate_delivery_progress (ps_acknowledged_cursor p) ds d = Ok ()"
    "keeps_promise ds (ps_expected_reorg_tip p) d"
proof -
  from assms(1) obtain ds where ds: "ps_desired_state p = Some ds" by (auto simp: valid_session_def session_ok_def)
  from assms show thesis
    using that ds persisted_pending_Ok_iff [of env ds p d]
    by (auto simp: valid_session_def valid_session_iff [OF ds] admissible_delivery_def)
qed

lemma head_advances_nonreorg:
  assumes "validate_delivery_progress acked ds d = Ok u" and "del_cursor d = Some c" and "del_payload d = Some pl"
    and "\<And>r. pl \<noteq> PayloadReorg r"
  shows "head_advances (cursor_head acked) (cur_canonical_head c)"
proof (cases acked)
  case None
  then show ?thesis by (simp add: head_advances_def cursor_head_def)
next
  case (Some a)
  from progress_declared(3) [OF assms(1-3,4) Some] have "\<not> canonical_head_regresses_or_changes a c" by simp
  with Some show ?thesis
    by (auto simp: head_advances_def cursor_head_def canonical_head_regresses_or_changes_def not_less
        order.order_iff_strict split: option.splits)
qed

lemma outbox_ack:
  assumes valid: "valid_session env key rv act p" and ack: "acks p d c p'"
  shows "outbox_step (outbox_of p) (outbox_of p')"
proof -
  have d: "ps_pending_delivery p = Some d" and c: "del_cursor d = Some c"
    and promise: "expected_reorg_tip_after_ack (ps_expected_reorg_tip p) d = Ok (ps_expected_reorg_tip p')"
    and p': "ps_desired_state p' = ps_desired_state p" "ps_acknowledged_cursor p' = Some c" "ps_pending_delivery p' = None"
    using ack by (auto simp: acks_def)
  from pending_facts [OF valid d] obtain ds where nx: "next_in_flight ds (ps_acknowledged_cursor p) d"
    and payload: "validate_delivery_payload env ds d = Ok ()"
    and progress: "validate_delivery_progress (ps_acknowledged_cursor p) ds d = Ok ()"
    and keeps: "keeps_promise ds (ps_expected_reorg_tip p) d" by blast
  have seq: "unat (cur_batch_sequence c) = Suc (acked_sequence (ps_acknowledged_cursor p))"
    using nx c by (auto simp: next_in_flight_def)
  obtain pl where pl: "del_payload d = Some pl" using nx by (auto simp: next_in_flight_def)
  show ?thesis
  proof (cases "\<exists>r. pl = PayloadReorg r")
    case True
    then obtain r where r: "del_payload d = Some (PayloadReorg r)" using pl by blast
    obtain ancestor old_tip new_tip where
      reorg: "ro_common_ancestor r = Some ancestor" "ro_old_tip r = Some old_tip" "ro_new_tip r = Some new_tip"
        "cursor_head (ps_acknowledged_cursor p) = Some old_tip" "br_number ancestor < br_number old_tip"
        "br_number ancestor < br_number new_tip" "cur_canonical_head c = Some ancestor"
      by (rule reorg_head [OF progress r c])
    have none: "ps_expected_reorg_tip p = None" "ps_expected_reorg_tip p' = Some new_tip"
      using promise r reorg(3)
      by (auto simp: expected_reorg_tip_after_ack_def bind_res_Ok_iff ok_or_Ok_iff split: if_splits)
    have "outbox_step (outbox_of p) ((outbox_of p)\<lparr>ob_acked := Suc (ob_acked (outbox_of p)),
        ob_head := Some ancestor, ob_inflight := None, ob_promise := Some new_tip\<rparr>)"
      using d none(1) reorg by (intro ob_rewind [OF _ r]) (simp_all add: outbox_of_def)
    moreover have "outbox_of p' = (outbox_of p)\<lparr>ob_acked := Suc (ob_acked (outbox_of p)),
        ob_head := Some ancestor, ob_inflight := None, ob_promise := Some new_tip\<rparr>"
      using p' seq none reorg by (simp add: outbox_of_def cursor_head_def)
    ultimately show ?thesis by simp
  next
    case False
    have out: "ps_expected_reorg_tip p' = outstanding (ps_expected_reorg_tip p) d"
      using promise pl False
      by (cases pl) (auto simp: expected_reorg_tip_after_ack_def outstanding_def split: option.splits if_splits)
    have still: "outstanding (ps_expected_reorg_tip p) d = None \<or>
        cursor_head (del_cursor d) = cursor_head (ps_acknowledged_cursor p)"
    proof (cases "outstanding (ps_expected_reorg_tip p) d")
      case (Some b)
      then have b: "ps_expected_reorg_tip p = Some b" "\<not> delivery_certifies_reorg_tip d b"
        by (auto simp: outstanding_def bind_eq_Some_conv split: if_splits)
      then have act: "is_activation_delivery d (ads_new_revision ds)" using keeps by (simp add: keeps_promise_def)
      from valid b obtain h where "cursor_head (ps_acknowledged_cursor p) = Some h"
        by (auto simp: valid_session_def session_ok_def)
      with activation_head [OF progress act c] c show ?thesis by (simp add: cursor_head_def)
    qed simp
    have "outbox_step (outbox_of p) ((outbox_of p)\<lparr>ob_acked := Suc (ob_acked (outbox_of p)),
        ob_head := cursor_head (del_cursor d), ob_inflight := None, ob_promise := outstanding (ob_promise (outbox_of p)) d\<rparr>)"
      using head_advances_nonreorg [OF progress c pl] False d c still
      by (intro ob_advance) (auto simp: outbox_of_def cursor_head_def)
    moreover have "outbox_of p' = (outbox_of p)\<lparr>ob_acked := Suc (ob_acked (outbox_of p)),
        ob_head := cursor_head (del_cursor d), ob_inflight := None, ob_promise := outstanding (ob_promise (outbox_of p)) d\<rparr>"
      using p' seq out c by (simp add: outbox_of_def cursor_head_def)
    ultimately show ?thesis by simp
  qed
qed

lemma view_refines:
  assumes inv: "store_inv env store" and move: "session_moves env (session_view env store key) p'"
  shows "outbox_step (outbox_of (session_view env store key)) (outbox_of p')"
proof -
  have "\<exists>rv act. valid_session env key rv act (session_view env store key)"
    if "acks (session_view env store key) d c p'" for d c
    using valid_session_default_or [OF inv, of key] that by (auto simp: acks_def persisted_default_def)
  with move show ?thesis
    by (auto simp: session_moves_def intro: outbox_activate outbox_offer outbox_ack)
qed

lemma step_refines:
  assumes "codec_laws env" and "store_inv env store" and "store_step env store store'"
  shows "outbox_of (session_view env store' key) = outbox_of (session_view env store key) \<or>
    outbox_step (outbox_of (session_view env store key)) (outbox_of (session_view env store' key))"
  using store_step_view [OF assms] view_refines [OF assms(2)] by metis


section \<open>Progress\<close>

text \<open>The environment in which no SQLite call fails.\<close>

definition sql_works :: "sql_fails \<Rightarrow> bool" where
  "sql_works fails \<longleftrightarrow> (\<forall>call. \<not> fails call)"

lemma sql_works_Ok [simp]: "sql_works fails \<Longrightarrow> sql fails call = Ok ()"
  by (simp add: sql_works_def sql_def)

lemma ack_accepts:
  assumes laws: "codec_laws env" and inv: "store_inv env store" and ok: "sql_works fails"
    and key: "key = (ack_session_id a, cid)" and d: "ps_pending_delivery (session_view env store key) = Some d"
    and token: "ack_sequence a = del_sequence d" "ack_delivery_token a = del_delivery_token d"
  shows "\<exists>c store'. acknowledge_with_status env fails store cid a = Ok ((c, True), store') \<and>
    acks (session_view env store key) d c (session_view env store' key)"
proof -
  let ?p = "session_view env store key"
  obtain row where row: "select_row store key = Some row"
    using d by (cases "select_row store key") (auto simp: session_view_def persisted_default_def)
  from row_decodes [OF inv row refl] have valid: "valid_session env key (row_revision row) (row_activation_sequence row) ?p"
    by blast
  from pending_facts [OF valid d] obtain ds where nx: "next_in_flight ds (ps_acknowledged_cursor ?p) d"
    and payload: "validate_delivery_payload env ds d = Ok ()" and keeps: "keeps_promise ds (ps_expected_reorg_tip ?p) d" by blast
  obtain c where c: "del_cursor d = Some c" using nx by (auto simp: next_in_flight_def)
  have "ps_expected_reorg_tip ?p = None" if "del_payload d = Some (PayloadReorg r)" for r
    using keeps that is_activation_not_reorg certifies_not_reorg
    by (cases "ps_expected_reorg_tip ?p") (auto simp: keeps_promise_def)
  moreover have "\<exists>b. ro_new_tip r = Some b" if "del_payload d = Some (PayloadReorg r)" for r
    using payload_reorg_wf [OF payload that] by blast
  ultimately have "\<exists>promise. expected_reorg_tip_after_ack (ps_expected_reorg_tip ?p) d = Ok promise"
    by (cases "del_payload d") (fastforce simp: expected_reorg_tip_after_ack_def split: Payload.splits)+
  then obtain store' where run: "acknowledge_with_status env fails store cid a = Ok ((c, True), store')"
    using acknowledge_with_status_conv [OF inv key refl row, of fails c True] ok d c token by (auto simp: sql_works_def)
  from ack_effect [OF laws inv key refl run] d obtain p' row' where
    "acks ?p d c p'" "load_row env key row' = Ok p'" "session_ok p'" "store' = write_row store key row'"
    by (auto simp: acks_def)
  with store_inv_write(2) [OF inv, of key row' p'] run show ?thesis by blast
qed

lemma save_accepts:
  assumes laws: "codec_laws env" and inv: "store_inv env store" and ok: "sql_works fails"
    and key: "key = (ads_session_id ds, ads_chain_id ds)"
    and ds: "ps_desired_state (session_view env store key) = Some ds"
    and move: "offers env (session_view env store key) d p'"
  shows "\<exists>store'. save_pending_with_status env fails store ds d = Ok (True, store') \<and>
    session_view env store' key = p'"
proof -
  let ?p = "session_view env store key"
  have skey: "sessions_key (ads_session_id ds) (ads_chain_id ds) = key" by (simp add: sessions_key_def key sql_integers)
  have loads: "load env fails store (ads_session_id ds) (ads_chain_id ds) = Ok ?p"
    using load_view [OF inv] ok by (simp add: skey sql_works_def)
  have adm: "admissible_delivery env ds (ps_acknowledged_cursor ?p) d" and idle: "ps_pending_delivery ?p = None"
    and certifies: "\<not> is_some_and (\<lambda>expected. \<not> delivery_certifies_reorg_tip d expected) (ps_expected_reorg_tip ?p)"
    using move ds by (auto simp: offers_def is_some_and_def split: option.splits)
  obtain c where c: "del_cursor d = Some c" "cur_batch_sequence c = del_sequence d" "cur_chain_id c = ads_chain_id ds"
      "cur_query_revision c = ads_new_revision ds"
    and d: "del_session_id d = ads_session_id ds" "del_query_revision d = ads_new_revision ds"
      "del_delivery_token d = u64_to_be_bytes (del_sequence d)" "del_payload d \<noteq> None"
    and seq: "next_sequence (ps_acknowledged_cursor ?p) = Ok (del_sequence d)"
    using adm by (auto simp: admissible_delivery_def next_in_flight_def next_sequence_Ok_iff acked_sequence_def)
  have "\<exists>store'. save_pending_with_status env fails store ds d = Ok (True, store')"
    using adm ds idle certifies ok d unfolding save_pending_with_status_def skey
    by (simp add: loads c seq admissible_delivery_def Let_def)
  then obtain store' where run: "save_pending_with_status env fails store ds d = Ok (True, store')" by blast
  from save_effect [OF laws inv key refl run] obtain row where
    "load_row env key row = Ok (?p\<lparr>ps_pending_delivery := Some d\<rparr>)" "session_ok (?p\<lparr>ps_pending_delivery := Some d\<rparr>)"
    "store' = write_row store key row" by auto
  with store_inv_write(2) [OF inv, of key row] run move show ?thesis by (auto simp: offers_def)
qed

text \<open>The store is a compare-and-swap authority under any interleaving of its operations.\<close>

lemma step_revision:
  assumes "codec_laws env" and "store_inv env store" and "store_step env store store'"
  shows "ps_desired_state (session_view env store' key) = ps_desired_state (session_view env store key) \<or>
    unat (committed_revision (ps_desired_state (session_view env store key))) <
      unat (committed_revision (ps_desired_state (session_view env store' key)))"
proof -
  have move: "ps_desired_state p' = ps_desired_state p \<or>
      unat (committed_revision (ps_desired_state p)) < unat (committed_revision (ps_desired_state p'))"
    if "session_moves env p p'" for p p'
    using that
    by (auto simp: session_moves_def activates_def offers_def acks_def committed_revision_def)
  from store_step_view [OF assms] show ?thesis using move by metis
qed

interpretation store: cas_authority "\<lambda>s. codec_laws env \<and> store_inv env s"
  "\<lambda>s k. ps_desired_state (session_view env s k)"
  "\<lambda>s r (fails, prepared, mx, ms). apply_desired_state_with_cursor_and_limit env fails s r prepared mx ms"
  "store_step env" for env
proof unfold_locales
  fix s r c a s'
  assume good: "codec_laws env \<and> store_inv env s"
    and run: "(case c of (fails, prepared, mx, ms) \<Rightarrow>
      apply_desired_state_with_cursor_and_limit env fails s r prepared mx ms) = Ok (a, s')"
  obtain fails prepared mx ms applied changed where c: "c = (fails, prepared, mx, ms)" and a: "a = (applied, changed)"
    by (cases c, cases a)
  have run': "apply_desired_state_with_cursor_and_limit env fails s r prepared mx ms = Ok ((applied, changed), s')"
    using run by (simp add: c a)
  show "codec_laws env \<and> store_inv env s'"
    using store_step_view good step_apply [OF run'] by blast
  from apply_effect [OF _ _ refl refl run'] good
  show "ps_desired_state (session_view env s' (request_key r)) = Some r \<and>
      (ps_desired_state (session_view env s (request_key r)) = Some r \<or>
       ads_expected_revision r = committed_revision (ps_desired_state (session_view env s (request_key r))))"
    using store_inv_write(2) [of env s] by (auto simp: request_key_def activates_def)
next
  fix s k r
  assume good: "codec_laws env \<and> store_inv env s" and r: "ps_desired_state (session_view env s k) = Some r"
  then obtain row where "select_row s k = Some row" using row_of_view by metis
  then have "session_ok (session_view env s k)" using view_of_row(2) good by blast
  with r show "unat (ads_new_revision r) = Suc (unat (ads_expected_revision r))"
    by (auto simp: session_ok_def)
next
  fix s s' k
  assume good: "codec_laws env \<and> store_inv env s" and step: "store_step env s s'"
  then show "codec_laws env \<and> store_inv env s'" using store_step_view by blast
  show "ps_desired_state (session_view env s' k) = ps_desired_state (session_view env s k) \<or>
      unat (committed_revision (ps_desired_state (session_view env s k))) <
        unat (committed_revision (ps_desired_state (session_view env s' k)))"
    using step_revision good step by blast
qed


section \<open>What a certificate of the promised tip contains\<close>

definition canonical_record_blocks :: "EventRecord list \<Rightarrow> BlockRef set" where
  "canonical_record_blocks records =
     {b. \<exists>r \<in> set records. \<exists>event. er_scope r \<noteq> delivery_scope_to_i32 ScopeOwnerCatchup \<and>
        record_event r = Some event \<and> event_block event = Some b}"

lemma canonical_record_blocks_Cons:
  "canonical_record_blocks (r # rs) =
     {b. \<exists>event. er_scope r \<noteq> delivery_scope_to_i32 ScopeOwnerCatchup \<and>
        record_event r = Some event \<and> event_block event = Some b} \<union> canonical_record_blocks rs"
  by (auto simp: canonical_record_blocks_def)

lemma collect_canonical_blocks_Some:
  assumes "collect_canonical_blocks rs m = Some m'" and "btree_ok m" and "\<forall>(n, b) \<in> set m. n = br_number b"
  shows "btree_ok m' \<and> (\<forall>(n, b) \<in> set m'. n = br_number b) \<and> snd ` set m' = snd ` set m \<union> canonical_record_blocks rs"
  using assms
proof (induction rs arbitrary: m)
  case Nil
  then show ?case by (simp add: canonical_record_blocks_def)
next
  case (Cons r rs)
  from Cons.prems(1) obtain scope where scope: "delivery_scope_try_from (er_scope r) = Some scope"
    by (auto split: option.splits)
  then have code: "er_scope r = delivery_scope_to_i32 scope" by (rule delivery_scope_try_from_Some)
  show ?case
  proof (cases "scope = ScopeOwnerCatchup")
    case True
    with Cons scope code show ?thesis by (simp add: canonical_record_blocks_Cons)
  next
    case False
    then obtain event where event: "record_event r = Some event"
      using Cons.prems(1) scope by (cases scope) (auto split: option.splits)
    show ?thesis
    proof (cases "event_block event")
      case None
      then have "collect_canonical_blocks rs m = Some m'"
        using Cons.prems(1) scope event False by (cases scope) simp_all
      from Cons.IH [OF this Cons.prems(2,3)] event None show ?thesis
        by (simp add: canonical_record_blocks_Cons)
    next
      case (Some b)
      let ?m = "btree_insert (br_number b) b m"
      have run: "collect_canonical_blocks rs ?m = Some m'"
        and same: "map_of m (br_number b) = None \<or> map_of m (br_number b) = Some b"
        using Cons.prems(1) scope event Some False
        by (cases scope; cases "map_of m (br_number b)"; simp split: if_splits)+
      have ok: "btree_ok ?m" using btree_ok_insert Cons.prems(2) .
      have sets: "set ?m = insert (br_number b, b) (set m)"
        using same Cons.prems(2) by (rule set_btree_insert_same [rotated])
      have entries: "\<forall>(n, b) \<in> set ?m. n = br_number b" unfolding sets using Cons.prems(3) by simp
      have "er_scope r \<noteq> delivery_scope_to_i32 ScopeOwnerCatchup"
        unfolding code delivery_scope_to_i32_inject using False .
      then have blocks: "canonical_record_blocks (r # rs) = insert b (canonical_record_blocks rs)"
        using event Some by (auto simp: canonical_record_blocks_Cons)
      have union: "snd ` set ?m \<union> canonical_record_blocks rs = snd ` set m \<union> canonical_record_blocks (r # rs)"
        unfolding sets blocks by simp
      show ?thesis using Cons.IH [OF run ok entries] unfolding union .
    qed
  qed
qed

lemma descend_Some:
  "descend previous bs = Some t \<Longrightarrow> linked (previous # bs) \<and> t = last (previous # bs)"
  by (induction bs arbitrary: previous) (auto simp: block_link_def u64_simps split: if_splits)

lemma certified_chain:
  assumes "delivery_certifies_reorg_tip d b" and "del_payload d = Some (PayloadData data)" and "del_cursor d = Some c"
  shows "\<exists>chain. linked (b # chain) \<and>
    set (b # chain) = {b' \<in> canonical_record_blocks (dp_records data). br_number b \<le> br_number b'} \<and>
    cur_canonical_head c = Some (last (b # chain)) \<and>
    unat (cur_next_block c) = Suc (unat (br_number (last (b # chain))))"
proof -
  from assms obtain m where m: "collect_canonical_blocks (dp_records data) [] = Some m"
    and b: "map_of m (br_number b) = Some b"
    by (auto simp: delivery_certifies_reorg_tip_def split: option.splits if_splits)
  from collect_canonical_blocks_Some [OF m] have ok: "btree_ok m" "\<forall>(n, b) \<in> set m. n = br_number b"
    and blocks: "snd ` set m = canonical_record_blocks (dp_records data)" by auto
  let ?suffix = "filter (\<lambda>(n, _). br_number b \<le> n) m"
  have sorted: "sorted_wrt (<) (map fst ?suffix)"
    using ok(1) unfolding btree_ok_def by (simp add: sorted_wrt_map sorted_wrt_filter)
  have mem: "(br_number b, b) \<in> set ?suffix" using b by (auto dest: map_of_SomeD)
  then obtain first rest where suffix: "?suffix = first # rest" by (cases ?suffix) auto
  have "br_number b \<le> fst first" using suffix by (metis (mono_tags, lifting) case_prodD filter_eq_ConsD prod.collapse)
  with sorted mem suffix have "first = (br_number b, b)" by force
  then have chain: "map snd ?suffix = b # map snd rest" using suffix by simp
  from assms m b chain obtain t where "descend b (map snd rest) = Some t" "follows_head c t"
    by (auto simp: delivery_certifies_reorg_tip_def split: option.splits)
  moreover from this(1) have "linked (b # map snd rest)" "t = last (b # map snd rest)" using descend_Some by blast+
  moreover have "set (b # map snd rest) = snd ` set ?suffix" using chain by (metis set_map)
  moreover have "snd ` set ?suffix = {b' \<in> snd ` set m. br_number b \<le> br_number b'}" using ok(2) by force
  moreover have "follows_head c t \<Longrightarrow> cur_canonical_head c = Some t \<and> unat (cur_next_block c) = Suc (unat (br_number t))"
    by (auto simp: follows_head_def is_some_and_def u64_simps split: option.splits)
  ultimately show ?thesis using blocks by metis
qed

end
