(* ===== verification/Service_Invariant.thy ===== *)
theory Service_Invariant
  imports Event_Service Outbox
begin

text \<open>
  The event service under interleaving: what a task may assume of the shared state whenever it
  runs. A task that holds the lease of a session is the only one that changes the session's row,
  so what it has cached of the row stays true across every suspension point.
\<close>

section \<open>Sending keeps the task's variables\<close>

lemma break_loop_simps [simp]:
  "tk_metadata (break_loop t) = tk_metadata t" "tk_identity (break_loop t) = tk_identity t"
  "tk_desired_state (break_loop t) = tk_desired_state t" "tk_cursor (break_loop t) = tk_cursor t"
  "tk_required_reorg_anchor (break_loop t) = tk_required_reorg_anchor t"
  "tk_has_pending (break_loop t) = tk_has_pending t" "tk_session_lease (break_loop t) = tk_session_lease t"
  "tk_position_confirmed (break_loop t) = tk_position_confirmed t" "tk_outbound (break_loop t) = tk_outbound t"
  "tk_at (break_loop t) = (case tk_session_lease t of None \<Rightarrow> Closed | Some _ \<Rightarrow> Releasing)"
  by (simp_all add: break_loop_def)

lemma continue_loop_simps [simp]:
  "tk_metadata (continue_loop t) = tk_metadata t" "tk_identity (continue_loop t) = tk_identity t"
  "tk_desired_state (continue_loop t) = tk_desired_state t" "tk_cursor (continue_loop t) = tk_cursor t"
  "tk_required_reorg_anchor (continue_loop t) = tk_required_reorg_anchor t"
  "tk_has_pending (continue_loop t) = tk_has_pending t" "tk_session_lease (continue_loop t) = tk_session_lease t"
  "tk_position_confirmed (continue_loop t) = tk_position_confirmed t" "tk_outbound (continue_loop t) = tk_outbound t"
  "tk_at (continue_loop t) = Selecting"
  by (simp_all add: continue_loop_def)

lemma send_status_simps [simp]:
  "tk_metadata (send_status ch s t) = tk_metadata t" "tk_identity (send_status ch s t) = tk_identity t"
  "tk_desired_state (send_status ch s t) = tk_desired_state t" "tk_cursor (send_status ch s t) = tk_cursor t"
  "tk_required_reorg_anchor (send_status ch s t) = tk_required_reorg_anchor t"
  "tk_has_pending (send_status ch s t) = tk_has_pending t" "tk_session_lease (send_status ch s t) = tk_session_lease t"
  "tk_position_confirmed (send_status ch s t) = tk_position_confirmed t" "tk_at (send_status ch s t) = tk_at t"
  "tk_outbound (send_status ch s t) = tk_outbound t @ (if ch_send ch then [Err s] else [])"
  by (simp_all add: send_status_def)

lemma send_outbound_simps [simp]:
  "fst (send_outbound ch m t) = ch_send ch"
  "tk_metadata (snd (send_outbound ch m t)) = tk_metadata t"
  "tk_identity (snd (send_outbound ch m t)) = tk_identity t"
  "tk_desired_state (snd (send_outbound ch m t)) = tk_desired_state t"
  "tk_cursor (snd (send_outbound ch m t)) = tk_cursor t"
  "tk_required_reorg_anchor (snd (send_outbound ch m t)) = tk_required_reorg_anchor t"
  "tk_has_pending (snd (send_outbound ch m t)) = tk_has_pending t"
  "tk_session_lease (snd (send_outbound ch m t)) = tk_session_lease t"
  "tk_position_confirmed (snd (send_outbound ch m t)) = tk_position_confirmed t"
  "tk_at (snd (send_outbound ch m t)) = tk_at t"
  "tk_outbound (snd (send_outbound ch m t)) = tk_outbound t @ (if ch_send ch then [Ok m] else [])"
  by (simp_all add: send_outbound_def)

lemma reply_conv:
  "reply ch m t = (if ch_send ch then continue_loop (snd (send_outbound ch m t)) else break_loop (snd (send_outbound ch m t)))"
  by (simp add: reply_def case_prod_beta)

section \<open>What a task knows\<close>

definition held_lease :: "'m SessionTask \<Rightarrow> SessionLease option" where
  "held_lease t = (case tk_at t of HelloLoading _ lease \<Rightarrow> Some lease | _ \<Rightarrow> tk_session_lease t)"

definition task_owner :: "'m SessionTask \<Rightarrow> session_key option" where
  "task_owner t = map_option ls_key (tk_session_lease t)"

text \<open>
  The cached variables agree with the durable session. \<open>has_pending\<close> may be false while a
  delivery is pending: a demand whose load fails reads as if nothing was pending.
\<close>

definition synced :: "PersistedSession \<Rightarrow> 'm SessionTask \<Rightarrow> bool" where
  "synced p t \<longleftrightarrow>
     tk_desired_state t = ps_desired_state p \<and> tk_cursor t = ps_acknowledged_cursor p \<and>
     tk_required_reorg_anchor t = ps_expected_reorg_tip p \<and>
     (tk_has_pending t \<longrightarrow> ps_pending_delivery p \<noteq> None)"

definition lease_live :: "'m SessionTask \<Rightarrow> bool" where
  "lease_live t \<longleftrightarrow> pred_option (\<lambda>lease. \<not> ls_retain_registry_entry lease) (tk_session_lease t)"

definition settled :: "(session_key \<Rightarrow> PersistedSession) \<Rightarrow> 'm SessionTask \<Rightarrow> bool" where
  "settled view t \<longleftrightarrow>
     lease_live t \<and> tk_identity t = task_owner t \<and>
     (tk_identity t = None \<longrightarrow> \<not> tk_position_confirmed t) \<and>
     pred_option (\<lambda>k. synced (view k) t) (task_owner t)"

definition serving :: "(session_key \<Rightarrow> PersistedSession) \<Rightarrow> session_key \<Rightarrow> 'm SessionTask \<Rightarrow> bool" where
  "serving view k t \<longleftrightarrow> settled view t \<and> task_owner t = Some k \<and> tk_position_confirmed t"

definition greeting :: "(session_key \<Rightarrow> PersistedSession) \<Rightarrow> Hello \<Rightarrow> HelloPosition \<Rightarrow> PersistedSession \<Rightarrow> 'm SessionTask \<Rightarrow> bool" where
  "greeting view hello position p t \<longleftrightarrow>
     lease_live t \<and> tk_identity t = None \<and> \<not> tk_position_confirmed t \<and>
     task_owner t = Some (he_session_id hello, he_chain_id hello) \<and>
     p = view (he_session_id hello, he_chain_id hello) \<and> validate_hello_position hello p = Ok position"

text \<open>What holds at each suspension point, given the durable sessions.\<close>

definition task_ok :: "(session_key \<Rightarrow> PersistedSession) \<Rightarrow> 'm SessionTask \<Rightarrow> bool" where
  "task_ok view t \<longleftrightarrow> lease_live t \<and>
     (case tk_at t of
        Selecting \<Rightarrow> settled view t
      | HelloLoading hello lease \<Rightarrow>
          tk_session_lease t = None \<and> tk_identity t = None \<and> \<not> tk_position_confirmed t \<and>
          \<not> ls_retain_registry_entry lease \<and> ls_key lease = (he_session_id hello, he_chain_id hello)
      | HelloPreparing hello position p _ _ \<Rightarrow> greeting view hello position p t
      | HelloActivating hello position p _ _ \<Rightarrow> greeting view hello position p t
      | ApplyPreparing request _ \<Rightarrow> serving view (ads_session_id request, ads_chain_id request) t
      | ApplyPrepareAborting request _ _ \<Rightarrow> serving view (ads_session_id request, ads_chain_id request) t
      | ApplyRejectionAborting request _ _ \<Rightarrow> serving view (ads_session_id request, ads_chain_id request) t
      | ApplyActivating request _ applied _ \<Rightarrow>
          (let k = (ads_session_id request, ads_chain_id request) in
           tk_identity t = Some k \<and> task_owner t = Some k \<and> ps_desired_state (view k) = Some request \<and>
           tk_cursor t = ps_acknowledged_cursor (view k) \<and> tk_required_reorg_anchor t = ps_expected_reorg_tip (view k) \<and>
           dsa_session_id applied = ads_session_id request \<and> dsa_revision applied = ads_new_revision request)
      | AcknowledgementReconciling acknowledgement cursor \<Rightarrow>
          (\<exists>chain_id. let k = (ack_session_id acknowledgement, chain_id) in
             tk_identity t = Some k \<and> task_owner t = Some k \<and> tk_desired_state t = ps_desired_state (view k) \<and>
             tk_required_reorg_anchor t = ps_expected_reorg_tip (view k) \<and> ps_pending_delivery (view k) = None \<and>
             ps_acknowledged_cursor (view k) = Some cursor \<and> cur_batch_sequence cursor = ack_sequence acknowledgement)
      | AwaitingDelivery request \<Rightarrow>
          (\<exists>k. serving view k t) \<and> tk_desired_state t = Some (dr_desired_state request) \<and>
          request = delivery_request t (dr_desired_state request)
      | Releasing \<Rightarrow> tk_session_lease t \<noteq> None
      | Closed \<Rightarrow> tk_session_lease t = None
      | _ \<Rightarrow> True)"

text \<open>What a message says of the durable session it is about.\<close>

definition truthful :: "(session_key \<Rightarrow> PersistedSession) \<Rightarrow> session_key option \<Rightarrow> ServerMessage \<Rightarrow> bool" where
  "truthful view identity m \<longleftrightarrow>
     (case m of
        ServerHelloAccepted h \<Rightarrow>
          (\<exists>k. identity = Some k \<and> k = (ha_session_id h, ha_chain_id h) \<and>
             ha_committed_revision h = committed_revision (ps_desired_state (view k)) \<and>
             ha_desired_state h = ps_desired_state (view k) \<and> ha_acknowledged_cursor h = ps_acknowledged_cursor (view k) \<and>
             ha_runtime_checkpoint_position h = Some \<lparr>rcp_cursor = ps_runtime_checkpoint_cursor (view k)\<rparr>)
      | ServerDesiredStateApplied a \<Rightarrow>
          (\<exists>k request. identity = Some k \<and> fst k = dsa_session_id a \<and> ps_desired_state (view k) = Some request \<and>
             ads_new_revision request = dsa_revision a)
      | ServerDelivery d \<Rightarrow> (\<exists>k. identity = Some k \<and> ps_pending_delivery (view k) = Some d)
      | ServerAcknowledgementCommitted a \<Rightarrow>
          (\<exists>k cursor. identity = Some k \<and> fst k = ac_session_id a \<and> ac_cursor a = Some cursor \<and>
             ps_acknowledged_cursor (view k) = Some cursor \<and> cur_batch_sequence cursor = ac_sequence a)
      | _ \<Rightarrow> True)"

text \<open>
  The Hello a task is negotiating, from its receipt to its answer, and a step that accepts that
  very Hello with its position proved against the durable session it names.
\<close>

definition hello_of :: "Suspension \<Rightarrow> Hello option" where
  "hello_of at =
     (case at of
        HelloLoading hello _ \<Rightarrow> Some hello
      | HelloPreparing hello _ _ _ _ \<Rightarrow> Some hello
      | HelloActivating hello _ _ _ _ \<Rightarrow> Some hello
      | _ \<Rightarrow> None)"

definition proven :: "(session_key \<Rightarrow> PersistedSession) \<Rightarrow> 'm SessionTask \<Rightarrow> 'm SessionTask \<Rightarrow> bool" where
  "proven view t t' \<longleftrightarrow>
     (\<exists>hello. hello_of (tk_at t) = Some hello \<and> tk_identity t' = Some (he_session_id hello, he_chain_id hello) \<and>
        validate_hello_position hello (view (he_session_id hello, he_chain_id hello)) = Ok Confirmed)"

section \<open>The effect of one step\<close>

definition registry_moves ::
    "'m ServiceConfig \<Rightarrow> EventService \<Rightarrow> 'm SessionTask \<Rightarrow> EventService \<Rightarrow> 'm SessionTask \<Rightarrow> bool" where
  "registry_moves cfg svc t svc' t' \<longleftrightarrow>
     (let active = svc_active_sessions svc; active' = svc_active_sessions svc';
          gauge = mt_active_sessions (svc_metrics svc); gauge' = mt_active_sessions (svc_metrics svc') in
      held_lease t' = held_lease t \<and> active' = active \<and> gauge' = gauge \<or>
      (\<exists>lease. held_lease t = None \<and> held_lease t' = Some lease \<and> \<not> ls_retain_registry_entry lease \<and>
         ls_key lease \<notin> active \<and> card active < lim_max_active_sessions (cfg_limits cfg) \<and>
         active' = insert (ls_key lease) active \<and> gauge' = gauge + 1) \<or>
      (\<exists>lease. held_lease t = Some lease \<and> held_lease t' = None \<and>
         (active' = active \<and> gauge' = gauge \<or>
          ls_key lease \<in> active \<and> active' = active - {ls_key lease} \<and> gauge' = gauge - 1)))"

definition good_step ::
    "'m ServiceConfig \<Rightarrow> EventService \<Rightarrow> 'm SessionTask \<Rightarrow> EventService \<Rightarrow> 'm SessionTask \<Rightarrow> bool" where
  "good_step cfg svc t svc' t' \<longleftrightarrow>
     (let view = session_view (cfg_store cfg) (svc_store svc);
          view' = session_view (cfg_store cfg) (svc_store svc') in
      store_inv (cfg_store cfg) (svc_store svc') \<and>
      (\<forall>k. view' k \<noteq> view k \<longrightarrow> task_owner t = Some k \<and> tk_position_confirmed t) \<and>
      (tk_position_confirmed t' \<longrightarrow> tk_position_confirmed t \<or> proven view' t t') \<and>
      task_ok view' t' \<and> registry_moves cfg svc t svc' t' \<and>
      (\<exists>ms. tk_outbound t' = tk_outbound t @ ms \<and>
         (\<forall>m. Ok m \<in> set ms \<longrightarrow> truthful view' (tk_identity t') m)))"

subsection \<open>Frames\<close>

lemmas task_defs = settled_def task_owner_def synced_def lease_live_def

lemma settled_frame [simp]:
  "settled v (t\<lparr>tk_at := a\<rparr>) = settled v t" "settled v (t\<lparr>tk_outbound := out\<rparr>) = settled v t"
  "settled v (t\<lparr>tk_delivery_requested := b\<rparr>) = settled v t" "settled v (t\<lparr>tk_pending_was_sent := b\<rparr>) = settled v t"
  "settled v (continue_loop t) = settled v t" "settled v (snd (send_outbound ch m t)) = settled v t"
  by (simp_all add: task_defs continue_loop_def send_outbound_def)

lemma task_owner_frame [simp]:
  "task_owner (t\<lparr>tk_at := a\<rparr>) = task_owner t" "task_owner (continue_loop t) = task_owner t"
  "task_owner (snd (send_outbound ch m t)) = task_owner t" "task_owner (t\<lparr>tk_delivery_requested := b\<rparr>) = task_owner t"
  by (simp_all add: task_owner_def)

lemma lease_live_frame [simp]:
  "lease_live (t\<lparr>tk_at := a\<rparr>) = lease_live t" "lease_live (break_loop t) = lease_live t"
  "lease_live (continue_loop t) = lease_live t" "lease_live (snd (send_outbound ch m t)) = lease_live t"
  "lease_live (send_status ch s t) = lease_live t" "lease_live (t\<lparr>tk_delivery_requested := b\<rparr>) = lease_live t"
  "lease_live (t\<lparr>tk_desired_state := ds\<rparr>) = lease_live t"
  by (simp_all add: lease_live_def)

lemma settled_forget:
  "settled v t \<Longrightarrow> settled v (t\<lparr>tk_has_pending := False, tk_pending_was_sent := w, tk_delivery_requested := b\<rparr>)"
  by (auto simp: task_defs pred_option_def)

lemma settled_live: "settled v t \<Longrightarrow> lease_live t"
  by (simp add: settled_def)

lemma held_lease_simps [simp]:
  "held_lease (break_loop t) = tk_session_lease t" "held_lease (continue_loop t) = tk_session_lease t"
  "held_lease (reply ch m t) = tk_session_lease t"
  by (auto simp: held_lease_def reply_conv split: option.split)

lemma task_ok_break: "lease_live t \<Longrightarrow> task_ok v (break_loop t)"
  by (simp add: task_ok_def split: option.split)

lemma task_ok_continue: "settled v t \<Longrightarrow> task_ok v (continue_loop t)"
  by (simp add: task_ok_def settled_live)

lemma task_ok_reply: "settled v t \<Longrightarrow> task_ok v (reply ch m t)"
  by (simp add: reply_conv task_ok_break task_ok_continue settled_live)

lemma reply_outbound: "tk_outbound (reply ch m t) = tk_outbound t @ (if ch_send ch then [Ok m] else [])"
  by (simp add: reply_conv)

lemma reply_identity [simp]: "tk_identity (reply ch m t) = tk_identity t"
    and reply_confirmed [simp]: "tk_position_confirmed (reply ch m t) = tk_position_confirmed t"
  by (simp_all add: reply_conv)

text \<open>A step that leaves the store and the registry alone.\<close>

definition quiet :: "EventService \<Rightarrow> EventService \<Rightarrow> bool" where
  "quiet svc svc' \<longleftrightarrow> svc_store svc' = svc_store svc \<and> svc_active_sessions svc' = svc_active_sessions svc \<and>
     mt_active_sessions (svc_metrics svc') = mt_active_sessions (svc_metrics svc)"

lemma quiet_simps [simp]:
  "quiet svc svc" "quiet svc (count_source_error svc)" "quiet svc (count_authentication_rejection svc)"
  "quiet svc (count_lease_rejection svc)"
  by (simp_all add: quiet_def count_source_error_def count_authentication_rejection_def count_lease_rejection_def)

lemma good_quiet:
  assumes "store_inv (cfg_store cfg) (svc_store svc)" and "quiet svc svc'"
    and "task_ok (session_view (cfg_store cfg) (svc_store svc)) t'" and "held_lease t' = held_lease t"
    and "tk_outbound t' = tk_outbound t @ ms"
    and "\<And>m. Ok m \<in> set ms \<Longrightarrow> truthful (session_view (cfg_store cfg) (svc_store svc)) (tk_identity t') m"
    and "tk_position_confirmed t' \<Longrightarrow> tk_position_confirmed t \<or> proven (session_view (cfg_store cfg) (svc_store svc)) t t'"
  shows "good_step cfg svc t svc' t'"
  using assms by (auto simp: good_step_def quiet_def registry_moves_def Let_def)

lemma good_reply:
  assumes "store_inv (cfg_store cfg) (svc_store svc)" and "quiet svc svc'"
    and "settled (session_view (cfg_store cfg) (svc_store svc)) t1" and "tk_session_lease t1 = held_lease t"
    and "tk_outbound t1 = tk_outbound t"
    and "truthful (session_view (cfg_store cfg) (svc_store svc)) (tk_identity t1) m"
    and "tk_position_confirmed t1 \<Longrightarrow> tk_position_confirmed t \<or> proven (session_view (cfg_store cfg) (svc_store svc)) t t1"
  shows "good_step cfg svc t svc' (reply ch m t1)"
  using assms by (intro good_quiet) (auto simp: task_ok_reply reply_outbound proven_def split: if_splits)

lemma good_error:
  assumes "store_inv (cfg_store cfg) (svc_store svc)" and "quiet svc svc'"
    and "settled (session_view (cfg_store cfg) (svc_store svc)) t1" and "tk_session_lease t1 = held_lease t"
    and "tk_outbound t1 = tk_outbound t" and "tk_position_confirmed t1 \<Longrightarrow> tk_position_confirmed t"
  shows "good_step cfg svc t svc' (send_error ch code msg rv retry t1)"
  unfolding send_error_def using assms by (intro good_reply) (simp_all add: protocol_error_def truthful_def)

lemma good_fail:
  assumes "store_inv (cfg_store cfg) (svc_store svc)" and "quiet svc svc'" and "lease_live t1"
    and "tk_session_lease t1 = held_lease t" and "tk_outbound t1 = tk_outbound t"
    and "tk_position_confirmed t1 \<Longrightarrow> tk_position_confirmed t"
  shows "good_step cfg svc t svc' (break_loop (send_status ch s t1))"
  using assms by (intro good_quiet) (auto simp: task_ok_break split: if_splits)

lemma good_suspend:
  assumes "store_inv (cfg_store cfg) (svc_store svc)" and "quiet svc svc'"
    and "task_ok (session_view (cfg_store cfg) (svc_store svc)) t'" and "held_lease t' = held_lease t"
    and "tk_outbound t' = tk_outbound t" and "tk_position_confirmed t' \<Longrightarrow> tk_position_confirmed t"
  shows "good_step cfg svc t svc' t'"
  using assms by (intro good_quiet [where ms = "[]"]) simp_all

lemma send_named_status:
  "send_internal ch t = send_status ch (UnavailableStatus ''internal event service failure'') t"
  "send_source_unavailable ch t = send_status ch (UnavailableStatus ''event source unavailable'') t"
  by (simp_all add: send_internal_def send_source_unavailable_def)

lemma held_lease_plain: "(\<And>h l. tk_at t \<noteq> HelloLoading h l) \<Longrightarrow> held_lease t = tk_session_lease t"
  by (auto simp: held_lease_def split: Suspension.split)

abbreviation good_out ::
    "'m ServiceConfig \<Rightarrow> EventService \<Rightarrow> 'm SessionTask \<Rightarrow> EventService \<times> 'm SessionTask \<Rightarrow> bool" where
  "good_out cfg svc t out \<equiv> good_step cfg svc t (fst out) (snd out)"

lemma if_P_good: "good_step cfg svc t svc' (if b then x else y) \<Longrightarrow> b \<Longrightarrow> good_step cfg svc t svc' x"
  and if_not_P_good: "good_step cfg svc t svc' (if b then x else y) \<Longrightarrow> \<not> b \<Longrightarrow> good_step cfg svc t svc' y"
  by simp_all

lemma load_session:
  "store_inv env store \<Longrightarrow> load env fails store sid cid = Ok p \<Longrightarrow> p = session_view env store (sid, cid)"
  using load_view [of env store fails sid cid p] by (simp add: sessions_key_def sql_integers)

subsection \<open>Hello\<close>

lemma selecting_settled:
  assumes "task_ok v t" and "tk_at t = Selecting"
  shows "settled v t" and "held_lease t = tk_session_lease t"
  using assms by (simp_all add: task_ok_def held_lease_def)

lemma on_hello_good:
  assumes inv: "store_inv (cfg_store cfg) (svc_store svc)" and at: "tk_at t = Selecting"
    and ok: "task_ok (session_view (cfg_store cfg) (svc_store svc)) t"
  shows "good_out cfg svc t (on_hello cfg ch svc t hello)"
proof -
  note settled = selecting_settled [OF ok at]
  note err = good_error [OF inv _ settled(1) settled(2) [symmetric] refl]
  note fail = good_fail [OF inv _ settled_live [OF settled(1)] settled(2) [symmetric] refl]
  show ?thesis
  proof (cases "tk_identity t = None \<and> he_protocol_version hello = PROTOCOL_VERSION \<and>
      \<not> lim_max_identifier_bytes (cfg_limits cfg) < length (he_session_id hello) \<and> he_session_id hello \<noteq> [] \<and>
      cfg_authorize_session cfg (tk_metadata t) (he_session_id hello) (he_chain_id hello)")
    case False
    then show ?thesis unfolding on_hello_def by (auto intro!: err)
  next
    case True
    then have idle: "tk_session_lease t = None" "\<not> tk_position_confirmed t"
      using settled(1) by (simp_all add: settled_def task_owner_def)
    show ?thesis
    proof (cases "acquire_lease svc (he_session_id hello, he_chain_id hello) (lim_max_active_sessions (cfg_limits cfg))")
      case (Inl e)
      then show ?thesis using True unfolding on_hello_def
        by (cases e) (auto intro!: err fail simp: send_named_status)
    next
      case (Inr out)
      then show ?thesis using True inv idle settled
        by (auto simp: on_hello_def acquire_lease_def good_step_def registry_moves_def Let_def task_ok_def held_lease_def
            settled_live split: if_splits)
    qed
  qed
qed

lemma accept_hello_good:
  assumes inv: "store_inv (cfg_store cfg) (svc_store svc)"
    and greet: "greeting (session_view (cfg_store cfg) (svc_store svc)) hello position p t1"
    and held: "tk_session_lease t1 = held_lease t" and out: "tk_outbound t1 = tk_outbound t"
    and asked: "hello_of (tk_at t) = Some hello"
  shows "good_out cfg svc t (accept_hello cfg ch svc t1 hello position p)"
proof -
  let ?v = "session_view (cfg_store cfg) (svc_store svc)"
  have "settled ?v (t1\<lparr>tk_identity := Some (he_session_id hello, he_chain_id hello),
      tk_position_confirmed := (position = Confirmed), tk_desired_state := ps_desired_state p,
      tk_cursor := ps_acknowledged_cursor p, tk_required_reorg_anchor := ps_expected_reorg_tip p,
      tk_has_pending := (ps_pending_delivery p \<noteq> None), tk_pending_was_sent := (ps_pending_delivery p \<noteq> None),
      tk_delivery_requested := False\<rparr>)"
    using greet by (auto simp: greeting_def task_defs)
  with inv held out greet asked show ?thesis
    unfolding accept_hello_def
    by (auto intro!: good_reply simp: quiet_def truthful_def greeting_def proven_def)
qed

lemma drop_lease_moves:
  assumes "held_lease t = Some lease" and "held_lease t' = None"
  shows "registry_moves cfg svc t (drop_lease svc lease) t'"
  using assms by (auto simp: registry_moves_def drop_lease_def Let_def)

lemma drop_lease_store [simp]: "svc_store (drop_lease svc lease) = svc_store svc"
  by (simp add: drop_lease_def)

lemma good_drop:
  assumes "store_inv (cfg_store cfg) (svc_store svc)" and "held_lease t = Some lease" and "held_lease t' = None"
    and "task_ok (session_view (cfg_store cfg) (svc_store svc)) t'" and "tk_outbound t' = tk_outbound t @ ms"
    and "\<And>m. Ok m \<in> set ms \<Longrightarrow> truthful (session_view (cfg_store cfg) (svc_store svc)) (tk_identity t') m"
    and "tk_position_confirmed t' \<Longrightarrow> tk_position_confirmed t"
  shows "good_step cfg svc t (drop_lease svc lease) t'"
  using assms by (auto simp: good_step_def Let_def drop_lease_moves)

lemma allocate_quiet: "allocate_preparation_id svc = Some (n, svc') \<Longrightarrow> quiet svc svc'"
  by (auto simp: allocate_preparation_id_def quiet_def split: option.splits)

lemma on_hello_loaded_good:
  assumes inv: "store_inv (cfg_store cfg) (svc_store svc)" and at: "tk_at t = HelloLoading hello lease"
    and ok: "task_ok (session_view (cfg_store cfg) (svc_store svc)) t"
  shows "good_out cfg svc t (on_hello_loaded cfg ch svc t hello lease)"
proof -
  let ?v = "session_view (cfg_store cfg) (svc_store svc)" and ?k = "(he_session_id hello, he_chain_id hello)"
  from ok at have free: "tk_session_lease t = None" "tk_identity t = None" "\<not> tk_position_confirmed t"
      "\<not> ls_retain_registry_entry lease" "ls_key lease = ?k"
    by (simp_all add: task_ok_def)
  have held: "held_lease t = Some lease" using at by (simp add: held_lease_def)
  have settled: "settled ?v t" using free by (simp add: task_defs)
  have err: "good_step cfg svc t (drop_lease svc lease) (send_error ch code msg rv retry t)" for code msg rv retry
    unfolding send_error_def
    by (rule good_drop [OF inv held])
      (auto simp: free task_ok_reply settled reply_outbound protocol_error_def truthful_def split: if_splits)
  show ?thesis
  proof (cases "load (cfg_store cfg) (ch_sql ch) (svc_store svc) (he_session_id hello) (he_chain_id hello)")
    case (Inl e)
    have "good_step cfg svc t (drop_lease svc lease) (break_loop (send_internal ch t))"
      by (rule good_drop [OF inv held])
        (auto simp: free task_ok_break settled_live [OF settled] send_named_status split: if_splits)
    with Inl show ?thesis by (simp add: on_hello_loaded_def)
  next
    case (Inr p)
    from load_session [OF inv this] have p: "p = ?v ?k" .
    show ?thesis
    proof (cases "\<exists>position. validate_hello_position hello p = Ok position \<and>
        \<not> is_some_and (\<lambda>d. MAX_MESSAGE_SIZE_BYTES < encoded_delivery_len (cfg_store cfg) d) (ps_pending_delivery p)")
      case False
      then show ?thesis using Inr err
        by (cases "validate_hello_position hello p") (auto simp: on_hello_loaded_def Let_def)
    next
      case True
      then obtain position where pos: "validate_hello_position hello p = Ok position"
        and fits: "\<not> is_some_and (\<lambda>d. MAX_MESSAGE_SIZE_BYTES < encoded_delivery_len (cfg_store cfg) d) (ps_pending_delivery p)"
        by blast
      let ?t = "t\<lparr>tk_session_lease := Some lease\<rparr>"
      have greet: "greeting ?v hello position p ?t" and held': "tk_session_lease ?t = held_lease t"
        using free p pos held by (simp_all add: greeting_def lease_live_def task_owner_def)
      note conv = on_hello_loaded_def Inr sum.case Let_def pos if_not_P [OF fits]
      show ?thesis
      proof (cases "ps_desired_state p")
        case None
        from accept_hello_good [OF inv greet held', of ch] at show ?thesis by (simp add: conv None hello_of_def)
      next
        case (Some committed)
        show ?thesis
        proof (cases "allocate_preparation_id svc")
          case None
          show ?thesis unfolding conv Some None using inv held' greet
            by (auto intro!: good_quiet simp: task_ok_break greeting_def protocol_error_def truthful_def split: if_splits)
        next
          case alloc: (Some x)
          have "quiet svc (snd x)" using allocate_quiet [of svc "fst x" "snd x"] alloc by simp
          then show ?thesis unfolding conv Some alloc using inv held' greet
            by (auto intro!: good_suspend simp: task_ok_def held_lease_def greeting_def lease_live_def task_owner_def
                split: prod.splits)
        qed
      qed
    qed
  qed
qed

lemma on_hello_prepared_good:
  assumes inv: "store_inv (cfg_store cfg) (svc_store svc)" and at: "tk_at t = HelloPreparing hello position p n ds"
    and ok: "task_ok (session_view (cfg_store cfg) (svc_store svc)) t"
  shows "good_out cfg svc t (on_hello_prepared svc t hello position p n ds outcome)"
  using inv ok at
  by (cases "source_call outcome")
    (auto intro!: good_suspend simp: on_hello_prepared_def task_ok_def held_lease_def greeting_def task_owner_def)

lemma on_hello_activated_good:
  assumes inv: "store_inv (cfg_store cfg) (svc_store svc)" and at: "tk_at t = HelloActivating hello position p n ds"
    and ok: "task_ok (session_view (cfg_store cfg) (svc_store svc)) t"
  shows "good_out cfg svc t (on_hello_activated cfg ch svc t hello position p n ds outcome)"
proof (cases "source_call outcome")
  case (Inl e)
  then show ?thesis using inv ok at
    by (auto intro!: good_suspend simp: on_hello_activated_def task_ok_def held_lease_def)
next
  case (Inr u)
  have "greeting (session_view (cfg_store cfg) (svc_store svc)) hello position p t" using ok at by (simp add: task_ok_def)
  from accept_hello_good [OF inv this, of t ch] Inr at show ?thesis
    by (simp add: on_hello_activated_def held_lease_def hello_of_def)
qed

text \<open>A task that ends the stream after a failed source call.\<close>

lemma source_failure_good:
  assumes "store_inv (cfg_store cfg) (svc_store svc)" and "\<And>h l. tk_at t \<noteq> HelloLoading h l"
    and "task_ok (session_view (cfg_store cfg) (svc_store svc)) t" and "quiet svc svc'"
  shows "good_step cfg svc t svc' (break_loop (send_source_unavailable ch t))"
    and "good_step cfg svc t svc' (break_loop (send_internal ch t))"
  unfolding send_named_status using assms
  by (auto intro!: good_fail simp: held_lease_plain task_ok_def)

subsection \<open>Desired state\<close>

lemma settled_owner: "settled v t \<Longrightarrow> task_owner t = tk_identity t"
  by (simp add: settled_def)

lemma servingD:
  assumes "serving v k t"
  shows "settled v t" "task_owner t = Some k" "tk_identity t = Some k" "tk_position_confirmed t" "synced (v k) t"
  using assms by (auto simp: serving_def settled_def)

lemma serving_at [simp]: "serving v k (t\<lparr>tk_at := a\<rparr>) = serving v k t"
  by (simp add: serving_def)

lemma on_apply_good:
  assumes inv: "store_inv (cfg_store cfg) (svc_store svc)" and at: "tk_at t = Selecting"
    and ok: "task_ok (session_view (cfg_store cfg) (svc_store svc)) t"
  shows "good_out cfg svc t (on_apply cfg ch svc t request)"
proof -
  note settled = selecting_settled [OF ok at]
  note err = good_error [OF inv _ settled(1) settled(2) [symmetric] refl]
  have go: "good_step cfg svc t svc1 (t\<lparr>tk_at := ApplyPreparing request n\<rparr>)"
    if "tk_identity t = Some (ads_session_id request, ads_chain_id request)" "tk_position_confirmed t"
      "allocate_preparation_id svc = Some (n, svc1)" for n svc1
  proof -
    have "serving (session_view (cfg_store cfg) (svc_store svc)) (ads_session_id request, ads_chain_id request) t"
      using that(1,2) settled(1) settled_owner [OF settled(1)] by (simp add: serving_def)
    with inv settled allocate_quiet [OF that(3)] show ?thesis
      by (intro good_suspend) (simp_all add: task_ok_def held_lease_def settled_live)
  qed
  show ?thesis
    unfolding on_apply_def proof_required_def
    by (auto intro!: err go split: option.split sum.split prod.split)
qed

lemma apply_answer:
  assumes "apply_desired_state_with_cursor_and_limit env fails store r prepared mx ms = Ok ((a, changed), store')"
  shows "dsa_session_id a = ads_session_id r" and "dsa_revision a = ads_new_revision r"
proof -
  have "dsa_session_id a = ads_session_id r \<and> dsa_revision a = ads_new_revision r"
    if "enqueue_activation env fails store r prepared mx row rv = Ok ((a, changed), store')" for row rv
    using that unfolding enqueue_activation_def by (auto simp: bind_res_Ok_iff Let_def)
  moreover have "dsa_session_id a = ads_session_id r \<and> dsa_revision a = ads_new_revision r"
    if "replay_desired_state env r row c rv = Ok a" for row c rv
    using that unfolding replay_desired_state_def by (auto simp: bind_res_Ok_iff Let_def split: option.splits if_splits)
  ultimately have "dsa_session_id a = ads_session_id r \<and> dsa_revision a = ads_new_revision r"
    using assms unfolding apply_desired_state_with_cursor_and_limit_def
    by (auto simp: bind_res_Ok_iff if_Err_Ok_iff Let_def split: if_splits)
  then show "dsa_session_id a = ads_session_id r" "dsa_revision a = ads_new_revision r" by simp_all
qed

text \<open>What applying a desired state does to the durable sessions.\<close>

lemma apply_view:
  assumes laws: "codec_laws env" and inv: "store_inv env store" and k: "k = (ads_session_id r, ads_chain_id r)"
    and run: "apply_desired_state_with_cursor_and_limit env fails store r prepared mx ms = Ok ((a, changed), store')"
  shows "store_inv env store'" and "k' \<noteq> k \<Longrightarrow> session_view env store' k' = session_view env store k'"
    and "ps_desired_state (session_view env store' k) = Some r"
    and "ps_acknowledged_cursor (session_view env store' k) = ps_acknowledged_cursor (session_view env store k)"
    and "ps_expected_reorg_tip (session_view env store' k) = ps_expected_reorg_tip (session_view env store k)"
  using apply_effect [OF laws inv k refl run] inv
  by (auto dest: store_inv_write [OF inv])

lemma good_commit:
  assumes "store_inv (cfg_store cfg) (svc_store svc')" and "task_owner t = Some k" and "tk_position_confirmed t"
    and "\<And>k'. k' \<noteq> k \<Longrightarrow> session_view (cfg_store cfg) (svc_store svc') k' = session_view (cfg_store cfg) (svc_store svc) k'"
    and "svc_active_sessions svc' = svc_active_sessions svc"
    and "mt_active_sessions (svc_metrics svc') = mt_active_sessions (svc_metrics svc)"
    and "task_ok (session_view (cfg_store cfg) (svc_store svc')) t'" and "held_lease t' = held_lease t"
    and "tk_outbound t' = tk_outbound t @ ms"
    and "\<And>m. Ok m \<in> set ms \<Longrightarrow> truthful (session_view (cfg_store cfg) (svc_store svc')) (tk_identity t') m"
  shows "good_step cfg svc t svc' t'"
proof -
  have "registry_moves cfg svc t svc' t'" using assms(5,6,8) by (simp add: registry_moves_def)
  moreover have "task_owner t = Some k' \<and> tk_position_confirmed t"
    if "session_view (cfg_store cfg) (svc_store svc') k' \<noteq> session_view (cfg_store cfg) (svc_store svc) k'" for k'
    using that assms(2,3,4) by metis
  ultimately show ?thesis using assms(1,3,7,9,10) unfolding good_step_def Let_def by blast
qed

lemma on_apply_prepared_good:
  assumes laws: "codec_laws (cfg_store cfg)" and inv: "store_inv (cfg_store cfg) (svc_store svc)"
    and at: "tk_at t = ApplyPreparing request n"
    and ok: "task_ok (session_view (cfg_store cfg) (svc_store svc)) t"
  shows "good_out cfg svc t (on_apply_prepared cfg ch svc t request n outcome)"
proof -
  let ?k = "(ads_session_id request, ads_chain_id request)"
  from ok at have serving: "serving (session_view (cfg_store cfg) (svc_store svc)) ?k t" by (simp add: task_ok_def)
  note facts = servingD [OF serving]
  have held: "held_lease t = tk_session_lease t" using at by (simp add: held_lease_def)
  show ?thesis
  proof (cases "source_call outcome")
    case (Inl e)
    then show ?thesis using inv serving held
      by (auto intro!: good_suspend simp: on_apply_prepared_def task_ok_def held_lease_def settled_live [OF facts(1)])
  next
    case prepared: (Inr c)
    show ?thesis
    proof (cases "apply_desired_state_with_cursor_and_limit (cfg_store cfg) (ch_sql ch) (svc_store svc) request c
        (delivery_limit (cfg_limits cfg)) (lim_max_persisted_sessions (cfg_limits cfg))")
      case (Inl e)
      with prepared show ?thesis using inv serving held
        by (auto intro!: good_suspend simp: on_apply_prepared_def task_ok_def held_lease_def settled_live [OF facts(1)])
    next
      case (Inr out)
      obtain a changed store where out: "out = ((a, changed), store)" by (metis prod.exhaust)
      note run = Inr [unfolded out]
      note view = apply_view [OF laws inv refl run]
      note answer = apply_answer [OF run]
      have "task_ok (session_view (cfg_store cfg) store) (t\<lparr>tk_at := ApplyActivating request n a changed\<rparr>)"
        using facts view(3,4,5) answer by (simp add: task_ok_def Let_def synced_def settled_live [OF facts(1)])
      then show ?thesis
        unfolding on_apply_prepared_def prepared sum.case run prod.case Let_def fst_conv snd_conv
        by (intro good_commit [where k = ?k and ms = "[]"])
          (simp_all add: view(1) facts at held_lease_def view(2))
    qed
  qed
qed

lemma on_apply_prepare_aborted_good:
  assumes inv: "store_inv (cfg_store cfg) (svc_store svc)" and at: "tk_at t = ApplyPrepareAborting request n e"
    and ok: "task_ok (session_view (cfg_store cfg) (svc_store svc)) t"
  shows "good_out cfg svc t (on_apply_prepare_aborted ch svc t request e outcome)"
proof -
  from ok at have settled: "settled (session_view (cfg_store cfg) (svc_store svc)) t"
    by (simp add: task_ok_def serving_def)
  have held: "tk_session_lease t = held_lease t" using at by (simp add: held_lease_def)
  show ?thesis
    unfolding on_apply_prepare_aborted_def using at
    by (auto intro!: good_error [OF inv _ settled held refl] source_failure_good [OF inv _ ok]
        split: sum.split prod.split)
qed

lemma on_apply_rejection_aborted_good:
  assumes inv: "store_inv (cfg_store cfg) (svc_store svc)" and at: "tk_at t = ApplyRejectionAborting request n e"
    and ok: "task_ok (session_view (cfg_store cfg) (svc_store svc)) t"
  shows "good_out cfg svc t (on_apply_rejection_aborted ch svc t e outcome)"
proof -
  from ok at have settled: "settled (session_view (cfg_store cfg) (svc_store svc)) t"
    by (simp add: task_ok_def serving_def)
  have held: "tk_session_lease t = held_lease t" using at by (simp add: held_lease_def)
  show ?thesis
    unfolding on_apply_rejection_aborted_def using at
    by (auto intro!: good_error [OF inv _ settled held refl] source_failure_good [OF inv _ ok]
        split: sum.split prod.split)
qed

lemma on_apply_activated_good:
  assumes inv: "store_inv (cfg_store cfg) (svc_store svc)" and at: "tk_at t = ApplyActivating request n applied new"
    and ok: "task_ok (session_view (cfg_store cfg) (svc_store svc)) t"
  shows "good_out cfg svc t (on_apply_activated cfg ch svc t request n applied new outcome)"
proof -
  let ?v = "session_view (cfg_store cfg) (svc_store svc)" and ?k = "(ads_session_id request, ads_chain_id request)"
  have live: "lease_live t" and held: "held_lease t = tk_session_lease t"
    using ok at by (simp_all add: task_ok_def held_lease_def)
  from ok at have facts: "tk_identity t = Some ?k" "task_owner t = Some ?k" "ps_desired_state (?v ?k) = Some request"
      "tk_cursor t = ps_acknowledged_cursor (?v ?k)" "tk_required_reorg_anchor t = ps_expected_reorg_tip (?v ?k)"
      "dsa_session_id applied = ads_session_id request" "dsa_revision applied = ads_new_revision request"
    by (simp_all add: task_ok_def Let_def)
  show ?thesis
  proof (cases "source_call outcome")
    case (Inl e)
    then show ?thesis using inv live held
      by (auto intro!: good_suspend simp: on_apply_activated_def task_ok_def held_lease_def)
  next
    case active: (Inr u)
    show ?thesis
    proof (cases "load (cfg_store cfg) (ch_sql ch) (svc_store svc) (ads_session_id request) (ads_chain_id request)")
      case (Inl e)
      with active show ?thesis using inv live held
        by (auto intro!: good_fail simp: on_apply_activated_def Let_def send_named_status)
    next
      case (Inr p)
      from load_session [OF inv this] have p: "p = ?v ?k" .
      have "settled ?v (t\<lparr>tk_desired_state := Some request, tk_has_pending := (ps_pending_delivery p \<noteq> None),
          tk_pending_was_sent := w, tk_delivery_requested := False\<rparr>)" for w
        using live facts p by (auto simp: task_defs)
      then show ?thesis using active Inr inv held facts
        by (auto intro!: good_reply simp: on_apply_activated_def Let_def truthful_def)
    qed
  qed
qed

subsection \<open>Acknowledgement and demand\<close>

text \<open>What acknowledging does to the durable sessions.\<close>

lemma ack_view:
  assumes laws: "codec_laws env" and inv: "store_inv env store" and k: "k = (ack_session_id a, chain_id)"
    and run: "acknowledge_with_status env fails store chain_id a = Ok ((c, changed), store')"
  shows "store_inv env store'" and "k' \<noteq> k \<Longrightarrow> session_view env store' k' = session_view env store k'"
    and "ps_acknowledged_cursor (session_view env store' k) = Some c" and "cur_batch_sequence c = ack_sequence a"
    and "ps_pending_delivery (session_view env store' k) = None"
    and "ps_desired_state (session_view env store' k) = ps_desired_state (session_view env store k)"
proof -
  let ?p = "session_view env store k"
  note effect = ack_effect [OF laws inv k refl run]
  have seq: "cur_batch_sequence c = ack_sequence a" if "acks ?p d c p'" "del_sequence d = ack_sequence a" for d p'
  proof -
    from that have d: "ps_pending_delivery ?p = Some d" and c: "del_cursor d = Some c" by (auto simp: acks_def)
    then obtain row where row: "select_row store k = Some row"
      by (cases "select_row store k") (auto simp: session_view_def persisted_default_def)
    from row_decodes [OF inv row refl] have valid: "valid_session env k (row_revision row) (row_activation_sequence row) ?p"
      by blast
    from pending_facts [OF valid d] obtain ds where "next_in_flight ds (ps_acknowledged_cursor ?p) d" by blast
    with c that(2) show ?thesis by (auto simp: next_in_flight_def)
  qed
  from effect consider "store' = store" "ps_pending_delivery ?p = None" "ps_acknowledged_cursor ?p = Some c"
      "cur_batch_sequence c = ack_sequence a"
    | d p' row where "acks ?p d c p'" "del_sequence d = ack_sequence a" "load_row env k row = Ok p'" "session_ok p'"
      "store' = write_row store k row"
    by (elim disjE conjE exE) metis+
  then show "store_inv env store'" "k' \<noteq> k \<Longrightarrow> session_view env store' k' = session_view env store k'"
    "ps_acknowledged_cursor (session_view env store' k) = Some c" "cur_batch_sequence c = ack_sequence a"
    "ps_pending_delivery (session_view env store' k) = None"
    "ps_desired_state (session_view env store' k) = ps_desired_state ?p"
    by (cases; use inv seq store_inv_write [OF inv] in \<open>auto simp: acks_def\<close>)+
qed

lemma on_acknowledge_good:
  assumes laws: "codec_laws (cfg_store cfg)" and inv: "store_inv (cfg_store cfg) (svc_store svc)"
    and at: "tk_at t = Selecting" and ok: "task_ok (session_view (cfg_store cfg) (svc_store svc)) t"
  shows "good_out cfg svc t (on_acknowledge cfg ch svc t a)"
proof (cases "\<exists>chain_id. tk_identity t = Some (ack_session_id a, chain_id) \<and> tk_position_confirmed t")
  case False
  note settled = selecting_settled [OF ok at]
  show ?thesis unfolding on_acknowledge_def proof_required_def using False
    by (auto intro!: good_error [OF inv _ settled(1) settled(2) [symmetric] refl] split: option.split)
next
  case True
  then obtain chain_id where id: "tk_identity t = Some (ack_session_id a, chain_id)" and conf: "tk_position_confirmed t"
    by blast
  let ?k = "(ack_session_id a, chain_id)"
  note settled = selecting_settled [OF ok at]
  have serving: "serving (session_view (cfg_store cfg) (svc_store svc)) ?k t"
    using id conf settled(1) settled_owner [OF settled(1)] by (simp add: serving_def)
  note facts = servingD [OF serving]
  have live: "lease_live t" by (rule settled_live [OF settled(1)])
  note conv = on_acknowledge_def id option.case prod.case
  show ?thesis
  proof (cases "acknowledge_with_status (cfg_store cfg) (ch_sql ch) (svc_store svc) chain_id a")
    case (Inl e)
    then show ?thesis unfolding conv using conf
      by (simp add: source_failure_good(2) [OF inv _ ok] at)
  next
    case (Inr out)
    obtain c changed store where out: "out = ((c, changed), store)" by (metis prod.exhaust)
    note run = Inr [unfolded out]
    note view = ack_view [OF laws inv refl run]
    show ?thesis
    proof (cases "load (cfg_store cfg) (ch_reload ch) store (ack_session_id a) chain_id")
      case (Inl e)
      have "good_step cfg svc t (svc\<lparr>svc_store := store\<rparr>) (break_loop (send_internal ch t))"
        by (rule good_commit [where k = ?k and ms = "if ch_send ch then [Err (UnavailableStatus ''internal event service failure'')] else []"])
          (auto simp: view(1,2) facts settled(2) task_ok_break live send_named_status)
      with Inl run show ?thesis unfolding conv using conf by (simp add: Let_def)
    next
      case (Inr p)
      from load_session [OF view(1) this] have p: "p = session_view (cfg_store cfg) store ?k" .
      have "task_ok (session_view (cfg_store cfg) store)
          (t\<lparr>tk_required_reorg_anchor := ps_expected_reorg_tip p, tk_at := AcknowledgementReconciling a c\<rparr>)"
        using facts view(3-6) live p
        by (auto simp: task_ok_def Let_def synced_def lease_live_def task_owner_def)
      then have "good_step cfg svc t (svc\<lparr>svc_store := store, svc_metrics := m\<rparr>)
          (t\<lparr>tk_required_reorg_anchor := ps_expected_reorg_tip p, tk_at := AcknowledgementReconciling a c\<rparr>)"
        if "mt_active_sessions m = mt_active_sessions (svc_metrics svc)" for m
        using that by (intro good_commit [where k = ?k and ms = "[]"])
          (simp_all add: view(1,2) facts at held_lease_def)
      with Inr run show ?thesis unfolding conv using conf by (simp add: Let_def)
    qed
  qed
qed

lemma on_acknowledgement_reconciled_good:
  assumes inv: "store_inv (cfg_store cfg) (svc_store svc)" and at: "tk_at t = AcknowledgementReconciling a c"
    and ok: "task_ok (session_view (cfg_store cfg) (svc_store svc)) t"
  shows "good_out cfg svc t (on_acknowledgement_reconciled ch svc t a c outcome)"
proof -
  let ?v = "session_view (cfg_store cfg) (svc_store svc)"
  from ok at obtain chain_id where facts: "tk_identity t = Some (ack_session_id a, chain_id)"
      "task_owner t = Some (ack_session_id a, chain_id)" "tk_desired_state t = ps_desired_state (?v (ack_session_id a, chain_id))"
      "tk_required_reorg_anchor t = ps_expected_reorg_tip (?v (ack_session_id a, chain_id))"
      "ps_acknowledged_cursor (?v (ack_session_id a, chain_id)) = Some c" "cur_batch_sequence c = ack_sequence a"
    by (auto simp: task_ok_def Let_def)
  have live: "lease_live t" using ok by (simp add: task_ok_def)
  have held: "held_lease t = tk_session_lease t" using at by (simp add: held_lease_def)
  let ?m = "ServerAcknowledgementCommitted \<lparr>ac_session_id = ack_session_id a, ac_sequence = ack_sequence a, ac_cursor = Some c\<rparr>"
  have settled: "settled ?v ((snd (send_outbound ch ?m t))\<lparr>tk_cursor := Some c, tk_has_pending := False,
      tk_pending_was_sent := False, tk_delivery_requested := False\<rparr>)"
    using live facts by (auto simp: task_defs)
  have "truthful ?v (tk_identity t) ?m" using facts by (simp add: truthful_def)
  then show ?thesis
    using inv held live settled at
    by (cases "source_call outcome")
      (auto intro!: good_quiet source_failure_good(1) [OF inv _ ok]
        simp: on_acknowledgement_reconciled_def case_prod_beta task_ok_break task_ok_continue split: if_splits)
qed

lemma on_delivery_demand_good:
  assumes inv: "store_inv (cfg_store cfg) (svc_store svc)" and at: "tk_at t = Selecting"
    and ok: "task_ok (session_view (cfg_store cfg) (svc_store svc)) t"
  shows "good_out cfg svc t (on_delivery_demand cfg ch svc t demand)"
proof (cases "\<exists>chain_id. tk_identity t = Some (dd_session_id demand, chain_id) \<and> tk_position_confirmed t \<and> tk_has_pending t")
  case False
  note settled = selecting_settled [OF ok at]
  note err = good_error [OF inv _ settled(1) settled(2) [symmetric] refl]
  have go: "good_step cfg svc t svc (continue_loop (t\<lparr>tk_delivery_requested := True\<rparr>))"
    using settled inv by (intro good_suspend) (simp_all add: task_ok_continue)
  show ?thesis unfolding on_delivery_demand_def proof_required_def using False
    by (auto intro!: err go split: option.split)
next
  case True
  then obtain chain_id where id: "tk_identity t = Some (dd_session_id demand, chain_id)"
    and conf: "tk_position_confirmed t" and pend: "tk_has_pending t" by blast
  let ?v = "session_view (cfg_store cfg) (svc_store svc)" and ?k = "(dd_session_id demand, chain_id)"
  note settled = selecting_settled [OF ok at]
  note err = good_error [OF inv _ settled(1) settled(2) [symmetric] refl]
  have read: "ps_pending_delivery (?v ?k) = Some d"
    if "(case load (cfg_store cfg) (ch_sql ch) (svc_store svc) (dd_session_id demand) chain_id of
      Inl _ \<Rightarrow> None | Inr persisted \<Rightarrow> ps_pending_delivery persisted) = Some d" for d
    using that load_session [OF inv] by (auto split: sum.splits)
  have send: "good_step cfg svc t svc1 (if ch_send ch then
      continue_loop ((snd (send_outbound ch (ServerDelivery d) t))\<lparr>tk_pending_was_sent := True\<rparr>)
      else break_loop (snd (send_outbound ch (ServerDelivery d) t)))"
    if "ps_pending_delivery (?v ?k) = Some d" "quiet svc svc1" for d svc1
    using inv settled id that
    by (intro good_quiet [where ms = "if ch_send ch then [Ok (ServerDelivery d)] else []"])
      (auto simp: task_ok_continue task_ok_break settled_live truthful_def split: if_splits)
  have none: "good_step cfg svc t svc (continue_loop (t\<lparr>tk_has_pending := False, tk_pending_was_sent := False,
      tk_delivery_requested := True\<rparr>))"
    using inv settled settled_forget [OF settled(1)] by (intro good_suspend) (simp_all add: task_ok_continue)
  note sends = send [THEN if_P_good] send [THEN if_not_P_good]
  show ?thesis
    unfolding on_delivery_demand_def id option.case prod.case case_prod_beta Let_def send_outbound_simps(1)
    using conf pend none read
    by (auto intro!: err sends simp: quiet_def split: option.split)
qed

subsection \<open>Polling, closing and the whole step\<close>

lemma report_source_error_good:
  assumes inv: "store_inv (cfg_store cfg) (svc_store svc)" and held: "held_lease t = tk_session_lease t"
    and settled: "settled (session_view (cfg_store cfg) (svc_store svc)) t"
  shows "good_out cfg svc t (report_source_error ch svc t e)"
  unfolding report_source_error_def using settled held
  by (auto intro!: good_error [OF inv] split: prod.split)

lemma poll_source_good:
  assumes inv: "store_inv (cfg_store cfg) (svc_store svc)" and at: "tk_at t = Selecting"
    and ok: "task_ok (session_view (cfg_store cfg) (svc_store svc)) t" and wants: "wants_delivery t"
    and ds: "tk_desired_state t = Some ds"
  shows "good_step cfg svc t svc (poll_source t)"
proof -
  note settled = selecting_settled [OF ok at]
  from wants obtain k where "tk_identity t = Some k" "tk_position_confirmed t" by (auto simp: wants_delivery_def)
  then have "serving (session_view (cfg_store cfg) (svc_store svc)) k t"
    using settled(1) settled_owner [OF settled(1)] by (simp add: serving_def)
  then have "\<exists>k. serving (session_view (cfg_store cfg) (svc_store svc)) k t" ..
  with inv at ds settled_live [OF settled(1)] show ?thesis
    by (intro good_suspend) (simp_all add: poll_source_def task_ok_def held_lease_def delivery_request_def)
qed

lemma save_view:
  assumes laws: "codec_laws env" and inv: "store_inv env store" and k: "k = (ads_session_id ds, ads_chain_id ds)"
    and run: "save_pending_with_status env fails store ds d = Ok (changed, store')"
  shows "store_inv env store'" and "k' \<noteq> k \<Longrightarrow> session_view env store' k' = session_view env store k'"
    and "session_view env store' k = (session_view env store k)\<lparr>ps_pending_delivery := Some d\<rparr>"
  using save_effect [OF laws inv k refl run] inv by (auto dest: store_inv_write [OF inv])

lemma serving_offer:
  assumes "serving v k t" and "v' k = (v k)\<lparr>ps_pending_delivery := Some d\<rparr>"
  shows "settled v' (t\<lparr>tk_has_pending := True, tk_pending_was_sent := w, tk_delivery_requested := b\<rparr>)"
  using assms by (auto simp: serving_def task_defs pred_option_def)

lemma on_delivery_good:
  assumes laws: "codec_laws (cfg_store cfg)" and inv: "store_inv (cfg_store cfg) (svc_store svc)"
    and at: "tk_at t = AwaitingDelivery request"
    and ok: "task_ok (session_view (cfg_store cfg) (svc_store svc)) t"
  shows "good_out cfg svc t (on_delivery cfg ch svc t request outcome)"
proof -
  let ?v = "session_view (cfg_store cfg) (svc_store svc)"
  from ok at obtain k where serving: "serving ?v k t" and ds: "tk_desired_state t = Some (dr_desired_state request)"
    by (auto simp: task_ok_def)
  note facts = servingD [OF serving]
  have held: "held_lease t = tk_session_lease t" using at by (simp add: held_lease_def)
  have live: "lease_live t" by (rule settled_live [OF facts(1)])
  have skip: "good_step cfg svc t svc (continue_loop t)"
    using inv facts held by (intro good_suspend) (simp_all add: task_ok_continue)
  have big: "good_step cfg svc t svc (send_error ch code msg rv retry (t\<lparr>tk_delivery_requested := False\<rparr>))" for code msg rv retry
    using inv facts held by (intro good_error) simp_all
  have "good_step cfg svc t (svc\<lparr>svc_store := store, svc_metrics := m\<rparr>)
      (reply ch (ServerDelivery d) (t\<lparr>tk_has_pending := True, tk_pending_was_sent := True, tk_delivery_requested := False\<rparr>))"
    if run: "save_pending_with_status (cfg_store cfg) (ch_sql ch) (svc_store svc) (dr_desired_state request) d = Ok (changed, store)"
      and m: "mt_active_sessions m = mt_active_sessions (svc_metrics svc)" for d changed store m
  proof -
    let ?k = "(ads_session_id (dr_desired_state request), ads_chain_id (dr_desired_state request))"
    note view = save_view [OF laws inv refl run]
    have k: "k = ?k"
    proof -
      from facts(5) ds have "ps_desired_state (?v k) = Some (dr_desired_state request)" by (simp add: synced_def)
      with row_of_view [OF inv this] row_decodes [OF inv _ refl] show ?thesis by (metis option.inject)
    qed
    have "settled (session_view (cfg_store cfg) store)
        (t\<lparr>tk_has_pending := True, tk_pending_was_sent := True, tk_delivery_requested := False\<rparr>)"
      using serving_offer [OF serving] view(3) k by simp
    then show ?thesis
      using facts m held view(1,2) k view(3)
      by (intro good_commit [where k = ?k and ms = "if ch_send ch then [Ok (ServerDelivery d)] else []"])
        (auto simp: task_ok_reply reply_outbound truthful_def split: if_splits)
  qed
  then show ?thesis
    unfolding on_delivery_def using at
    by (auto intro!: report_source_error_good [OF inv held facts(1)] skip big source_failure_good(2) [OF inv _ ok]
        simp: Let_def split: sum.split option.split prod.split)
qed

lemma on_released_good:
  assumes inv: "store_inv (cfg_store cfg) (svc_store svc)" and at: "tk_at t = Releasing"
    and ok: "task_ok (session_view (cfg_store cfg) (svc_store svc)) t"
  shows "good_out cfg svc t (on_released svc t release)"
proof -
  from ok at obtain lease where lease: "tk_session_lease t = Some lease" and held: "held_lease t = Some lease"
    by (auto simp: task_ok_def held_lease_def)
  have eq: "svc_store (case release of Some (Inl _) \<Rightarrow> count_source_error svc | _ \<Rightarrow> svc) = svc_store svc"
      "svc_active_sessions (case release of Some (Inl _) \<Rightarrow> count_source_error svc | _ \<Rightarrow> svc) = svc_active_sessions svc"
      "mt_active_sessions (svc_metrics (case release of Some (Inl _) \<Rightarrow> count_source_error svc | _ \<Rightarrow> svc)) =
        mt_active_sessions (svc_metrics svc)"
    by (auto simp: count_source_error_def split: option.split sum.split)
  show ?thesis
    using inv held lease
    by (auto simp: on_released_def Let_def good_step_def eq registry_moves_def drop_lease_def retain_on_drop_def
        task_ok_def lease_live_def held_lease_def)
qed

lemma on_inbound_good:
  assumes laws: "codec_laws (cfg_store cfg)" and inv: "store_inv (cfg_store cfg) (svc_store svc)"
    and at: "tk_at t = Selecting" and ok: "task_ok (session_view (cfg_store cfg) (svc_store svc)) t"
  shows "good_out cfg svc t (on_inbound cfg ch svc t inbound)"
proof -
  note settled = selecting_settled [OF ok at]
  note err = good_error [OF inv _ settled(1) settled(2) [symmetric] refl]
  have leave: "good_step cfg svc t svc (break_loop t)"
    using inv settled by (intro good_suspend) (simp_all add: task_ok_break settled_live)
  have beat: "good_out cfg svc t (on_heartbeat ch svc t beat)" for beat
    unfolding on_heartbeat_def
    using err good_reply [OF inv quiet_simps(1) settled(1) settled(2) [symmetric] refl, of "ServerHeartbeat beat" ch]
    by (simp add: truthful_def)
  show ?thesis
    unfolding on_inbound_def
    by (auto intro!: err leave beat on_hello_good [OF inv at ok] on_apply_good [OF inv at ok]
        on_acknowledge_good [OF laws inv at ok] on_delivery_demand_good [OF inv at ok]
        split: option.split ClientMessage.split)
qed

lemma on_select_good:
  assumes laws: "codec_laws (cfg_store cfg)" and inv: "store_inv (cfg_store cfg) (svc_store svc)"
    and at: "tk_at t = Selecting" and ok: "task_ok (session_view (cfg_store cfg) (svc_store svc)) t"
    and run: "on_select cfg ch svc t wakeup = Some out"
  shows "good_out cfg svc t out"
proof -
  note settled = selecting_settled [OF ok at]
  have leave: "good_step cfg svc t svc (break_loop t)"
    using inv settled by (intro good_suspend) (simp_all add: task_ok_break settled_live)
  note fail = good_fail [OF inv _ settled_live [OF settled(1)] settled(2) [symmetric] refl]
  show ?thesis
    using run on_inbound_good [OF laws inv at ok] leave fail poll_source_good [OF inv at ok]
      report_source_error_good [OF inv settled(2) settled(1)]
    by (auto simp: on_select_def split: Wakeup.splits if_splits sum.splits)
qed

lemma task_step_good:
  assumes laws: "codec_laws (cfg_store cfg)" and inv: "store_inv (cfg_store cfg) (svc_store svc)"
    and ok: "task_ok (session_view (cfg_store cfg) (svc_store svc)) t"
    and run: "task_step cfg ch svc t wakeup = Some out"
  shows "good_out cfg svc t out"
proof -
  have aborted: "good_out cfg svc t (on_hello_prepare_aborted ch svc t outcome)"
    if "tk_at t = HelloPrepareAborting n ds" for n ds outcome
    unfolding on_hello_prepare_aborted_def using source_failure_good(1) [OF inv _ ok] that by simp
  note ends = source_failure_good(1) [OF inv _ ok quiet_simps(1)]
  show ?thesis
    using run aborted ends unfolding task_step_def
    by (cases "tk_at t")
      (auto split: Wakeup.splits
        dest: on_select_good [OF laws inv _ ok]
        intro!: on_hello_loaded_good [OF inv _ ok] on_hello_prepared_good [OF inv _ ok] on_hello_activated_good [OF inv _ ok]
          on_apply_prepared_good [OF laws inv _ ok] on_apply_prepare_aborted_good [OF inv _ ok]
          on_apply_activated_good [OF inv _ ok] on_apply_rejection_aborted_good [OF inv _ ok]
          on_acknowledgement_reconciled_good [OF inv _ ok] on_delivery_good [OF laws inv _ ok] on_released_good [OF inv _ ok])
qed

text \<open>A Hello is negotiated only when the client sent it on the stream.\<close>

lemma hello_of_simps [simp]:
  "hello_of Selecting = None" "hello_of (HelloLoading hello lease) = Some hello" "hello_of Closed = None"
  "hello_of (HelloPreparing hello position p n ds) = Some hello" "hello_of (HelloPrepareAborting n ds) = None"
  "hello_of (HelloActivating hello position p n ds) = Some hello" "hello_of (HelloActivationAborting n ds) = None"
  "hello_of (ApplyPreparing r n) = None" "hello_of (ApplyPrepareAborting r n e) = None"
  "hello_of (ApplyActivating r n a new) = None" "hello_of (ApplyActivationAborting r n) = None"
  "hello_of (ApplyRejectionAborting r n e') = None" "hello_of (AcknowledgementReconciling ack c) = None"
  "hello_of (AwaitingDelivery request) = None" "hello_of Releasing = None"
  by (simp_all add: hello_of_def)

lemma hello_of_sends [simp]:
  "hello_of (case lease of None \<Rightarrow> Closed | Some _ \<Rightarrow> Releasing) = None"
  "hello_of (tk_at (reply ch m t)) = None" "hello_of (tk_at (send_error ch code msg rv retry t)) = None"
  by (auto simp: reply_conv send_error_def split: option.split)

lemma on_inbound_hello:
  assumes "hello_of (tk_at (snd (on_inbound cfg ch svc t inbound))) = Some hello"
  shows "inbound = Some (Some (ClientHello hello))"
  using assms
  by (auto simp: on_inbound_def on_hello_def on_apply_def on_acknowledge_def on_delivery_demand_def on_heartbeat_def
      proof_required_def Let_def case_prod_beta
      split: option.splits ClientMessage.splits sum.splits if_splits prod.splits LeaseError.splits)

lemma task_step_hello:
  assumes run: "task_step cfg ch svc t wakeup = Some (svc', t')" and hello: "hello_of (tk_at t') = Some hello"
  shows "hello_of (tk_at t) = Some hello \<or> wakeup = OnInbound (Some (Some (ClientHello hello)))"
proof (cases "tk_at t = Selecting")
  case True
  with run have "on_select cfg ch svc t wakeup = Some (svc', t')" by (simp add: task_step_def)
  then show ?thesis using hello on_inbound_hello [of cfg ch svc t _ hello]
    by (auto simp: on_select_def report_source_error_def poll_source_def
        split: Wakeup.splits if_splits sum.splits prod.splits)
next
  case False
  with run hello show ?thesis
    by (auto simp: task_step_def on_hello_loaded_def accept_hello_def on_hello_prepared_def on_hello_activated_def
        on_hello_prepare_aborted_def on_apply_prepared_def on_apply_prepare_aborted_def on_apply_activated_def
        on_apply_rejection_aborted_def on_acknowledgement_reconciled_def on_delivery_def report_source_error_def
        on_released_def Let_def case_prod_beta
        split: Suspension.splits Wakeup.splits sum.splits option.splits if_splits prod.splits)
qed

end
