(* ===== verification/Store_Properties.thy ===== *)
theory Store_Properties
  imports Outbox
begin

text \<open>
  The properties of the durable session store, and a run of the store in which a session
  activates, commits coverage, and is told of a reorg.
\<close>

section \<open>Runs\<close>

lemma run_inv: "(store_step env)\<^sup>*\<^sup>* store store' \<Longrightarrow> codec_laws env \<Longrightarrow> store_inv env store \<Longrightarrow> store_inv env store'"
  by (induction rule: rtranclp_induct) (auto dest: store_step_view)

text \<open>
  While a replacement is promised, coverage stands still; only a delivery that certifies the
  promised tip ends the promise.
\<close>

inductive_cases outbox_stepE: "outbox_step ob ob'"

lemma promise_step:
  assumes "outbox_step ob ob'" and "ob_promise ob = Some b"
  shows "ob_promise ob' = Some b \<and> ob_head ob' = ob_head ob \<or>
    (\<exists>d. ob_inflight ob = Some d \<and> delivery_certifies_reorg_tip d b \<and> ob_promise ob' = None \<and>
       ob_head ob' = cursor_head (del_cursor d))"
  using assms by (auto elim!: outbox_stepE simp: outstanding_def split: if_splits)

lemma inflight_step:
  assumes "outbox_step ob ob'" and "ob_inflight ob = Some d"
  shows "ob_inflight ob' = None \<and> ob_acked ob' = Suc (ob_acked ob)"
  using assms by (auto elim!: outbox_stepE)

lemma promise_run:
  assumes laws: "codec_laws env" and inv: "store_inv env store" and run: "(store_step env)\<^sup>*\<^sup>* store store'"
    and b: "ps_expected_reorg_tip (session_view env store key) = Some b"
  shows "ps_expected_reorg_tip (session_view env store' key) = Some b \<and>
      cursor_head (ps_acknowledged_cursor (session_view env store' key)) =
        cursor_head (ps_acknowledged_cursor (session_view env store key)) \<or>
    (\<exists>before after d. (store_step env)\<^sup>*\<^sup>* store before \<and> store_step env before after \<and> (store_step env)\<^sup>*\<^sup>* after store' \<and>
      ps_pending_delivery (session_view env before key) = Some d \<and> delivery_certifies_reorg_tip d b \<and>
      cursor_head (ps_acknowledged_cursor (session_view env after key)) = cursor_head (del_cursor d))"
    (is "?stands store' \<or> ?ended store'")
  using run
proof (induction rule: rtranclp_induct)
  case base
  then show ?case using b by simp
next
  case (step t u)
  have t: "store_inv env t" using run_inv [OF step.hyps(1) laws inv] .
  from step.IH show ?case
  proof
    assume "?ended t"
    then show ?thesis using step.hyps(2) by (meson rtranclp.rtrancl_into_rtrancl)
  next
    assume stands: "?stands t"
    from step_refines [OF laws t step.hyps(2), of key] show ?thesis
    proof
      assume "outbox_of (session_view env u key) = outbox_of (session_view env t key)"
      with stands show ?thesis by (simp add: outbox_of_def)
    next
      assume "outbox_step (outbox_of (session_view env t key)) (outbox_of (session_view env u key))"
      from promise_step [OF this, of b] stands step.hyps show ?thesis
        by (auto simp: outbox_of_def)
    qed
  qed
qed

section \<open>Properties\<close>

text \<open>
  C6: No operation leaves a session that cannot be loaded again. Every row of a store reached
  from a new database passes the full validation of \<open>load\<close>, so loading a session fails only
  when SQLite does; a loaded session is empty or carries a desired state that follows its
  predecessor, and any promised replacement lies above the acknowledged head.
\<close>

theorem store_always_loads:
  assumes "codec_laws env" and "store_reachable env store" and "\<not> fails LoadRow"
  shows "\<exists>p. load env fails store sid cid = Ok p \<and> (p = persisted_default \<or> session_ok p)"
proof -
  have inv: "store_inv env store" using reachable_store_inv assms by blast
  let ?p = "session_view env store (sessions_key sid cid)"
  have "?p = persisted_default \<or> session_ok ?p"
    using valid_session_default_or [OF inv, of "sessions_key sid cid"] by (auto simp: valid_session_def)
  with load_view [OF inv] assms(3) show ?thesis by blast
qed

text \<open>
  C1: The durable store refines an outbox with at most one delivery in flight: whatever operation
  runs, on every session it either changes nothing or is one step of the outbox. A new
  delivery carries the next sequence number, coverage never regresses except by a reorg whose
  old tip is the acknowledged head, and only the delivery that certifies a promised
  replacement moves coverage while the promise stands.
\<close>

theorem store_refines_outbox:
  assumes "codec_laws env" and "store_reachable env store" and "store_step env store store'"
  shows "outbox_of (session_view env store' key) = outbox_of (session_view env store key) \<or>
    outbox_step (outbox_of (session_view env store key)) (outbox_of (session_view env store' key))"
  using step_refines reachable_store_inv assms by blast

text \<open>
  C36: No lost update on disk. Once a desired state commits, a different request of the same
  session and chain that expects the same revision is refused, whatever operations ran in
  between and with any activation cursor, limits and SQLite failures.
\<close>

theorem store_no_lost_update:
  assumes "codec_laws env" and "store_reachable env store"
    and "apply_desired_state_with_cursor_and_limit env fails store r prepared mx ms = Ok (a, store1)"
    and "(store_step env)\<^sup>*\<^sup>* store1 store2"
    and "apply_desired_state_with_cursor_and_limit env fails' store2 r' prepared' mx' ms' = Ok (a', store3)"
    and "request_key r' = request_key r" and "ads_expected_revision r' = ads_expected_revision r"
  shows "r' = r"
  using store.no_lost_update [of env store r "(fails, prepared, mx, ms)" a store1 store2 r' "(fails', prepared', mx', ms')"]
    reachable_store_inv assms by auto

text \<open>
  C37: Acknowledgement is idempotent: after it succeeds, repeating it returns the same cursor,
  reports that nothing changed, and leaves the store as it is.
\<close>

theorem store_ack_idempotent:
  assumes "codec_laws env" and "store_reachable env store" and "sql_works fails'"
    and "acknowledge_with_status env fails store cid a = Ok ((c, changed), store')"
  shows "acknowledge_with_status env fails' store' cid a = Ok ((c, False), store')"
proof -
  let ?key = "(ack_session_id a, cid)"
  have inv: "store_inv env store" using reachable_store_inv assms by blast
  have inv': "store_inv env store'" using store_step_view [OF assms(1) inv step_ack [OF assms(4)]] by blast
  have facts: "ps_pending_delivery (session_view env store' ?key) = None \<and>
      ps_acknowledged_cursor (session_view env store' ?key) = Some c \<and>
      cur_batch_sequence c = ack_sequence a \<and> ack_delivery_token a = u64_to_be_bytes (ack_sequence a)"
    using ack_effect [OF assms(1) inv refl refl assms(4)]
  proof (elim disjE conjE exE)
    fix d p' row
    assume ack: "acks (session_view env store ?key) d c p'" and d: "del_sequence d = ack_sequence a" "del_delivery_token d = ack_delivery_token a"
      and row: "load_row env ?key row = Ok p'" "session_ok p'" "store' = write_row store ?key row"
    from ack have pending: "ps_pending_delivery (session_view env store ?key) = Some d" and c: "del_cursor d = Some c"
      by (simp_all add: acks_def)
    from pending valid_session_default_or [OF inv, of ?key] obtain rv act where
      "valid_session env ?key rv act (session_view env store ?key)" by (auto simp: persisted_default_def)
    from pending_facts [OF this pending] obtain ds where
      "next_in_flight ds (ps_acknowledged_cursor (session_view env store ?key)) d" by blast
    with c d have "cur_batch_sequence c = ack_sequence a \<and> ack_delivery_token a = u64_to_be_bytes (ack_sequence a)"
      by (auto simp: next_in_flight_def)
    moreover have "session_view env store' ?key = p'" using store_inv_write(2) [OF inv row(1,2)] row(3) by simp
    ultimately show "ps_pending_delivery (session_view env store' ?key) = None \<and>
      ps_acknowledged_cursor (session_view env store' ?key) = Some c \<and>
      cur_batch_sequence c = ack_sequence a \<and> ack_delivery_token a = u64_to_be_bytes (ack_sequence a)"
      using ack by (auto simp: acks_def)
  qed simp_all
  obtain row where row: "select_row store' ?key = Some row"
    using facts by (cases "select_row store' ?key") (auto simp: session_view_def persisted_default_def)
  show ?thesis
    using acknowledge_with_status_conv [OF inv' refl refl row, of fails' c False store'] facts assms(3)
    by (auto simp: sql_works_def acknowledge_replay_Ok_iff)
qed

text \<open>
  C7: A delivery in flight stays in flight until it is acknowledged, and it can be: whatever
  operation runs on the store, the session still holds the same delivery or has acknowledged
  exactly it; and when SQLite works, acknowledging its sequence and token succeeds and commits
  its cursor.
\<close>

theorem store_delivery_until_acknowledged:
  assumes "codec_laws env" and "store_reachable env store"
    and "ps_pending_delivery (session_view env store (sid, cid)) = Some d"
  shows "(\<forall>store'. store_step env store store' \<longrightarrow>
      session_view env store' (sid, cid) = session_view env store (sid, cid) \<or>
      (\<exists>c. acks (session_view env store (sid, cid)) d c (session_view env store' (sid, cid)))) \<and>
    (\<forall>fails. sql_works fails \<longrightarrow> (\<exists>c store'.
      acknowledge_with_status env fails store cid
        \<lparr>ack_session_id = sid, ack_sequence = del_sequence d, ack_delivery_token = del_delivery_token d\<rparr> =
        Ok ((c, True), store') \<and> del_cursor d = Some c \<and>
      acks (session_view env store (sid, cid)) d c (session_view env store' (sid, cid))))"
proof (intro conjI allI impI)
  have inv: "store_inv env store" using reachable_store_inv assms by blast
  {
    fix store' assume step: "store_step env store store'"
    have only: "\<exists>c. acks (session_view env store (sid, cid)) d c p'"
      if "session_moves env (session_view env store (sid, cid)) p'" for p'
      using that assms(3) by (auto simp: session_moves_def activates_def offers_def acks_def)
    from store_step_view [OF assms(1) inv step] only
    show "session_view env store' (sid, cid) = session_view env store (sid, cid) \<or>
      (\<exists>c. acks (session_view env store (sid, cid)) d c (session_view env store' (sid, cid)))" by metis
  next
    fix fails assume "sql_works fails"
    from ack_accepts [OF assms(1) inv this, of "(sid, cid)" "\<lparr>ack_session_id = sid, ack_sequence = del_sequence d,
        ack_delivery_token = del_delivery_token d\<rparr>" cid d] assms(3)
    show "\<exists>c store'. acknowledge_with_status env fails store cid
        \<lparr>ack_session_id = sid, ack_sequence = del_sequence d, ack_delivery_token = del_delivery_token d\<rparr> =
        Ok ((c, True), store') \<and> del_cursor d = Some c \<and>
      acks (session_view env store (sid, cid)) d c (session_view env store' (sid, cid))"
      by (auto simp: acks_def)
  }
qed

text \<open>
  C3: A promised replacement is durable. Once a reorg is acknowledged, whatever operations run,
  the promise stands with the acknowledged head unmoved, until a delivery that certifies the
  promised tip is acknowledged; when that delivery carries data, its canonical blocks from the
  promised tip on form one chain linked by parent hashes that ends in the new acknowledged head.
\<close>

theorem store_reorg_promise:
  assumes "codec_laws env" and "store_reachable env store" and "(store_step env)\<^sup>*\<^sup>* store store'"
    and "ps_expected_reorg_tip (session_view env store key) = Some b"
  shows "ps_expected_reorg_tip (session_view env store' key) = Some b \<and>
      cursor_head (ps_acknowledged_cursor (session_view env store' key)) =
        cursor_head (ps_acknowledged_cursor (session_view env store key)) \<or>
    (\<exists>before after d. (store_step env)\<^sup>*\<^sup>* store before \<and> store_step env before after \<and> (store_step env)\<^sup>*\<^sup>* after store' \<and>
      ps_pending_delivery (session_view env before key) = Some d \<and> delivery_certifies_reorg_tip d b \<and>
      cursor_head (ps_acknowledged_cursor (session_view env after key)) = cursor_head (del_cursor d) \<and>
      (\<forall>data. del_payload d = Some (PayloadData data) \<longrightarrow>
        (\<exists>chain. linked (b # chain) \<and>
           set (b # chain) = {b' \<in> canonical_record_blocks (dp_records data). br_number b \<le> br_number b'} \<and>
           cursor_head (del_cursor d) = Some (last (b # chain)))))"
proof -
  have chain: "\<exists>chain. linked (b # chain) \<and>
      set (b # chain) = {b' \<in> canonical_record_blocks (dp_records data). br_number b \<le> br_number b'} \<and>
      cursor_head (del_cursor d) = Some (last (b # chain))"
    if cert: "delivery_certifies_reorg_tip d b" and data: "del_payload d = Some (PayloadData data)" for d data
  proof -
    obtain c where c: "del_cursor d = Some c"
      using cert by (cases "del_cursor d") (simp_all add: delivery_certifies_reorg_tip_def)
    have "cursor_head (del_cursor d) = cur_canonical_head c" by (simp add: c cursor_head_def)
    with certified_chain [OF cert data c] show ?thesis by metis
  qed
  from promise_run [OF assms(1) reachable_store_inv [OF assms(1,2)] assms(3,4)] chain
  show ?thesis by blast
qed


section \<open>A run of the store\<close>

definition sample_store_env :: StoreEnv where
  "sample_store_env =
     \<lparr>st_encoded_len = (\<lambda>_. 100), st_length_delimiter_len = (\<lambda>_. 1), st_decode_header = (\<lambda>_. None),
      st_hash_slow = ch_mix_hash, st_enc_desired = enc_desired, st_dec_desired = whole dec_desired,
      st_enc_cursor = enc_cursor, st_dec_cursor = whole dec_cursor, st_enc_delivery = enc_delivery,
      st_dec_delivery = whole dec_delivery, st_enc_block = enc_block, st_dec_block = whole dec_block\<rparr>"

lemma sample_laws: "codec_laws sample_store_env"
  by (simp add: codec_laws_def sample_store_env_def whole_enc delimits_desired delimits_cursor
      delimits_delivery delimits_block)

lemma sample_size: "validate_delivery_size sample_store_env d MAX_MESSAGE_SIZE_BYTES = Ok ()"
  by (simp add: validate_delivery_size_def sample_store_env_def MAX_MESSAGE_SIZE_BYTES_def usize_saturating_add_def)

definition run_request :: ApplyDesiredState where
  "run_request = sample_request 0 ''a''"

definition run_cursor :: "u64 \<Rightarrow> BlockRef option \<Rightarrow> u64 \<Rightarrow> Cursor" where
  "run_cursor nb head seq =
     \<lparr>cur_chain_id = 1, cur_query_revision = 1, cur_next_block = nb, cur_canonical_head = head,
      cur_batch_sequence = seq, cur_provider_checkpoint = [], cur_owner_backfill_activation_block = Some 11\<rparr>"

definition run_delivery :: "Cursor \<Rightarrow> Payload \<Rightarrow> bool \<Rightarrow> Delivery" where
  "run_delivery c pl neutral =
     \<lparr>del_session_id = ''s'', del_sequence = cur_batch_sequence c, del_query_revision = 1,
      del_delivery_token = u64_to_be_bytes (cur_batch_sequence c), del_cursor = Some c,
      del_payload = Some pl, del_checkpoint_neutral = neutral\<rparr>"

definition progress_record :: "BlockRef \<Rightarrow> EventRecord" where
  "progress_record b =
     \<lparr>er_event = Some \<lparr>ce_event = Some (EventBlockProgress \<lparr>bp_block = Some b\<rparr>)\<rparr>,
      er_canonical_audience = True, er_owner_ids = [], er_scope = 2\<rparr>"

abbreviation run_key :: row_key where "run_key \<equiv> (''s'', 1)"

definition old_block :: BlockRef where "old_block = sample_block 12 12 11"
definition new_block :: BlockRef where "new_block = sample_block 12 22 11"
definition fork_block :: BlockRef where "fork_block = sample_block 11 11 10"

lemmas run_defs = run_cursor_def run_delivery_def progress_record_def old_block_def new_block_def fork_block_def
  sample_block_def

lemma run_request_simps [simp]:
  "ads_session_id run_request = ''s''" "ads_chain_id run_request = 1" "ads_new_revision run_request = 1"
  "ads_expected_revision run_request = 0"
  by (simp_all add: run_request_def sample_request_def)

definition activation :: Delivery where
  "activation = activation_delivery run_request 1 (run_cursor 11 None 0)"

definition data_delivery :: Delivery where
  "data_delivery = run_delivery (run_cursor 13 (Some old_block) 2)
     (PayloadData \<lparr>dp_records = [progress_record old_block]\<rparr>) False"

definition fork_delivery :: Delivery where
  "fork_delivery = run_delivery (run_cursor 12 (Some fork_block) 3)
     (PayloadReorg \<lparr>ro_common_ancestor = Some fork_block, ro_old_tip = Some old_block, ro_new_tip = Some new_block\<rparr>) False"

definition repair_delivery :: Delivery where
  "repair_delivery = run_delivery (run_cursor 13 (Some new_block) 4)
     (PayloadData \<lparr>dp_records = [progress_record new_block]\<rparr>) False"

text \<open>The first desired state commits on an empty store and puts its activation in flight.\<close>

lemma run_activated:
  "\<exists>a store. apply_desired_state_with_cursor_and_limit sample_store_env (\<lambda>_. False) \<lparr>ss_rows = []\<rparr> run_request
       (Some (run_cursor 11 None 0)) 1000 10 = Ok ((a, True), store) \<and>
     session_view sample_store_env store run_key =
       persisted_default\<lparr>ps_desired_state := Some run_request, ps_pending_delivery := Some activation\<rparr>"
proof -
  let ?apply = "apply_desired_state_with_cursor_and_limit sample_store_env (\<lambda>_. False) \<lparr>ss_rows = []\<rparr> run_request
       (Some (run_cursor 11 None 0)) 1000 10"
  have wf: "wf_desired_state run_request" by (simp add: run_request_def desired_state_eval)
  have valid: "validate_desired_state run_request = Ok ()" using wf by (simp add: validate_desired_state_Ok_iff)
  have size: "validate_delivery_size sample_store_env activation (min 1000 MAX_MESSAGE_SIZE_BYTES) = Ok ()"
    by (simp add: validate_delivery_size_def sample_store_env_def MAX_MESSAGE_SIZE_BYTES_def usize_saturating_add_def)
  have payload: "validate_delivery_payload sample_store_env run_request activation = Ok ()"
    by (simp add: validate_delivery_payload_def activation_def activation_delivery_def run_cursor_def cursor_head_def
        is_activation_delivery_def validate_control_payload_def as_bytes_def)
  have progress: "validate_delivery_progress None run_request activation = Ok ()"
    by (simp add: validate_delivery_progress_def activation_def activation_delivery_def run_cursor_def cursor_head_def
        is_exact_activation_def is_activation_delivery_def retained_baseline_of_def
        validate_owner_backfill_activation_boundary_def declared_head_def)
       (simp add: run_request_def sample_request_def)
  define row0 where "row0 = empty_row\<lparr>row_revision := 1,
     row_desired_state := Some (st_enc_desired sample_store_env run_request),
     row_pending_delivery := Some (st_enc_delivery sample_store_env activation), row_activation_sequence := 1\<rparr>"
  define a where "a = \<lparr>dsa_session_id = ''s'', dsa_revision = 1, dsa_activation_sequence = 1\<rparr>"
  have row0: "row_pending_delivery row0 = Some (st_enc_delivery sample_store_env activation)"
    by (simp add: row0_def)
  have run: "?apply = Ok ((a, True), write_row \<lparr>ss_rows = []\<rparr> run_key row0)"
    using valid size payload progress
    by (simp add: apply_desired_state_with_cursor_and_limit_def load_def select_row_def sql_def run_cursor_def
        to_sql_integer_def i64_try_from_u64_def checked_add_def enqueue_activation_def next_sequence_def Let_def
        activation_def sessions_key_def sql_integers row0_def a_def)
  have view: "session_view sample_store_env \<lparr>ss_rows = []\<rparr> run_key = persisted_default"
    by (simp add: session_view_def select_row_def)
  from apply_effect [OF sample_laws store_inv_empty refl refl run]
  obtain d row where
    load: "load_row sample_store_env run_key row = Ok (persisted_default\<lparr>ps_desired_state := Some run_request, ps_pending_delivery := Some d\<rparr>)"
      "session_ok (persisted_default\<lparr>ps_desired_state := Some run_request, ps_pending_delivery := Some d\<rparr>)"
    and row: "write_row \<lparr>ss_rows = []\<rparr> run_key row0 = write_row \<lparr>ss_rows = []\<rparr> run_key row"
    by (auto simp: view)
  have "row = row0" using row by (metis select_write_row option.inject)
  then have "d = activation"
    using load(1) row0 sample_laws by (auto simp: load_row_Ok_iff decode_row_Ok_iff decode_optional_Ok_iff codec_laws_def)
  with store_inv_write(2) [OF store_inv_empty load] run row show ?thesis by metis
qed


text \<open>Steps of the run, by what the session holds.\<close>

definition holds :: "SessionStore \<Rightarrow> PersistedSession \<Rightarrow> bool" where
  "holds store p \<longleftrightarrow> store_reachable sample_store_env store \<and> session_view sample_store_env store run_key = p"

definition ack_of :: "Delivery \<Rightarrow> Acknowledge" where
  "ack_of d = \<lparr>ack_session_id = ''s'', ack_sequence = del_sequence d, ack_delivery_token = del_delivery_token d\<rparr>"

lemma run_ack:
  assumes "holds store p" and "ps_pending_delivery p = Some d"
  shows "\<exists>c store' p'. acknowledge_with_status sample_store_env (\<lambda>_. False) store 1 (ack_of d) = Ok ((c, True), store') \<and>
    holds store' p' \<and> acks p d c p'"
proof -
  have inv: "store_inv sample_store_env store" and view: "session_view sample_store_env store run_key = p"
    using assms(1) reachable_store_inv [OF sample_laws] by (simp_all add: holds_def)
  have "sql_works (\<lambda>_. False)" by (simp add: sql_works_def)
  from ack_accepts [OF sample_laws inv this, of run_key "ack_of d" 1 d] assms(2) view obtain c store' where
    run: "acknowledge_with_status sample_store_env (\<lambda>_. False) store 1 (ack_of d) = Ok ((c, True), store')"
      "acks p d c (session_view sample_store_env store' run_key)"
    by (auto simp: ack_of_def)
  have "store_reachable sample_store_env store'"
    using assms(1) reach_step [OF _ step_ack [OF run(1)]] by (simp add: holds_def)
  with run show ?thesis by (auto simp: holds_def)
qed

lemma run_save:
  assumes "holds store p" and "offers sample_store_env p d p'" and "ps_desired_state p = Some run_request"
  shows "\<exists>store'. save_pending_with_status sample_store_env (\<lambda>_. False) store run_request d = Ok (True, store') \<and> holds store' p'"
proof -
  have inv: "store_inv sample_store_env store" and view: "session_view sample_store_env store run_key = p"
    using assms(1) reachable_store_inv [OF sample_laws] by (simp_all add: holds_def)
  have "sql_works (\<lambda>_. False)" by (simp add: sql_works_def)
  from save_accepts [OF sample_laws inv this, of run_key run_request d p'] assms view obtain store' where
    run: "save_pending_with_status sample_store_env (\<lambda>_. False) store run_request d = Ok (True, store')"
      "session_view sample_store_env store' run_key = p'"
    by auto
  have "store_reachable sample_store_env store'"
    using assms(1) reach_step [OF _ step_save [OF run(1)]] by (simp add: holds_def)
  with run show ?thesis by (auto simp: holds_def)
qed

definition activated :: PersistedSession where
  "activated = persisted_default\<lparr>ps_desired_state := Some run_request, ps_pending_delivery := Some activation\<rparr>"

definition covered :: "Cursor option \<Rightarrow> BlockRef option \<Rightarrow> Cursor \<Rightarrow> PersistedSession" where
  "covered runtime promise c =
     \<lparr>ps_desired_state = Some run_request, ps_acknowledged_cursor = Some c, ps_runtime_checkpoint_cursor = runtime,
      ps_pending_delivery = None, ps_expected_reorg_tip = promise\<rparr>"

lemma data_offered:
  "offers sample_store_env (covered None None (run_cursor 11 None 1)) data_delivery
     (covered None None (run_cursor 11 None 1)\<lparr>ps_pending_delivery := Some data_delivery\<rparr>)"
proof -
  have "validate_delivery_payload sample_store_env run_request data_delivery = Ok ()"
    by (simp add: validate_delivery_payload_def data_delivery_def run_defs cursor_head_def is_activation_delivery_def
        is_cursor_progress_barrier_def validate_data_payload_def scan_record_def delivery_scope_try_from_def
        validate_audience_def record_event_def scan_order_def event_order_def scan_start_def max_opt_def
        scan_progress_def validate_block_ref_def validate_block_identity_def Let_def)
  moreover have "validate_delivery_progress (Some (run_cursor 11 None 1)) run_request data_delivery = Ok ()"
    by (simp add: validate_delivery_progress_def data_delivery_def run_defs cursor_head_def is_activation_delivery_def
        is_exact_activation_def validate_owner_backfill_activation_boundary_def
        canonical_head_regresses_or_changes_def declared_head_def data_head_step_def delivery_scope_try_from_def
        record_event_def event_block_def Let_def)
  ultimately show ?thesis
    by (simp add: offers_def covered_def admissible_delivery_def sample_size next_in_flight_def)
       (simp add: data_delivery_def run_defs)
qed

lemma fork_offered:
  "offers sample_store_env (covered rt None (run_cursor 13 (Some old_block) 2)) fork_delivery
     (covered rt None (run_cursor 13 (Some old_block) 2)\<lparr>ps_pending_delivery := Some fork_delivery\<rparr>)"
proof -
  have "validate_delivery_payload sample_store_env run_request fork_delivery = Ok ()"
    by (simp add: validate_delivery_payload_def fork_delivery_def run_defs cursor_head_def is_activation_delivery_def
        is_cursor_progress_barrier_def validate_control_payload_def validate_reorg_shape_def validate_block_ref_def
        saturating_add_def Let_def)
  moreover have "validate_delivery_progress (Some (run_cursor 13 (Some old_block) 2)) run_request fork_delivery = Ok ()"
    by (simp add: validate_delivery_progress_def fork_delivery_def run_defs cursor_head_def is_activation_delivery_def
        is_exact_activation_def validate_owner_backfill_activation_boundary_def validate_reorg_progress_def
        declared_head_def checked_add_def Let_def)
  ultimately show ?thesis
    by (simp add: offers_def covered_def admissible_delivery_def sample_size next_in_flight_def)
       (simp add: fork_delivery_def run_defs)
qed

lemma repair_certifies: "delivery_certifies_reorg_tip repair_delivery new_block"
  by (simp add: delivery_certifies_reorg_tip_def repair_delivery_def run_defs delivery_scope_try_from_def
      record_event_def event_block_def follows_head_def checked_add_def)


lemma activated_run:
  obtains a store where "apply_desired_state_with_cursor_and_limit sample_store_env (\<lambda>_. False) \<lparr>ss_rows = []\<rparr> run_request
       (Some (run_cursor 11 None 0)) 1000 10 = Ok ((a, True), store)" "holds store activated"
  using run_activated reach_step [OF reach_open step_apply] by (auto simp: holds_def activated_def)

lemma covered_run:
  obtains store where "holds store (covered None None (run_cursor 11 None 1))"
proof -
  obtain a store where "holds store activated" by (rule activated_run)
  from run_ack [OF this, of activation] obtain c store' p' where
    "holds store' p'" "acks activated activation c p'" by (auto simp: activated_def)
  moreover from this(2) have "p' = covered None None (run_cursor 11 None 1)"
    by (simp add: acks_def activated_def covered_def activation_def activation_delivery_def run_cursor_def
        expected_reorg_tip_after_ack_def persisted_default_def)
  ultimately show thesis using that by blast
qed

lemma promised_run:
  obtains store runtime where "holds store (covered runtime (Some new_block) (run_cursor 12 (Some fork_block) 3))"
proof -
  obtain store where "holds store (covered None None (run_cursor 11 None 1))" by (rule covered_run)
  from run_save [OF this data_offered] obtain store1 where
    "holds store1 (covered None None (run_cursor 11 None 1)\<lparr>ps_pending_delivery := Some data_delivery\<rparr>)"
    by (auto simp: covered_def)
  from run_ack [OF this, of data_delivery] obtain c store2 p2 where s2: "holds store2 p2"
    "acks (covered None None (run_cursor 11 None 1)\<lparr>ps_pending_delivery := Some data_delivery\<rparr>) data_delivery c p2" by auto
  from s2(2) have "p2 = covered (Some (run_cursor 13 (Some old_block) 2)) None (run_cursor 13 (Some old_block) 2)"
    by (auto simp: acks_def covered_def data_delivery_def run_delivery_def expected_reorg_tip_after_ack_def)
  with s2(1) have "holds store2 (covered (Some (run_cursor 13 (Some old_block) 2)) None (run_cursor 13 (Some old_block) 2))"
    by simp
  from run_save [OF this fork_offered] obtain store3 where
    "holds store3 (covered (Some (run_cursor 13 (Some old_block) 2)) None (run_cursor 13 (Some old_block) 2)
       \<lparr>ps_pending_delivery := Some fork_delivery\<rparr>)"
    by (auto simp: covered_def)
  from run_ack [OF this, of fork_delivery] obtain c' store4 p4 where s4: "holds store4 p4"
    "acks (covered (Some (run_cursor 13 (Some old_block) 2)) None (run_cursor 13 (Some old_block) 2)
       \<lparr>ps_pending_delivery := Some fork_delivery\<rparr>) fork_delivery c' p4" by auto
  from s4(2) have "p4 = covered (Some (run_cursor 12 (Some fork_block) 3)) (Some new_block) (run_cursor 12 (Some fork_block) 3)"
    by (auto simp: acks_def covered_def fork_delivery_def run_delivery_def expected_reorg_tip_after_ack_def)
  with s4(1) that show thesis by simp
qed

text \<open>Repeating a committed desired state returns it without a change.\<close>

lemma apply_replays:
  assumes inv: "store_inv env store" and ok: "sql_works fails" and ds: "ps_desired_state (session_view env store (request_key r)) = Some r"
  shows "\<exists>a. apply_desired_state_with_cursor_and_limit env fails store r None mx ms = Ok ((a, False), store)"
proof -
  have skey: "sessions_key (ads_session_id r) (ads_chain_id r) = request_key r"
    by (simp add: sessions_key_def request_key_def sql_integers)
  obtain row where row: "select_row store (request_key r) = Some row" using row_of_view [OF inv ds] .
  obtain ds' where "ps_desired_state (session_view env store (request_key r)) = Some ds'"
    and valid: "valid_session env (request_key r) (row_revision row) (row_activation_sequence row)
      (session_view env store (request_key r))"
    and rv': "ads_new_revision ds' = row_revision row" and dec: "decode_row env row = Ok (session_view env store (request_key r))"
    and sgn: "0 \<le> sint (row_revision row)"
    by (rule row_decodes [OF inv row refl])
  with ds have rv: "ads_new_revision r = row_revision row" "0 \<le> sint (row_revision row)"
    "decode_row env row = Ok (session_view env store (request_key r))" by simp_all
  have wf: "wf_desired_state r" and succ: "unat (ads_new_revision r) = Suc (unat (ads_expected_revision r))"
    using valid ds by (auto simp: valid_session_def session_ok_def valid_session_iff [OF ds])
  have small: "i64_try_from_u64 (ads_expected_revision r) = Some (ads_expected_revision r)"
      "i64_try_from_u64 (ads_new_revision r) = Some (row_revision row)" "row_revision row \<noteq> ads_expected_revision r"
    using rv succ by (auto simp: i64_try_from_u64_Some_iff sint_nonneg_iff)
  from rv(3) ds obtain e where "row_desired_state row = Some e" "st_dec_desired env e = Some r"
    by (auto simp: decode_row_Ok_iff decode_optional_Ok_iff split: option.splits)
  moreover have "load env fails store (ads_session_id r) (ads_chain_id r) = Ok (session_view env store (request_key r))"
    using load_view [OF inv] ok by (simp add: skey sql_works_def)
  moreover have "validate_desired_state r = Ok ()" using wf by (simp add: validate_desired_state_Ok_iff)
  ultimately show ?thesis
    using ok small
    by (simp add: apply_desired_state_with_cursor_and_limit_def skey row to_sql_integer_def Let_def
        replay_desired_state_def decode_blob_def)
qed

section \<open>Witnesses\<close>

theorem store_always_loads_witness:
  "\<exists>store p. codec_laws sample_store_env \<and> store_reachable sample_store_env store \<and>
     load sample_store_env (\<lambda>_. False) store ''s'' 1 = Ok p \<and> (p = persisted_default \<or> session_ok p)"
proof -
  obtain store where "holds store (covered None None (run_cursor 11 None 1))" by (rule covered_run)
  then have "store_reachable sample_store_env store" by (simp add: holds_def)
  with store_always_loads [OF sample_laws this, of "\<lambda>_. False" "''s''" 1] sample_laws show ?thesis by blast
qed

theorem store_refines_outbox_witness:
  "\<exists>store. codec_laws sample_store_env \<and> store_reachable sample_store_env \<lparr>ss_rows = []\<rparr> \<and>
     store_step sample_store_env \<lparr>ss_rows = []\<rparr> store \<and>
     (outbox_of (session_view sample_store_env store run_key) = outbox_of (session_view sample_store_env \<lparr>ss_rows = []\<rparr> run_key) \<or>
      outbox_step (outbox_of (session_view sample_store_env \<lparr>ss_rows = []\<rparr> run_key))
        (outbox_of (session_view sample_store_env store run_key)))"
proof -
  obtain a store where "apply_desired_state_with_cursor_and_limit sample_store_env (\<lambda>_. False) \<lparr>ss_rows = []\<rparr> run_request
       (Some (run_cursor 11 None 0)) 1000 10 = Ok ((a, True), store)" by (rule activated_run)
  then have "store_step sample_store_env \<lparr>ss_rows = []\<rparr> store" by (rule step_apply)
  with store_refines_outbox [OF sample_laws reach_open this] sample_laws reach_open show ?thesis by blast
qed

theorem store_no_lost_update_witness:
  "\<exists>a a' store1 store3. codec_laws sample_store_env \<and> store_reachable sample_store_env \<lparr>ss_rows = []\<rparr> \<and>
     apply_desired_state_with_cursor_and_limit sample_store_env (\<lambda>_. False) \<lparr>ss_rows = []\<rparr> run_request
       (Some (run_cursor 11 None 0)) 1000 10 = Ok (a, store1) \<and>
     apply_desired_state_with_cursor_and_limit sample_store_env (\<lambda>_. False) store1 run_request None 0 0 = Ok (a', store3) \<and>
     run_request = run_request"
proof -
  obtain a store where first: "apply_desired_state_with_cursor_and_limit sample_store_env (\<lambda>_. False) \<lparr>ss_rows = []\<rparr> run_request
       (Some (run_cursor 11 None 0)) 1000 10 = Ok ((a, True), store)" and holds: "holds store activated"
    by (rule activated_run)
  have "store_inv sample_store_env store" using holds reachable_store_inv [OF sample_laws] by (simp add: holds_def)
  from apply_replays [OF this, of "\<lambda>_. False" run_request 0 0] holds obtain a' where
    second: "apply_desired_state_with_cursor_and_limit sample_store_env (\<lambda>_. False) store run_request None 0 0 = Ok ((a', False), store)"
    by (auto simp: holds_def activated_def sql_works_def request_key_def)
  have "run_request = run_request"
    using store_no_lost_update [OF sample_laws reach_open first rtranclp.rtrancl_refl second refl refl] .
  with first second sample_laws reach_open show ?thesis by blast
qed

theorem store_ack_idempotent_witness:
  "\<exists>store c store'. store_reachable sample_store_env store \<and>
     acknowledge_with_status sample_store_env (\<lambda>_. False) store 1 (ack_of activation) = Ok ((c, True), store') \<and>
     acknowledge_with_status sample_store_env (\<lambda>_. False) store' 1 (ack_of activation) = Ok ((c, False), store')"
proof -
  obtain a store where holds: "holds store activated" by (rule activated_run)
  from run_ack [OF this, of activation] obtain c store' where
    run: "acknowledge_with_status sample_store_env (\<lambda>_. False) store 1 (ack_of activation) = Ok ((c, True), store')"
    by (auto simp: activated_def)
  have reach: "store_reachable sample_store_env store" using holds by (simp add: holds_def)
  have "sql_works (\<lambda>_. False)" by (simp add: sql_works_def)
  from store_ack_idempotent [OF sample_laws reach this run] run reach show ?thesis by blast
qed

theorem store_delivery_until_acknowledged_witness:
  "\<exists>store c store'. codec_laws sample_store_env \<and> store_reachable sample_store_env store \<and>
     ps_pending_delivery (session_view sample_store_env store run_key) = Some activation \<and>
     acknowledge_with_status sample_store_env (\<lambda>_. False) store 1
       \<lparr>ack_session_id = ''s'', ack_sequence = del_sequence activation, ack_delivery_token = del_delivery_token activation\<rparr> =
       Ok ((c, True), store')"
proof -
  obtain a store where "holds store activated" by (rule activated_run)
  then have reach: "store_reachable sample_store_env store"
    and pending: "ps_pending_delivery (session_view sample_store_env store run_key) = Some activation"
    by (simp_all add: holds_def activated_def)
  have "sql_works (\<lambda>_. False)" by (simp add: sql_works_def)
  with store_delivery_until_acknowledged [OF sample_laws reach pending] reach pending sample_laws show ?thesis by blast
qed

theorem store_reorg_promise_witness:
  "\<exists>store. codec_laws sample_store_env \<and> store_reachable sample_store_env store \<and>
     ps_expected_reorg_tip (session_view sample_store_env store run_key) = Some new_block \<and>
     delivery_certifies_reorg_tip repair_delivery new_block"
proof -
  obtain store runtime where "holds store (covered runtime (Some new_block) (run_cursor 12 (Some fork_block) 3))"
    by (rule promised_run)
  then have reach: "store_reachable sample_store_env store"
    and promise: "ps_expected_reorg_tip (session_view sample_store_env store run_key) = Some new_block"
    by (simp_all add: holds_def covered_def)
  from store_reorg_promise [OF sample_laws reach rtranclp.rtrancl_refl promise] reach promise sample_laws repair_certifies
  show ?thesis by blast
qed

end
