(* ===== verification/Service_Properties.thy ===== *)
theory Service_Properties
  imports Service_Invariant Store_Properties
begin

text \<open>
  The service as a whole: any number of session tasks, opened and stepped in any order, with
  arbitrary clients, provider answers, send failures and SQLite failures, shutdown, a registry lock
  poisoned by a thread that panics while it holds it, and restarts that keep nothing but the
  database.
\<close>

section \<open>The system\<close>

type_synonym 'm world = "EventService \<times> (nat \<rightharpoonup> 'm SessionTask)"

inductive service_step :: "'m ServiceConfig \<Rightarrow> 'm world \<Rightarrow> 'm world \<Rightarrow> bool" for cfg where
  step_open: "session cfg svc metadata = (Ok t, svc') \<Longrightarrow> tasks i = None \<Longrightarrow>
    service_step cfg (svc, tasks) (svc', tasks(i \<mapsto> t))"
| step_refuse: "session cfg svc metadata = (Err status, svc') \<Longrightarrow> service_step cfg (svc, tasks) (svc', tasks)"
| step_task: "tasks i = Some t \<Longrightarrow> task_step cfg ch svc t wakeup = Some (svc', t') \<Longrightarrow>
    service_step cfg (svc, tasks) (svc', tasks(i \<mapsto> t'))"
| step_shutdown: "service_step cfg (svc, tasks) (shutdown svc, tasks)"
| step_poison: "service_step cfg (svc, tasks) (svc\<lparr>svc_registry_poisoned := True\<rparr>, tasks)"
| step_restart: "service_new (svc_store svc) poll = Ok svc' \<Longrightarrow> service_step cfg (svc, tasks) (svc', Map.empty)"

inductive service_reachable :: "'m ServiceConfig \<Rightarrow> 'm world \<Rightarrow> bool" for cfg where
  reachable_start: "service_new \<lparr>ss_rows = []\<rparr> poll = Ok svc \<Longrightarrow> service_reachable cfg (svc, Map.empty)"
| reachable_step: "service_reachable cfg w \<Longrightarrow> service_step cfg w w' \<Longrightarrow> service_reachable cfg w'"

section \<open>Invariant\<close>

definition held_key :: "'m SessionTask \<Rightarrow> session_key option" where
  "held_key t = map_option ls_key (held_lease t)"

definition holds_key :: "(nat \<rightharpoonup> 'm SessionTask) \<Rightarrow> nat \<Rightarrow> session_key \<Rightarrow> bool" where
  "holds_key tasks i k \<longleftrightarrow> Option.bind (tasks i) held_key = Some k"

lemma holds_key_update [simp]:
  "holds_key (tasks(i \<mapsto> t)) j k \<longleftrightarrow> (if j = i then held_key t = Some k else holds_key tasks j k)"
  by (simp add: holds_key_def)

definition leases_ok :: "'m ServiceConfig \<Rightarrow> EventService \<Rightarrow> (nat \<rightharpoonup> 'm SessionTask) \<Rightarrow> bool" where
  "leases_ok cfg svc tasks \<longleftrightarrow>
     finite (svc_active_sessions svc) \<and>
     card (svc_active_sessions svc) \<le> lim_max_active_sessions (cfg_limits cfg) \<and>
     mt_active_sessions (svc_metrics svc) = of_nat (card (svc_active_sessions svc)) \<and>
     (\<forall>i k. holds_key tasks i k \<longrightarrow> k \<in> svc_active_sessions svc) \<and>
     (\<forall>i j k. holds_key tasks i k \<longrightarrow> holds_key tasks j k \<longrightarrow> i = j)"

definition service_inv :: "'m ServiceConfig \<Rightarrow> 'm world \<Rightarrow> bool" where
  "service_inv cfg w \<longleftrightarrow>
     (let (svc, tasks) = w in
      store_inv (cfg_store cfg) (svc_store svc) \<and> leases_ok cfg svc tasks \<and>
      (\<forall>i t. tasks i = Some t \<longrightarrow> task_ok (session_view (cfg_store cfg) (svc_store svc)) t))"

lemma task_ok_frame:
  assumes "task_ok v t" and "\<And>k. task_owner t = Some k \<Longrightarrow> v' k = v k"
  shows "task_ok v' t"
  using assms
  by (cases "tk_at t") (auto simp: task_ok_def greeting_def serving_def settled_def pred_option_def Let_def)

lemma owner_held: "task_ok v t \<Longrightarrow> task_owner t = Some k \<Longrightarrow> held_key t = Some k"
  by (cases "tk_at t") (auto simp: task_ok_def task_owner_def held_key_def held_lease_def)

lemma leases_active: "leases_ok cfg svc tasks \<Longrightarrow> holds_key tasks i k \<Longrightarrow> k \<in> svc_active_sessions svc"
  and leases_unique: "leases_ok cfg svc tasks \<Longrightarrow> holds_key tasks i k \<Longrightarrow> holds_key tasks j k \<Longrightarrow> i = j"
  unfolding leases_ok_def by blast+

lemma leases_ok_step:
  assumes leases: "leases_ok cfg svc tasks" and t: "tasks i = Some t" and moves: "registry_moves cfg svc t svc' t'"
  shows "leases_ok cfg svc' (tasks(i \<mapsto> t'))"
proof -
  let ?A = "svc_active_sessions svc" and ?g = "mt_active_sessions (svc_metrics svc)"
  have held: "holds_key tasks i k \<longleftrightarrow> held_key t = Some k" for k using t by (simp add: holds_key_def)
  have fin: "finite ?A" and gauge: "?g = of_nat (card ?A)" using leases by (simp_all add: leases_ok_def)
  note active = leases_active [OF leases] and unique = leases_unique [OF leases]
  have keep: ?thesis if "held_key t' = held_key t \<or> held_key t' = None" "svc_active_sessions svc' = ?A"
      "mt_active_sessions (svc_metrics svc') = ?g"
  proof -
    have old: "holds_key tasks j k" if "holds_key (tasks(i \<mapsto> t')) j k" for j k
      using that \<open>held_key t' = held_key t \<or> held_key t' = None\<close> held by (cases "j = i") auto
    with that leases active unique show ?thesis unfolding leases_ok_def by metis
  qed
  have acquire: ?thesis if "held_key t' = Some k" "k \<notin> ?A" "card ?A < lim_max_active_sessions (cfg_limits cfg)"
      "svc_active_sessions svc' = insert k ?A" "mt_active_sessions (svc_metrics svc') = ?g + 1" for k
  proof -
    have old: "k' = k \<and> j = i \<or> k' \<noteq> k \<and> holds_key tasks j k'" if "holds_key (tasks(i \<mapsto> t')) j k'" for j k'
      using that \<open>held_key t' = Some k\<close> active [of j k'] \<open>k \<notin> ?A\<close> by (cases "j = i") auto
    have "mt_active_sessions (svc_metrics svc') = of_nat (card (svc_active_sessions svc'))"
        "card (svc_active_sessions svc') \<le> lim_max_active_sessions (cfg_limits cfg)" "finite (svc_active_sessions svc')"
      using that fin gauge by simp_all
    with old active unique that(4) show ?thesis unfolding leases_ok_def by (metis insert_iff)
  qed
  have release: ?thesis if "held_key t = Some k" "held_key t' = None" "k \<in> ?A" "svc_active_sessions svc' = ?A - {k}"
      "mt_active_sessions (svc_metrics svc') = ?g - 1" for k
  proof -
    have "0 < card ?A" using fin that(3) by (auto simp: card_gt_0_iff)
    then have "of_nat (card ?A) - (1 :: u64) = of_nat (card ?A - 1)" by (simp add: of_nat_diff)
    then have facts: "mt_active_sessions (svc_metrics svc') = of_nat (card (svc_active_sessions svc'))"
        "card (svc_active_sessions svc') \<le> lim_max_active_sessions (cfg_limits cfg)" "finite (svc_active_sessions svc')"
      using that fin gauge leases by (auto simp: leases_ok_def)
    have old: "holds_key tasks j k' \<and> k' \<noteq> k" if "holds_key (tasks(i \<mapsto> t')) j k'" for j k'
      using that unique [of j k' i] held \<open>held_key t = Some k\<close> \<open>held_key t' = None\<close> by (cases "j = i") auto
    from facts old active unique that(4) show ?thesis unfolding leases_ok_def by (metis Diff_iff singletonD)
  qed
  from moves [unfolded registry_moves_def Let_def] show ?thesis
    by (elim disjE exE conjE) (simp_all add: keep acquire release held_key_def)
qed

lemma service_inv_step:
  assumes laws: "codec_laws (cfg_store cfg)" and inv: "service_inv cfg (svc, tasks)" and t: "tasks i = Some t"
    and good: "good_step cfg svc t svc' t'"
  shows "service_inv cfg (svc', tasks(i \<mapsto> t'))"
proof -
  let ?v = "session_view (cfg_store cfg) (svc_store svc)" and ?v' = "session_view (cfg_store cfg) (svc_store svc')"
  from inv have leases: "leases_ok cfg svc tasks" and oks: "\<And>j u. tasks j = Some u \<Longrightarrow> task_ok ?v u"
    by (auto simp: service_inv_def)
  from good have parts: "store_inv (cfg_store cfg) (svc_store svc')" "task_ok ?v' t'" "registry_moves cfg svc t svc' t'"
    and owner: "\<And>k. ?v' k \<noteq> ?v k \<Longrightarrow> task_owner t = Some k"
    by (auto simp: good_step_def Let_def)
  have "task_ok ?v' u" if u: "tasks j = Some u" "j \<noteq> i" for j u
  proof (rule task_ok_frame [OF oks [OF u(1)]])
    fix k assume "task_owner u = Some k"
    then have "holds_key tasks j k" using owner_held [OF oks [OF u(1)]] u(1) by (simp add: holds_key_def)
    moreover have "holds_key tasks i k" if "?v' k \<noteq> ?v k"
      using owner_held [OF oks [OF t] owner [OF that]] t by (simp add: holds_key_def)
    ultimately show "?v' k = ?v k" using leases_unique [OF leases] u(2) by blast
  qed
  with parts leases_ok_step [OF leases t parts(3)] show ?thesis by (auto simp: service_inv_def)
qed

lemma reachable_inv:
  assumes laws: "codec_laws (cfg_store cfg)" and "service_reachable cfg w"
  shows "service_inv cfg w"
  using assms(2)
proof induction
  case (reachable_start poll svc)
  then show ?case
    by (auto simp: service_inv_def leases_ok_def holds_key_def service_new_def store_inv_empty default_metrics_def
        split: if_splits)
next
  case (reachable_step w w')
  from reachable_step(2,3) show ?case
  proof cases
    case (step_open svc metadata t svc' tasks i)
    then show ?thesis using reachable_step(3)
      by (auto simp: session_def service_inv_def leases_ok_def task_new_def task_ok_def task_defs held_key_def held_lease_def
          split: if_splits)
  next
    case (step_refuse svc metadata status svc' tasks)
    then show ?thesis using reachable_step(3)
      by (auto simp: session_def service_inv_def leases_ok_def count_authentication_rejection_def split: if_splits)
  next
    case (step_task tasks i t ch svc wakeup svc' t')
    have inv: "service_inv cfg (svc, tasks)" using reachable_step(3) step_task(1) by simp
    then have "good_step cfg svc t svc' t'"
      using task_step_good [OF laws _ _ step_task(4)] step_task(3) by (auto simp: service_inv_def)
    from service_inv_step [OF laws inv, of i, OF step_task(3) this] step_task(2) show ?thesis by simp
  next
    case (step_shutdown svc tasks)
    then show ?thesis using reachable_step(3) by (auto simp: service_inv_def leases_ok_def shutdown_def)
  next
    case (step_poison svc tasks)
    then show ?thesis using reachable_step(3) by (auto simp: service_inv_def leases_ok_def)
  next
    case (step_restart svc poll svc' tasks)
    then show ?thesis using reachable_step(3)
      by (auto simp: service_inv_def leases_ok_def holds_key_def service_new_def default_metrics_def split: if_splits)
  qed
qed

section \<open>Properties\<close>

text \<open>
  C9: Exclusive sessions. In every reachable state of the service two different streams never own
  the same session and chain, at most \<open>max_active_sessions\<close> sessions are leased, and the
  \<open>active_sessions\<close> gauge counts exactly the registered leases. Registering a lease and counting it
  are one step of the model; the code counts right after it has unlocked the registry.
\<close>

theorem service_sessions_exclusive:
  assumes "codec_laws (cfg_store cfg)" and "service_reachable cfg (svc, tasks)"
  shows "(\<forall>i j t u k. tasks i = Some t \<longrightarrow> tasks j = Some u \<longrightarrow> task_owner t = Some k \<longrightarrow> task_owner u = Some k \<longrightarrow> i = j) \<and>
    card (svc_active_sessions svc) \<le> lim_max_active_sessions (cfg_limits cfg) \<and>
    mt_active_sessions (svc_metrics svc) = of_nat (card (svc_active_sessions svc))"
proof -
  from reachable_inv [OF assms] have leases: "leases_ok cfg svc tasks"
    and oks: "\<And>i t. tasks i = Some t \<Longrightarrow> task_ok (session_view (cfg_store cfg) (svc_store svc)) t"
    by (auto simp: service_inv_def)
  have "holds_key tasks i k" if "tasks i = Some t" "task_owner t = Some k" for i t k
    using owner_held [OF oks [OF that(1)] that(2)] that(1) by (simp add: holds_key_def)
  then show ?thesis using leases leases_unique [OF leases] unfolding leases_ok_def by metis
qed

text \<open>
  C8: The source is asked only from committed state. Whenever a stream waits for a delivery of its
  source, under any interleaving with other streams and any failures, the request it sent carries
  the desired state, the acknowledged cursor and the promised replacement that are on disk for the
  session the stream owns.
\<close>

theorem service_requests_committed_state:
  assumes "codec_laws (cfg_store cfg)" and "service_reachable cfg (svc, tasks)" and "tasks i = Some t"
    and "tk_at t = AwaitingDelivery request"
  shows "\<exists>k. task_owner t = Some k \<and>
    ps_desired_state (session_view (cfg_store cfg) (svc_store svc) k) = Some (dr_desired_state request) \<and>
    ps_acknowledged_cursor (session_view (cfg_store cfg) (svc_store svc) k) = dr_acknowledged_cursor request \<and>
    ps_expected_reorg_tip (session_view (cfg_store cfg) (svc_store svc) k) = dr_required_reorg_anchor request"
proof -
  let ?v = "session_view (cfg_store cfg) (svc_store svc)"
  from reachable_inv [OF assms(1,2)] assms(3) have "task_ok ?v t" by (auto simp: service_inv_def)
  with assms(4) obtain k where serving: "serving ?v k t" and ds: "tk_desired_state t = Some (dr_desired_state request)"
    and req: "request = delivery_request t (dr_desired_state request)"
    by (auto simp: task_ok_def)
  have "dr_acknowledged_cursor request = tk_cursor t" "dr_required_reorg_anchor request = tk_required_reorg_anchor t"
    using req by (simp_all add: delivery_request_def) (metis DeliveryRequest.select_convs)+
  with servingD [OF serving] ds show ?thesis by (auto simp: synced_def)
qed

text \<open>
  C4: Nothing is announced before it is durable. Whatever a step of a stream sends to its client
  is true of the database at the end of the step: a delivery is the one in the durable outbox, a
  committed acknowledgement names the cursor on disk with its sequence, an applied desired state
  has the revision on disk, and the answer to Hello repeats the committed session: its desired
  state and revision, its acknowledged cursor and its runtime checkpoint.
\<close>

theorem service_reports_durable_state:
  assumes "codec_laws (cfg_store cfg)" and "service_reachable cfg (svc, tasks)" and "tasks i = Some t"
    and "task_step cfg ch svc t wakeup = Some (svc', t')"
  shows "\<exists>ms. tk_outbound t' = tk_outbound t @ ms \<and>
    (\<forall>m. Ok m \<in> set ms \<longrightarrow> truthful (session_view (cfg_store cfg) (svc_store svc')) (tk_identity t') m)"
proof -
  from reachable_inv [OF assms(1,2)] assms(3) have "store_inv (cfg_store cfg) (svc_store svc)"
    "task_ok (session_view (cfg_store cfg) (svc_store svc)) t" by (auto simp: service_inv_def)
  from task_step_good [OF assms(1) this assms(4)] show ?thesis by (simp add: good_step_def Let_def)
qed

text \<open>
  C10: Only a proven owner changes a session. A step of a stream changes the durable state of a
  session only when the stream owns that session and its client has confirmed its position. A
  stream becomes confirmed only in the step that accepts the Hello it is negotiating, when the
  position of that very Hello is proved against the durable session it names; and the Hello a
  stream negotiates is one its client sent on the stream.
\<close>

theorem service_only_proven_owner_commits:
  assumes "codec_laws (cfg_store cfg)" and "service_reachable cfg (svc, tasks)" and "tasks i = Some t"
    and "task_step cfg ch svc t wakeup = Some (svc', t')"
  shows "(\<forall>k. session_view (cfg_store cfg) (svc_store svc') k \<noteq> session_view (cfg_store cfg) (svc_store svc) k \<longrightarrow>
      task_owner t = Some k \<and> tk_position_confirmed t) \<and>
    (tk_position_confirmed t' \<longrightarrow> tk_position_confirmed t \<or>
      (\<exists>hello. hello_of (tk_at t) = Some hello \<and> tk_identity t' = Some (he_session_id hello, he_chain_id hello) \<and>
         validate_hello_position hello (session_view (cfg_store cfg) (svc_store svc')
           (he_session_id hello, he_chain_id hello)) = Ok Confirmed)) \<and>
    (\<forall>hello. hello_of (tk_at t') = Some hello \<longrightarrow>
      hello_of (tk_at t) = Some hello \<or> wakeup = OnInbound (Some (Some (ClientHello hello))))"
proof -
  from reachable_inv [OF assms(1,2)] assms(3) have "store_inv (cfg_store cfg) (svc_store svc)"
    "task_ok (session_view (cfg_store cfg) (svc_store svc)) t" by (auto simp: service_inv_def)
  from task_step_good [OF assms(1) this assms(4)] task_step_hello [OF assms(4)] show ?thesis
    unfolding good_step_def Let_def proven_def fst_conv snd_conv by blast
qed

section \<open>Resume positions\<close>

text \<open>The proof a client can give when its runtime checkpoint embodies a delivery's cursor.\<close>

definition resume_hello :: "string \<Rightarrow> Cursor \<Rightarrow> Hello" where
  "resume_hello session_id c =
     \<lparr>he_protocol_version = PROTOCOL_VERSION, he_session_id = session_id, he_chain_id = cur_chain_id c,
      he_acknowledged_sequence = cur_batch_sequence c,
      he_pending_delivery_resume = Some
        \<lparr>pr_delivery_token = u64_to_be_bytes (cur_batch_sequence c),
         pr_provider_checkpoint = (if cur_provider_checkpoint c = [] then None else Some (cur_provider_checkpoint c)),
         pr_coverage_head = cur_canonical_head c\<rparr>\<rparr>"

lemma resume_matches_cursor_Ok_iff:
  "resume_matches_cursor r token c = Ok u \<longleftrightarrow>
     pr_delivery_token r = token \<and> pr_coverage_head r = cur_canonical_head c \<and>
     pr_provider_checkpoint r = (if cur_provider_checkpoint c = [] then None else Some (cur_provider_checkpoint c))"
  by (auto simp: resume_matches_cursor_def Let_def)

lemma view_cases:
  assumes "store_inv env store"
  obtains (fresh) "session_view env store k = persisted_default"
    | (valid) rv act where "valid_session env k rv act (session_view env store k)"
  using valid_session_default_or [OF assms] by blast

lemma runtime_cursor_bounds:
  assumes inv: "store_inv env store" and c: "ps_runtime_checkpoint_cursor (session_view env store k) = Some c"
  shows "cur_batch_sequence c \<noteq> 0"
    and "unat (cur_batch_sequence c) \<le> unat (cursor_sequence (ps_acknowledged_cursor (session_view env store k)))"
proof (atomize (full), cases rule: view_cases [OF inv, of k, case_names fresh valid])
  case fresh
  with c show "cur_batch_sequence c \<noteq> 0 \<and>
    unat (cur_batch_sequence c) \<le> unat (cursor_sequence (ps_acknowledged_cursor (session_view env store k)))"
    by (simp add: persisted_default_def)
next
  case (valid rv act)
  then obtain ds where ds: "ps_desired_state (session_view env store k) = Some ds"
    by (auto simp: valid_session_def session_ok_def)
  with valid c have "validate_persisted_runtime_cursor (snd k) rv (session_view env store k) c = Ok ()"
    by (simp add: valid_session_def valid_session_iff [OF ds])
  then show "cur_batch_sequence c \<noteq> 0 \<and>
    unat (cur_batch_sequence c) \<le> unat (cursor_sequence (ps_acknowledged_cursor (session_view env store k)))"
    by (auto simp: runtime_cursor_Ok_iff persisted_cursor_Ok_iff cursor_sequence_def u64_order)
qed

lemma pending_bounds:
  assumes inv: "store_inv env store" and d: "ps_pending_delivery (session_view env store k) = Some d"
  obtains c where "del_cursor d = Some c" "cur_batch_sequence c = del_sequence d"
    "unat (del_sequence d) = Suc (unat (cursor_sequence (ps_acknowledged_cursor (session_view env store k))))"
    "del_delivery_token d = u64_to_be_bytes (del_sequence d)"
proof (cases rule: view_cases [OF inv, of k, case_names fresh valid])
  case fresh
  with d show thesis by (simp add: persisted_default_def)
next
  case (valid rv act)
  from pending_facts [OF valid d] obtain ds where
    "next_in_flight ds (ps_acknowledged_cursor (session_view env store k)) d" by blast
  then obtain c where "del_cursor d = Some c" "cur_batch_sequence c = del_sequence d"
    "unat (del_sequence d) = Suc (acked_sequence (ps_acknowledged_cursor (session_view env store k)))"
    "del_delivery_token d = u64_to_be_bytes (del_sequence d)"
    by (auto simp: next_in_flight_def)
  then show thesis
    by (intro that) (simp_all add: cursor_sequence_def acked_sequence_def split: option.splits)
qed

text \<open>
  C39: Resume positions. A position is confirmed only if the client's sequence is the durable
  runtime checkpoint's or that of the delivery in flight, proven in the latter case by the
  delivery's token, provider checkpoint and coverage head; a proof that comes with the runtime
  checkpoint's sequence has to be the one of that checkpoint. Conversely a client whose runtime
  embodies the durable checkpoint, or the one delivery in flight (the window of a crash between
  ingestion and acknowledgement), is always confirmed with its proof; and a client that knows
  nothing is confirmed when nothing was checkpointed and admitted for discovery otherwise.
\<close>

theorem hello_position_authority:
  assumes "codec_laws env" and "store_reachable env store" and "p = session_view env store k"
  shows "(\<forall>hello. validate_hello_position hello p = Ok Confirmed \<longrightarrow>
      he_acknowledged_sequence hello = cursor_sequence (ps_runtime_checkpoint_cursor p) \<and>
      (he_pending_delivery_resume hello = None \<or>
       (\<exists>c. ps_runtime_checkpoint_cursor p = Some c \<and>
          he_pending_delivery_resume hello = he_pending_delivery_resume (resume_hello [] c))) \<or>
      (\<exists>d c. ps_pending_delivery p = Some d \<and> del_cursor d = Some c \<and> he_acknowledged_sequence hello = del_sequence d \<and>
         he_pending_delivery_resume hello = he_pending_delivery_resume (resume_hello [] c))) \<and>
    (\<forall>c sid. ps_runtime_checkpoint_cursor p = Some c \<longrightarrow> validate_hello_position (resume_hello sid c) p = Ok Confirmed) \<and>
    (\<forall>d c sid. ps_pending_delivery p = Some d \<longrightarrow> del_cursor d = Some c \<longrightarrow>
      validate_hello_position (resume_hello sid c) p = Ok Confirmed) \<and>
    (\<forall>hello. he_acknowledged_sequence hello = 0 \<longrightarrow> he_pending_delivery_resume hello = None \<longrightarrow>
      validate_hello_position hello p =
        Ok (if ps_runtime_checkpoint_cursor p = None then Confirmed else DiscoveryOnly))"
proof -
  have inv: "store_inv env store" by (rule reachable_store_inv [OF assms(1,2)])
  note runtime = runtime_cursor_bounds [OF inv, of k, folded assms(3)]
  note pending = pending_bounds [OF inv, of k, folded assms(3)]
  have sound: "he_acknowledged_sequence hello = cursor_sequence (ps_runtime_checkpoint_cursor p) \<and>
      (he_pending_delivery_resume hello = None \<or>
       (\<exists>c. ps_runtime_checkpoint_cursor p = Some c \<and>
          he_pending_delivery_resume hello = he_pending_delivery_resume (resume_hello [] c))) \<or>
      (\<exists>d c. ps_pending_delivery p = Some d \<and> del_cursor d = Some c \<and> he_acknowledged_sequence hello = del_sequence d \<and>
         he_pending_delivery_resume hello = he_pending_delivery_resume (resume_hello [] c))"
    if ok: "validate_hello_position hello p = Ok Confirmed" for hello
  proof (cases "he_acknowledged_sequence hello = cursor_sequence (ps_runtime_checkpoint_cursor p)")
    case False
    with ok obtain r d c where r: "he_pending_delivery_resume hello = Some r" "ps_pending_delivery p = Some d"
        "del_cursor d = Some c" "he_acknowledged_sequence hello = del_sequence d" "del_delivery_token d = pr_delivery_token r"
        "resume_matches_cursor r (del_delivery_token d) c = Ok ()"
      by (auto simp: validate_hello_position_def Let_def bind_res_Ok_iff ok_or_Ok_iff if_Err_Ok_iff
          split: option.splits if_splits)
    from pending [OF r(2)] obtain c' where "del_cursor d = Some c'" "cur_batch_sequence c' = del_sequence d"
      "del_delivery_token d = u64_to_be_bytes (del_sequence d)" by blast
    with r have "r = the (he_pending_delivery_resume (resume_hello [] c))"
      by (intro PendingDeliveryResume.equality) (auto simp: resume_matches_cursor_Ok_iff resume_hello_def)
    with r show ?thesis by (auto simp: resume_hello_def)
  next
    case True
    show ?thesis
    proof (cases "he_pending_delivery_resume hello")
      case None
      with True show ?thesis by simp
    next
      case (Some r)
      with ok True obtain c where c: "ps_runtime_checkpoint_cursor p = Some c"
          "resume_matches_cursor r (u64_to_be_bytes (cur_batch_sequence c)) c = Ok ()"
        by (auto simp: validate_hello_position_def Let_def bind_res_Ok_iff ok_or_Ok_iff cursor_sequence_def)
      then have "r = the (he_pending_delivery_resume (resume_hello [] c))"
        by (intro PendingDeliveryResume.equality) (auto simp: resume_matches_cursor_Ok_iff resume_hello_def)
      with True Some c(1) show ?thesis by (auto simp: resume_hello_def)
    qed
  qed
  have checkpoint: "validate_hello_position (resume_hello sid c) p = Ok Confirmed"
    if "ps_runtime_checkpoint_cursor p = Some c" for sid c
    using that by (simp add: validate_hello_position_def resume_hello_def cursor_sequence_def ok_or_def
        resume_matches_cursor_def)
  have flight: "validate_hello_position (resume_hello sid c) p = Ok Confirmed"
    if d: "ps_pending_delivery p = Some d" and c: "del_cursor d = Some c" for sid d c
  proof -
    from pending [OF d] c have facts: "cur_batch_sequence c = del_sequence d"
        "unat (del_sequence d) = Suc (unat (cursor_sequence (ps_acknowledged_cursor p)))"
        "del_delivery_token d = u64_to_be_bytes (del_sequence d)" by (metis option.inject)+
    have "unat (cursor_sequence (ps_runtime_checkpoint_cursor p)) \<le> unat (cursor_sequence (ps_acknowledged_cursor p))"
      using runtime(2) by (cases "ps_runtime_checkpoint_cursor p") (simp_all add: cursor_sequence_def)
    with facts(2) have ahead: "del_sequence d \<noteq> cursor_sequence (ps_runtime_checkpoint_cursor p)" by auto
    have "checked_add (cursor_sequence (ps_acknowledged_cursor p)) 1 = Some (del_sequence d)"
      using facts(2) by (simp add: u64_succ_iff)
    with facts ahead d c show ?thesis
      by (simp add: validate_hello_position_def resume_hello_def ok_or_def resume_matches_cursor_def)
  qed
  have fresh: "validate_hello_position hello p =
      Ok (if ps_runtime_checkpoint_cursor p = None then Confirmed else DiscoveryOnly)"
    if "he_acknowledged_sequence hello = 0" "he_pending_delivery_resume hello = None" for hello
    using that runtime(1) by (cases "ps_runtime_checkpoint_cursor p")
      (auto simp: validate_hello_position_def cursor_sequence_def)
  from sound checkpoint flight fresh show ?thesis by blast
qed

section \<open>Resource limits\<close>

definition log_values :: "PortableInterest \<Rightarrow> nat" where
  "log_values interest =
     (case pi_kind interest of
        Some (KindLog log) \<Rightarrow> length (li_addresses log) + sum_list (map (\<lambda>topic. length (tv_values topic)) (li_topics log))
      | _ \<Rightarrow> 0)"

definition interest_within :: "EventServiceLimits \<Rightarrow> PortableInterest \<Rightarrow> bool" where
  "interest_within limits interest \<longleftrightarrow>
     (case pi_kind interest of
        Some (KindLog log) \<Rightarrow>
          length (li_addresses log) \<le> lim_max_addresses_per_log_interest limits \<and>
          (\<forall>topic \<in> set (li_topics log). length (tv_values topic) \<le> lim_max_values_per_topic limits)
      | _ \<Rightarrow> True)"

definition backfill_within :: "EventServiceLimits \<Rightarrow> OwnerInterests \<Rightarrow> bool" where
  "backfill_within limits owner \<longleftrightarrow>
     (\<forall>b e. oi_backfill owner = Some b \<longrightarrow> bf_to_block_excl b = Some e \<longrightarrow>
        unat e \<le> unat (bf_from_block b) + unat (lim_max_bounded_backfill_blocks limits))"

definition owner_within :: "EventServiceLimits \<Rightarrow> OwnerInterests \<Rightarrow> bool" where
  "owner_within limits owner \<longleftrightarrow>
     length (oi_owner_id owner) \<le> lim_max_identifier_bytes limits \<and>
     length (oi_interests owner) \<le> lim_max_interests_per_owner limits \<and>
     backfill_within limits owner \<and> (\<forall>interest \<in> set (oi_interests owner). interest_within limits interest)"

definition owner_values :: "OwnerInterests \<Rightarrow> nat" where
  "owner_values owner = sum_list (map log_values (oi_interests owner))"

lemma foldl_saturating:
  "x \<le> usize_max \<Longrightarrow> foldl usize_saturating_add x xs = min (x + sum_list xs) usize_max"
  by (induction xs arbitrary: x) (auto simp: usize_saturating_add_def min_def)

lemma limit_interest_Ok_iff:
  assumes "n \<le> lim_max_total_filter_values limits" and "lim_max_total_filter_values limits < usize_max"
  shows "limit_interest limits interest n = Ok m \<longleftrightarrow>
    interest_within limits interest \<and> n + log_values interest \<le> lim_max_total_filter_values limits \<and> m = n + log_values interest"
proof (cases "\<exists>log. pi_kind interest = Some (KindLog log)")
  case True
  then obtain log where log: "pi_kind interest = Some (KindLog log)" by blast
  have total: "usize_saturating_add (usize_saturating_add n (length (li_addresses log)))
      (foldl usize_saturating_add 0 (map (\<lambda>topic. length (tv_values topic)) (li_topics log))) =
      min (n + log_values interest) usize_max"
    by (simp add: log log_values_def foldl_saturating) (simp add: usize_saturating_add_def)
  have "min (n + log_values interest) usize_max \<le> lim_max_total_filter_values limits \<longleftrightarrow>
      n + log_values interest \<le> lim_max_total_filter_values limits"
    using assms(2) by (auto simp: min_def)
  moreover have "min (n + log_values interest) usize_max = n + log_values interest"
    if "n + log_values interest \<le> lim_max_total_filter_values limits"
    using that assms(2) by simp
  ultimately show ?thesis
    by (auto simp: limit_interest_def log total Let_def if_Err_Ok_iff interest_within_def list_ex_iff not_less)
next
  case False
  then show ?thesis using assms(1)
    by (auto simp: limit_interest_def interest_within_def log_values_def split: option.splits InterestKind.splits)
qed

lemma limit_interests_Ok_iff:
  assumes "n \<le> lim_max_total_filter_values limits" and "lim_max_total_filter_values limits < usize_max"
  shows "fold_res (limit_interest limits) is n = Ok m \<longleftrightarrow>
    (\<forall>interest \<in> set is. interest_within limits interest) \<and>
    n + sum_list (map log_values is) \<le> lim_max_total_filter_values limits \<and> m = n + sum_list (map log_values is)"
  using assms(1)
proof (induction "is" arbitrary: n)
  case (Cons interest "is")
  then show ?case
    by (auto simp: bind_res_Ok_iff limit_interest_Ok_iff [OF Cons.prems assms(2)] add.assoc)
qed auto

lemma backfill_check_iff:
  "is_some_and (\<lambda>backfill. is_some_and (\<lambda>to_block. m < saturating_sub to_block (bf_from_block backfill)) (bf_to_block_excl backfill))
     (oi_backfill owner) \<longleftrightarrow>
   \<not> (\<forall>b e. oi_backfill owner = Some b \<longrightarrow> bf_to_block_excl b = Some e \<longrightarrow> unat e \<le> unat (bf_from_block b) + unat m)"
  by (auto simp: is_some_and_def saturating_sub_def u64_order unat_sub word_le_nat_alt split: option.splits)

lemma limit_owner_Ok_iff:
  assumes "n \<le> lim_max_total_interests limits" and "lim_max_total_interests limits < usize_max"
    and "v \<le> lim_max_total_filter_values limits" and "lim_max_total_filter_values limits < usize_max"
  shows "limit_owner limits owner (n, v) = Ok (n', v') \<longleftrightarrow>
    owner_within limits owner \<and> n + length (oi_interests owner) \<le> lim_max_total_interests limits \<and>
    v + owner_values owner \<le> lim_max_total_filter_values limits \<and>
    n' = n + length (oi_interests owner) \<and> v' = v + owner_values owner"
  unfolding limit_owner_def Let_def prod.case backfill_check_iff
  using assms limit_interests_Ok_iff [OF assms(3,4)]
  by (auto simp: if_Err_Ok_iff bind_res_Ok_iff usize_saturating_add_def owner_within_def owner_values_def
      backfill_within_def not_less min_def)

lemma limit_owners_Ok_iff:
  assumes "n \<le> lim_max_total_interests limits" and "lim_max_total_interests limits < usize_max"
    and "v \<le> lim_max_total_filter_values limits" and "lim_max_total_filter_values limits < usize_max"
  shows "(\<exists>x. fold_res (limit_owner limits) owners (n, v) = Ok x) \<longleftrightarrow>
    (\<forall>owner \<in> set owners. owner_within limits owner) \<and>
    n + sum_list (map (\<lambda>owner. length (oi_interests owner)) owners) \<le> lim_max_total_interests limits \<and>
    v + sum_list (map owner_values owners) \<le> lim_max_total_filter_values limits"
  using assms(1,3)
proof (induction owners arbitrary: n v)
  case (Cons owner owners)
  show ?case
  proof (cases "owner_within limits owner \<and> n + length (oi_interests owner) \<le> lim_max_total_interests limits \<and>
      v + owner_values owner \<le> lim_max_total_filter_values limits")
    case True
    then have "limit_owner limits owner (n, v) = Ok (n + length (oi_interests owner), v + owner_values owner)"
      using limit_owner_Ok_iff [OF Cons.prems(1) assms(2) Cons.prems(2) assms(4)] by blast
    with True Cons.IH [of "n + length (oi_interests owner)" "v + owner_values owner"] show ?thesis
      by (simp add: add.assoc)
  next
    case False
    then have "\<nexists>x. limit_owner limits owner (n, v) = Ok x"
      using limit_owner_Ok_iff [OF Cons.prems(1) assms(2) Cons.prems(2) assms(4)] by auto
    with False show ?thesis by (auto simp: bind_res_Ok_iff)
  qed
qed simp

text \<open>
  C40: The resource policy. With total limits below the \<open>usize\<close> maximum, the single pass with
  saturating counters accepts a desired state exactly when it respects every configured limit:
  identifier bytes, owners, encoded size, interests and filter values per owner and interest, the
  span of every bounded backfill, and the true sums over the whole request.
\<close>

theorem validate_limits_exact:
  assumes "lim_max_total_interests limits < usize_max" and "lim_max_total_filter_values limits < usize_max"
  shows "validate_limits len request limits = Ok () \<longleftrightarrow>
    length (ads_session_id request) \<le> lim_max_identifier_bytes limits \<and>
    length (ads_owners request) \<le> lim_max_owners limits \<and> len request \<le> lim_max_desired_state_bytes limits \<and>
    (\<forall>owner \<in> set (ads_owners request). owner_within limits owner) \<and>
    sum_list (map (\<lambda>owner. length (oi_interests owner)) (ads_owners request)) \<le> lim_max_total_interests limits \<and>
    sum_list (map owner_values (ads_owners request)) \<le> lim_max_total_filter_values limits"
  using limit_owners_Ok_iff [OF _ assms(1) _ assms(2), of 0 0 "ads_owners request"]
  by (auto simp: validate_limits_def if_Err_Ok_iff bind_res_Ok_iff not_less)

section \<open>A run of the service\<close>

definition sample_config :: "unit ServiceConfig" where
  "sample_config =
     \<lparr>cfg_store = sample_store_env,
      cfg_limits = default_limits\<lparr>lim_max_delivery_bytes := 1000, lim_max_persisted_sessions := 10\<rparr>,
      cfg_desired_len = (\<lambda>_. 100), cfg_authorize = (\<lambda>_. True), cfg_authorize_session = (\<lambda>_ _ _. True),
      cfg_capabilities_for_chain = (\<lambda>_. \<lparr>sc_capabilities = [], sc_sources = []\<rparr>)\<rparr>"

definition smooth :: Chance where
  "smooth = \<lparr>ch_send = True, ch_sql = (\<lambda>_. False), ch_reload = (\<lambda>_. False)\<rparr>"

definition first_hello :: Hello where
  "first_hello = \<lparr>he_protocol_version = 1, he_session_id = ''s'', he_chain_id = 1, he_acknowledged_sequence = 0,
     he_pending_delivery_resume = None\<rparr>"

lemma smooth_simps [simp]: "ch_send smooth" "ch_sql smooth = (\<lambda>_. False)" "ch_reload smooth = (\<lambda>_. False)"
  by (simp_all add: smooth_def)

lemma sample_config_simps [simp]:
  "cfg_store sample_config = sample_store_env" "delivery_limit (cfg_limits sample_config) = 1000"
  "lim_max_persisted_sessions (cfg_limits sample_config) = 10" "lim_max_active_sessions (cfg_limits sample_config) = 4096"
  "lim_max_identifier_bytes (cfg_limits sample_config) = 256" "cfg_authorize sample_config m"
  "cfg_authorize_session sample_config m sid cid"
  by (simp_all add: sample_config_def default_limits_def delivery_limit_def MAX_MESSAGE_SIZE_BYTES_def)

lemma reachable_task:
  assumes "service_reachable cfg (svc, tasks)" and "tasks i = Some t"
    and "task_step cfg ch svc t wakeup = Some (svc', t')"
  shows "service_reachable cfg (svc', tasks(i \<mapsto> t'))"
  by (rule reachable_step [OF assms(1)]) (rule step_task, (rule assms)+)

text \<open>A client greets the service, the second stream is still silent.\<close>

lemma greeted_run:
  obtains svc t u where "service_reachable sample_config (svc, [0 \<mapsto> t, 1 \<mapsto> u])" "svc_store svc = \<lparr>ss_rows = []\<rparr>"
    "svc_next_preparation_id svc = 1" "tk_at t = Selecting" "tk_identity t = Some run_key" "tk_position_confirmed t"
    "tk_session_lease t = Some \<lparr>ls_key = run_key, ls_retain_registry_entry = False\<rparr>"
proof -
  define svc0 where "svc0 = \<lparr>svc_store = \<lparr>ss_rows = []\<rparr>, svc_next_preparation_id = 1, svc_active_sessions = {},
    svc_registry_poisoned = False, svc_metrics = default_metrics, svc_shutdown = False\<rparr>"
  have "service_new \<lparr>ss_rows = []\<rparr> 1 = Ok svc0" by (simp add: service_new_def svc0_def)
  from reachable_start [OF this] have r0: "service_reachable sample_config (svc0, Map.empty)" .
  have open1: "session sample_config svc0 () = (Ok (task_new ()), svc0)" by (simp add: session_def svc0_def)
  have "service_reachable sample_config (svc0, [0 \<mapsto> task_new ()])"
    by (rule reachable_step [OF r0]) (rule step_open [OF open1], simp)
  then have r1: "service_reachable sample_config (svc0, [0 \<mapsto> task_new (), 1 \<mapsto> task_new ()])"
    by (rule reachable_step) (rule step_open [OF open1], simp)
  let ?lease = "\<lparr>ls_key = run_key, ls_retain_registry_entry = False\<rparr>"
  define svc1 where "svc1 = svc0\<lparr>svc_active_sessions := {run_key},
    svc_metrics := default_metrics\<lparr>mt_active_sessions := 1\<rparr>\<rparr>"
  define t1 where "t1 = (task_new ())\<lparr>tk_at := HelloLoading first_hello ?lease\<rparr>"
  have s1: "task_step sample_config smooth svc0 (task_new ()) (OnInbound (Some (Some (ClientHello first_hello)))) = Some (svc1, t1)"
    by (simp add: task_step_def task_new_def on_select_def on_inbound_def on_hello_def first_hello_def PROTOCOL_VERSION_def
        acquire_lease_def svc0_def svc1_def t1_def default_metrics_def)
  from reachable_task [OF r1 _ s1, of 0] have r2: "service_reachable sample_config (svc1, [0 \<mapsto> t1, 1 \<mapsto> task_new ()])"
    by (simp add: fun_upd_twist)
  obtain svc2 t2 where s2: "task_step sample_config smooth svc1 t1 OnStoreLock = Some (svc2, t2)"
    and facts: "svc_store svc2 = \<lparr>ss_rows = []\<rparr>" "svc_next_preparation_id svc2 = 1" "tk_at t2 = Selecting"
      "tk_identity t2 = Some run_key" "tk_position_confirmed t2" "tk_session_lease t2 = Some ?lease"
    by (simp add: task_step_def t1_def on_hello_loaded_def load_def sql_def svc1_def svc0_def select_row_def Let_def
        persisted_default_def validate_hello_position_def first_hello_def cursor_sequence_def accept_hello_def
        reply_conv task_new_def)
  from reachable_task [OF r2 _ s2, of 0] have "service_reachable sample_config (svc2, [0 \<mapsto> t2, 1 \<mapsto> task_new ()])"
    by (simp add: fun_upd_twist)
  with facts that show thesis by blast
qed

lemma holds_load: "holds store p \<Longrightarrow> load sample_store_env (\<lambda>_. False) store ''s'' 1 = Ok p"
  using load_view [OF reachable_store_inv [OF sample_laws], of store "\<lambda>_. False" "''s''" 1 p]
  by (simp add: holds_def sessions_key_def sql_integers)

lemma run_request_admitted:
  "validate_limits (cfg_desired_len sample_config) run_request (cfg_limits sample_config) = Ok ()"
  "validate_desired_state run_request = Ok ()"
proof -
  have "lim_max_total_interests (cfg_limits sample_config) < usize_max"
      "lim_max_total_filter_values (cfg_limits sample_config) < usize_max"
    by (simp_all add: sample_config_def default_limits_def)
  then show "validate_limits (cfg_desired_len sample_config) run_request (cfg_limits sample_config) = Ok ()"
    by (simp add: validate_limits_def run_request_def sample_request_def sample_config_def default_limits_def limit_owner_def
        limit_interest_def usize_saturating_add_def is_some_and_def)
  show "validate_desired_state run_request = Ok ()"
    by (simp add: validate_desired_state_Ok_iff run_request_def desired_state_eval)
qed

text \<open>The client replaces its desired state.\<close>

lemma preparing_run:
  obtains svc t u where "service_reachable sample_config (svc, [0 \<mapsto> t, 1 \<mapsto> u])" "svc_store svc = \<lparr>ss_rows = []\<rparr>"
    "tk_at t = ApplyPreparing run_request 1" "tk_identity t = Some run_key" "tk_position_confirmed t"
    "tk_session_lease t = Some \<lparr>ls_key = run_key, ls_retain_registry_entry = False\<rparr>"
proof -
  obtain svc t u where r: "service_reachable sample_config (svc, [0 \<mapsto> t, 1 \<mapsto> u])"
    and facts: "svc_store svc = \<lparr>ss_rows = []\<rparr>" "svc_next_preparation_id svc = 1" "tk_at t = Selecting"
      "tk_identity t = Some run_key" "tk_position_confirmed t"
      "tk_session_lease t = Some \<lparr>ls_key = run_key, ls_retain_registry_entry = False\<rparr>"
    by (rule greeted_run)
  have "task_step sample_config smooth svc t (OnInbound (Some (Some (ClientApplyDesiredState run_request)))) =
      Some (svc\<lparr>svc_next_preparation_id := 2\<rparr>, t\<lparr>tk_at := ApplyPreparing run_request 1\<rparr>)"
    by (simp add: task_step_def facts on_select_def on_inbound_def on_apply_def run_request_admitted
        allocate_preparation_id_def checked_add_def)
  from reachable_task [OF r _ this, of 0]
  have "service_reachable sample_config (svc\<lparr>svc_next_preparation_id := 2\<rparr>, [0 \<mapsto> t\<lparr>tk_at := ApplyPreparing run_request 1\<rparr>, 1 \<mapsto> u])"
    by (simp add: fun_upd_twist)
  with facts show thesis
    by (intro that [of "svc\<lparr>svc_next_preparation_id := 2\<rparr>" "t\<lparr>tk_at := ApplyPreparing run_request 1\<rparr>" u]) simp_all
qed

definition prepared_boundary :: Wakeup where
  "prepared_boundary = OnPrepared (Some (Ok (Some (run_cursor 11 None 0))))"

lemma applied_run:
  obtains svc t u svc' t' where "service_reachable sample_config (svc, [0 \<mapsto> t, 1 \<mapsto> u])" "svc_store svc = \<lparr>ss_rows = []\<rparr>"
    "task_owner t = Some run_key" "tk_position_confirmed t"
    "task_step sample_config smooth svc t prepared_boundary = Some (svc', t')" "holds (svc_store svc') activated"
    "service_reachable sample_config (svc', [0 \<mapsto> t', 1 \<mapsto> u])" "tk_identity t' = Some run_key" "tk_position_confirmed t'"
    "\<exists>a. tk_at t' = ApplyActivating run_request 1 a True"
    "tk_session_lease t' = Some \<lparr>ls_key = run_key, ls_retain_registry_entry = False\<rparr>"
proof -
  obtain svc t u where r: "service_reachable sample_config (svc, [0 \<mapsto> t, 1 \<mapsto> u])"
    and facts: "svc_store svc = \<lparr>ss_rows = []\<rparr>" "tk_at t = ApplyPreparing run_request 1" "tk_identity t = Some run_key"
      "tk_position_confirmed t" "tk_session_lease t = Some \<lparr>ls_key = run_key, ls_retain_registry_entry = False\<rparr>"
    by (rule preparing_run)
  obtain a store where run: "apply_desired_state_with_cursor_and_limit sample_store_env (\<lambda>_. False) \<lparr>ss_rows = []\<rparr> run_request
       (Some (run_cursor 11 None 0)) 1000 10 = Ok ((a, True), store)" and holds: "holds store activated"
    by (rule activated_run)
  obtain svc' where step: "task_step sample_config smooth svc t prepared_boundary =
      Some (svc', t\<lparr>tk_at := ApplyActivating run_request 1 a True\<rparr>)" and store: "svc_store svc' = store"
    by (simp add: task_step_def facts prepared_boundary_def on_apply_prepared_def source_call_def run Let_def)
  from reachable_task [OF r _ step, of 0]
  have "service_reachable sample_config (svc', [0 \<mapsto> t\<lparr>tk_at := ApplyActivating run_request 1 a True\<rparr>, 1 \<mapsto> u])"
    by (simp add: fun_upd_twist)
  with r facts step store holds show thesis
    by (intro that [of svc t u svc' "t\<lparr>tk_at := ApplyActivating run_request 1 a True\<rparr>"]) (simp_all add: task_owner_def)
qed

text \<open>The activation is acknowledged and the client demands the next delivery.\<close>

lemma settled_step:
  assumes r: "service_reachable sample_config (svc, [0 \<mapsto> t, 1 \<mapsto> u])" and holds: "holds (svc_store svc) p"
    and step: "task_step sample_config smooth svc t wakeup = Some (svc', t')" and store: "svc_store svc' = svc_store svc"
  shows "service_reachable sample_config (svc', [0 \<mapsto> t', 1 \<mapsto> u]) \<and> holds (svc_store svc') p"
  using reachable_task [OF r _ step, of 0] holds store by (simp add: fun_upd_twist)

lemma active_run:
  obtains svc t u where "service_reachable sample_config (svc, [0 \<mapsto> t, 1 \<mapsto> u])" "holds (svc_store svc) activated"
    "tk_at t = Selecting" "tk_identity t = Some run_key" "tk_position_confirmed t" "tk_desired_state t = Some run_request"
    "tk_session_lease t = Some \<lparr>ls_key = run_key, ls_retain_registry_entry = False\<rparr>"
proof -
  obtain svc t u a where r: "service_reachable sample_config (svc, [0 \<mapsto> t, 1 \<mapsto> u])"
    and facts: "holds (svc_store svc) activated" "tk_identity t = Some run_key" "tk_position_confirmed t"
      "tk_at t = ApplyActivating run_request 1 a True"
      "tk_session_lease t = Some \<lparr>ls_key = run_key, ls_retain_registry_entry = False\<rparr>"
    by (rule applied_run) blast
  obtain t' where step: "task_step sample_config smooth svc t (OnDone (Some (Ok ()))) = Some (svc, t')"
    and facts': "tk_at t' = Selecting" "tk_identity t' = Some run_key" "tk_position_confirmed t'"
      "tk_desired_state t' = Some run_request"
      "tk_session_lease t' = Some \<lparr>ls_key = run_key, ls_retain_registry_entry = False\<rparr>"
    by (simp add: task_step_def facts on_apply_activated_def source_call_def holds_load [OF facts(1)] Let_def reply_conv)
  from settled_step [OF r facts(1) step refl] facts' that show thesis by blast
qed

lemma acked_run:
  obtains svc t u where "service_reachable sample_config (svc, [0 \<mapsto> t, 1 \<mapsto> u])"
    "holds (svc_store svc) (covered None None (run_cursor 11 None 1))"
    "tk_at t = AcknowledgementReconciling (ack_of activation) (run_cursor 11 None 1)" "tk_identity t = Some run_key"
    "tk_position_confirmed t" "tk_desired_state t = Some run_request"
    "tk_session_lease t = Some \<lparr>ls_key = run_key, ls_retain_registry_entry = False\<rparr>"
proof -
  obtain svc t u where r: "service_reachable sample_config (svc, [0 \<mapsto> t, 1 \<mapsto> u])"
    and facts: "holds (svc_store svc) activated" "tk_at t = Selecting" "tk_identity t = Some run_key"
      "tk_position_confirmed t" "tk_desired_state t = Some run_request"
      "tk_session_lease t = Some \<lparr>ls_key = run_key, ls_retain_registry_entry = False\<rparr>"
    by (rule active_run)
  from run_ack [OF facts(1), of activation] obtain c store p where
    ack: "acknowledge_with_status sample_store_env (\<lambda>_. False) (svc_store svc) 1 (ack_of activation) = Ok ((c, True), store)"
      "holds store p" "acks activated activation c p" by (auto simp: activated_def)
  have c: "c = run_cursor 11 None 1" and p: "p = covered None None (run_cursor 11 None 1)"
    using ack(3) by (auto simp: acks_def activated_def covered_def activation_def activation_delivery_def run_cursor_def
        expected_reorg_tip_after_ack_def persisted_default_def)
  obtain svc' t' where step: "task_step sample_config smooth svc t (OnInbound (Some (Some (ClientAcknowledge (ack_of activation))))) =
      Some (svc', t')" and facts': "svc_store svc' = store"
      "tk_at t' = AcknowledgementReconciling (ack_of activation) c" "tk_identity t' = Some run_key"
      "tk_position_confirmed t'" "tk_desired_state t' = Some run_request"
      "tk_session_lease t' = Some \<lparr>ls_key = run_key, ls_retain_registry_entry = False\<rparr>"
    using ack(1) holds_load [OF ack(2)]
    by (simp add: task_step_def facts on_select_def on_inbound_def on_acknowledge_def ack_of_def Let_def)
  from reachable_task [OF r _ step, of 0] have "service_reachable sample_config (svc', [0 \<mapsto> t', 1 \<mapsto> u])"
    by (simp add: fun_upd_twist)
  with facts' ack(2) c p that show thesis by blast
qed

lemma polled_run:
  obtains svc t u request where "service_reachable sample_config (svc, [0 \<mapsto> t, 1 \<mapsto> u])"
    "holds (svc_store svc) (covered None None (run_cursor 11 None 1))" "tk_at t = AwaitingDelivery request"
proof -
  obtain svc t u where r: "service_reachable sample_config (svc, [0 \<mapsto> t, 1 \<mapsto> u])"
    and holds: "holds (svc_store svc) (covered None None (run_cursor 11 None 1))"
    and facts: "tk_at t = AcknowledgementReconciling (ack_of activation) (run_cursor 11 None 1)" "tk_identity t = Some run_key"
      "tk_position_confirmed t" "tk_desired_state t = Some run_request"
    by (rule acked_run)
  obtain t1 where s1: "task_step sample_config smooth svc t (OnDone (Some (Ok ()))) = Some (svc, t1)"
    and f1: "tk_at t1 = Selecting" "tk_identity t1 = Some run_key" "tk_position_confirmed t1"
      "tk_desired_state t1 = Some run_request" "\<not> tk_has_pending t1"
    by (simp add: task_step_def facts on_acknowledgement_reconciled_def source_call_def send_outbound_def)
  obtain t2 where s2: "task_step sample_config smooth svc t1 (OnInbound (Some (Some (ClientDeliveryDemand \<lparr>dd_session_id = ''s''\<rparr>)))) =
      Some (svc, t2)"
    and f2: "tk_at t2 = Selecting" "wants_delivery t2" "tk_desired_state t2 = Some run_request"
    by (simp add: task_step_def f1 on_select_def on_inbound_def on_delivery_demand_def wants_delivery_def)
       (simp add: continue_loop_def)
  obtain t3 request where s3: "task_step sample_config smooth svc t2 OnTick = Some (svc, t3)"
    and f3: "tk_at t3 = AwaitingDelivery request"
    by (simp add: task_step_def f2 on_select_def poll_source_def)
  note run = settled_step [OF r holds s1 refl]
  note run = settled_step [OF run [THEN conjunct1] run [THEN conjunct2] s2 refl]
  note run = settled_step [OF run [THEN conjunct1] run [THEN conjunct2] s3 refl]
  from run f3 that show thesis by blast
qed

section \<open>The properties on the run\<close>

theorem service_sessions_exclusive_witness:
  "\<exists>svc t u. service_reachable sample_config (svc, [0 \<mapsto> t, 1 \<mapsto> u]) \<and> task_owner t = Some run_key \<and>
     task_owner u \<noteq> Some run_key \<and> card (svc_active_sessions svc) \<le> 4096 \<and>
     mt_active_sessions (svc_metrics svc) = of_nat (card (svc_active_sessions svc))"
proof -
  obtain svc t u where r: "service_reachable sample_config (svc, [0 \<mapsto> t, 1 \<mapsto> u])"
    and lease: "tk_session_lease t = Some \<lparr>ls_key = run_key, ls_retain_registry_entry = False\<rparr>"
    by (rule greeted_run)
  have laws: "codec_laws (cfg_store sample_config)" by (simp add: sample_laws)
  note all = service_sessions_exclusive [OF laws r]
  have owner: "task_owner t = Some run_key" using lease by (simp add: task_owner_def)
  have "task_owner u \<noteq> Some run_key"
  proof
    assume "task_owner u = Some run_key"
    with all [THEN conjunct1, rule_format, of 0 t 1 u run_key] owner show False by simp
  qed
  with r owner all show ?thesis by auto
qed

theorem service_requests_committed_state_witness:
  "\<exists>svc t u request k. service_reachable sample_config (svc, [0 \<mapsto> t, 1 \<mapsto> u]) \<and> tk_at t = AwaitingDelivery request \<and>
     task_owner t = Some k \<and>
     ps_desired_state (session_view sample_store_env (svc_store svc) k) = Some (dr_desired_state request) \<and>
     ps_acknowledged_cursor (session_view sample_store_env (svc_store svc) k) = dr_acknowledged_cursor request \<and>
     ps_expected_reorg_tip (session_view sample_store_env (svc_store svc) k) = dr_required_reorg_anchor request"
proof -
  obtain svc t u request where r: "service_reachable sample_config (svc, [0 \<mapsto> t, 1 \<mapsto> u])"
    and at: "tk_at t = AwaitingDelivery request" by (rule polled_run)
  have laws: "codec_laws (cfg_store sample_config)" by (simp add: sample_laws)
  have t: "[0 \<mapsto> t, 1 \<mapsto> u] (0 :: nat) = Some t" by simp
  from service_requests_committed_state [OF laws r t at] r at show ?thesis unfolding sample_config_simps(1) by blast
qed

theorem service_reports_durable_state_witness:
  "\<exists>svc t u svc' t' m. service_reachable sample_config (svc, [0 \<mapsto> t, 1 \<mapsto> u]) \<and>
     task_step sample_config smooth svc t (OnDone (Some (Ok ()))) = Some (svc', t') \<and>
     tk_outbound t' = tk_outbound t @ [Ok m] \<and>
     m = ServerAcknowledgementCommitted \<lparr>ac_session_id = ''s'', ac_sequence = 1, ac_cursor = Some (run_cursor 11 None 1)\<rparr> \<and>
     truthful (session_view sample_store_env (svc_store svc')) (tk_identity t') m"
proof -
  obtain svc t u where r: "service_reachable sample_config (svc, [0 \<mapsto> t, 1 \<mapsto> u])"
    and at: "tk_at t = AcknowledgementReconciling (ack_of activation) (run_cursor 11 None 1)"
    by (rule acked_run)
  define m where "m = ServerAcknowledgementCommitted
    \<lparr>ac_session_id = ''s'', ac_sequence = 1, ac_cursor = Some (run_cursor 11 None 1)\<rparr>"
  obtain t' where step: "task_step sample_config smooth svc t (OnDone (Some (Ok ()))) = Some (svc, t')"
    and out: "tk_outbound t' = tk_outbound t @ [Ok m]"
    by (simp add: task_step_def at on_acknowledgement_reconciled_def source_call_def send_outbound_def ack_of_def m_def
        activation_def activation_delivery_def)
  have laws: "codec_laws (cfg_store sample_config)" by (simp add: sample_laws)
  have t: "[0 \<mapsto> t, 1 \<mapsto> u] (0 :: nat) = Some t" by simp
  from service_reports_durable_state [OF laws r t step] out
  have "truthful (session_view sample_store_env (svc_store svc)) (tk_identity t') m" by auto
  with r step out m_def show ?thesis by blast
qed

theorem service_only_proven_owner_commits_witness:
  "\<exists>svc t u svc' t'. service_reachable sample_config (svc, [0 \<mapsto> t, 1 \<mapsto> u]) \<and>
     task_step sample_config smooth svc t prepared_boundary = Some (svc', t') \<and>
     session_view sample_store_env (svc_store svc') run_key \<noteq> session_view sample_store_env (svc_store svc) run_key \<and>
     task_owner t = Some run_key \<and> tk_position_confirmed t"
proof -
  obtain svc t u svc' t' where r: "service_reachable sample_config (svc, [0 \<mapsto> t, 1 \<mapsto> u])"
    and store: "svc_store svc = \<lparr>ss_rows = []\<rparr>" "holds (svc_store svc') activated"
    and step: "task_step sample_config smooth svc t prepared_boundary = Some (svc', t')"
    by (rule applied_run)
  have changed: "session_view sample_store_env (svc_store svc') run_key \<noteq> session_view sample_store_env (svc_store svc) run_key"
    using store by (simp add: holds_def session_view_def select_row_def activated_def persisted_default_def)
  have laws: "codec_laws (cfg_store sample_config)" by (simp add: sample_laws)
  have t: "[0 \<mapsto> t, 1 \<mapsto> u] (0 :: nat) = Some t" by simp
  from service_only_proven_owner_commits [OF laws r t step] changed have "task_owner t = Some run_key \<and> tk_position_confirmed t"
    by simp
  with r step changed show ?thesis by blast
qed

theorem hello_position_authority_witness:
  "\<exists>store c. store_reachable sample_store_env store \<and>
     ps_pending_delivery (session_view sample_store_env store run_key) = Some data_delivery \<and>
     del_cursor data_delivery = Some c \<and>
     validate_hello_position (resume_hello ''s'' c) (session_view sample_store_env store run_key) = Ok Confirmed"
proof -
  obtain store where "holds store (covered None None (run_cursor 11 None 1))" by (rule covered_run)
  from run_save [OF this data_offered] obtain store' where store': "holds store'
      (covered None None (run_cursor 11 None 1)\<lparr>ps_pending_delivery := Some data_delivery\<rparr>)"
    by (auto simp: covered_def)
  then have reach: "store_reachable sample_store_env store'"
    and pending: "ps_pending_delivery (session_view sample_store_env store' run_key) = Some data_delivery"
    by (simp_all add: holds_def)
  obtain c where c: "del_cursor data_delivery = Some c" by (simp add: data_delivery_def run_delivery_def)
  from hello_position_authority [OF sample_laws reach refl, of run_key] pending c
  have "validate_hello_position (resume_hello ''s'' c) (session_view sample_store_env store' run_key) = Ok Confirmed" by blast
  with reach pending c show ?thesis by blast
qed

theorem validate_limits_exact_witness:
  "lim_max_total_interests default_limits < usize_max \<and> lim_max_total_filter_values default_limits < usize_max \<and>
   validate_limits (\<lambda>_. 100) run_request default_limits = Ok ()"
proof -
  have lim: "lim_max_total_interests default_limits < usize_max" "lim_max_total_filter_values default_limits < usize_max"
    by (simp_all add: default_limits_def)
  have "validate_limits (\<lambda>_. 100) run_request default_limits = Ok ()"
    unfolding validate_limits_exact [OF lim]
    by (simp add: run_request_def sample_request_def default_limits_def owner_within_def backfill_within_def owner_values_def
        interest_within_def log_values_def)
  with lim show ?thesis by blast
qed

end
