(* ===== verification/Payload_Spec.thy ===== *)
theory Payload_Spec
  imports Delivery_Validation
begin

text \<open>
  What the record loop of \<open>validate_delivery_payload\<close> accepts, without its nine accumulators: each
  record is well formed on its own, later records follow earlier ones pairwise, and canonical
  records are covered by a block identity at or above them.
\<close>

section \<open>Specification\<close>

definition event_number :: "Event \<Rightarrow> u64" where
  "event_number e = fst (event_order e)"

text \<open>
  The identity the scan keeps for a height is the hash and the timestamp, as
  \<open>validate_block_identity\<close> of \<open>session_store.rs\<close> compares them. The protocol document asks for
  more: the block references of a header and of a progress record at one height must match
  exactly, which includes the parent hash (\<open>docs/protocol-v1.md\<close>, lines 168 to 171, enforced by the
  remote decoder). \<open>progress_parent_unchecked\<close> below shows the difference.
\<close>

definition event_identity :: "Event \<Rightarrow> bytes \<times> u64" where
  "event_identity e =
     (case e of
        EventLog l \<Rightarrow> (le_block_hash l, le_block_timestamp l)
      | _ \<Rightarrow> (case event_block e of None \<Rightarrow> ([], 0) | Some b \<Rightarrow> (br_hash b, br_timestamp b)))"

definition wf_event :: "StoreEnv \<Rightarrow> Event \<Rightarrow> bool" where
  "wf_event env e \<longleftrightarrow>
     (case e of
        EventLog l \<Rightarrow>
          length (le_address l) = 20 \<and> length (le_block_hash l) = 32 \<and> length (le_transaction_hash l) = 32 \<and>
          length (le_topics l) \<le> 4 \<and> list_all (\<lambda>topic. length topic = 32) (le_topics l)
      | EventBlockHeader h \<Rightarrow>
          (\<exists>b. bh_block h = Some b \<and> wf_block b \<and> bh_consensus_header_rlp h \<noteq> [] \<and>
             length (bh_total_difficulty h) \<le> 32 \<and> length (bh_size h) \<le> 32 \<and>
             (\<exists>header. st_decode_header env (bh_consensus_header_rlp h) = Some (header, []) \<and>
                st_hash_slow env header = br_hash b \<and> ch_number header = br_number b \<and>
                ch_parent_hash header = br_parent_hash b \<and> ch_timestamp header = br_timestamp b))
      | EventBlockProgress p \<Rightarrow> (\<exists>b. bp_block p = Some b \<and> wf_block b))"

definition record_item :: "EventRecord \<Rightarrow> (DeliveryScope \<times> Event) option" where
  "record_item r =
     Option.bind (delivery_scope_try_from (er_scope r)) (\<lambda>scope.
     map_option (\<lambda>event. (scope, event)) (record_event r))"

definition is_progress_event :: "Event \<Rightarrow> bool" where
  "is_progress_event e \<longleftrightarrow> (case e of EventBlockProgress _ \<Rightarrow> True | _ \<Rightarrow> False)"

definition wf_record :: "StoreEnv \<Rightarrow> string set \<Rightarrow> EventRecord \<Rightarrow> bool" where
  "wf_record env owners r \<longleftrightarrow>
     (\<exists>scope e. record_item r = Some (scope, e) \<and> scope \<noteq> ScopeUnspecified \<and> wf_event env e \<and>
        (if er_canonical_audience r then er_owner_ids r = []
         else er_owner_ids r \<noteq> [] \<and> distinct (er_owner_ids r) \<and> set (er_owner_ids r) \<subseteq> owners - {[]}) \<and>
        (scope = ScopeOwnerCatchup \<longrightarrow> \<not> er_canonical_audience r \<and> \<not> is_progress_event e))"

text \<open>Two logs name the same transaction of a block by hash exactly when they do by index.\<close>

definition same_log_transaction :: "LogEvent \<Rightarrow> LogEvent \<Rightarrow> bool" where
  "same_log_transaction x y \<longleftrightarrow>
     (le_block_hash x = le_block_hash y \<longrightarrow>
        (le_transaction_hash x = le_transaction_hash y \<longleftrightarrow> le_transaction_index x = le_transaction_index y))"

definition follows :: "Event \<Rightarrow> Event \<Rightarrow> bool" where
  "follows a b \<longleftrightarrow>
     event_order a \<le> event_order b \<and>
     (event_number a = event_number b \<longrightarrow> event_identity a = event_identity b) \<and>
     (case (a, b) of
        (EventLog x, EventLog y) \<Rightarrow>
          (le_block_hash x, le_log_index x) \<noteq> (le_block_hash y, le_log_index y) \<and> same_log_transaction x y
      | (EventBlockHeader _, EventBlockHeader _) \<Rightarrow> event_number a \<noteq> event_number b
      | (EventBlockProgress _, EventBlockProgress _) \<Rightarrow> event_number a \<noteq> event_number b
      | _ \<Rightarrow> True)"

definition canonical_items :: "(DeliveryScope \<times> Event) list \<Rightarrow> Event list" where
  "canonical_items items = map snd (filter (\<lambda>(scope, _). scope \<noteq> ScopeOwnerCatchup) items)"

definition is_block_event :: "Event \<Rightarrow> bool" where
  "is_block_event e \<longleftrightarrow> (case e of EventLog _ \<Rightarrow> False | _ \<Rightarrow> True)"

definition covered_records :: "(DeliveryScope \<times> Event) list \<Rightarrow> bool" where
  "covered_records items \<longleftrightarrow>
     (\<forall>e \<in> set (canonical_items items). \<exists>c \<in> set (canonical_items items).
        is_block_event c \<and> event_number e \<le> event_number c)"

section \<open>The scan state of a prefix\<close>

definition highest :: "u64 list \<Rightarrow> u64 option" where
  "highest xs = (if xs = [] then None else Some (Max (set xs)))"

lemma max_opt_highest: "max_opt (highest xs) n = highest (xs @ [n])"
  by (auto simp: max_opt_def highest_def max.commute)

lemma highest_Some: "highest xs = Some m \<longleftrightarrow> m \<in> set xs \<and> (\<forall>x \<in> set xs. x \<le> m)"
  by (auto simp: highest_def intro: Max_eqI)

definition tracks :: "(DeliveryScope \<times> Event) list \<Rightarrow> PayloadScan \<Rightarrow> bool" where
  "tracks items s \<longleftrightarrow>
     sorted (map (event_order \<circ> snd) items) \<and>
     ps_explicit_headers s = {event_number e | e. e \<in> snd ` set items \<and> is_block_event e \<and> \<not> is_progress_event e} \<and>
     ps_explicit_progress s = {event_number e | e. e \<in> snd ` set items \<and> is_progress_event e} \<and>
     (\<forall>n v. ps_block_identities s n = Some v \<longleftrightarrow> (\<exists>e \<in> snd ` set items. event_number e = n \<and> event_identity e = v)) \<and>
     ps_log_identities s = {(le_block_hash l, le_log_index l) | l. EventLog l \<in> snd ` set items} \<and>
     (\<forall>h t v. ps_transaction_indexes s (h, t) = Some v \<longleftrightarrow>
        (\<exists>l. EventLog l \<in> snd ` set items \<and> le_block_hash l = h \<and> le_transaction_hash l = t \<and> le_transaction_index l = v)) \<and>
     (\<forall>h i v. ps_transaction_hashes s (h, i) = Some v \<longleftrightarrow>
        (\<exists>l. EventLog l \<in> snd ` set items \<and> le_block_hash l = h \<and> le_transaction_index l = i \<and> le_transaction_hash l = v)) \<and>
     ps_last_event_order s = last_opt (map (event_order \<circ> snd) items) \<and>
     ps_highest_canonical_record s = highest (map event_number (canonical_items items)) \<and>
     ps_highest_canonical_coverage s = highest (map event_number (filter is_block_event (canonical_items items)))"

lemma tracksD:
  assumes "tracks items s"
  shows "sorted (map (event_order \<circ> snd) items)"
    and "ps_explicit_headers s = {event_number e | e. e \<in> snd ` set items \<and> is_block_event e \<and> \<not> is_progress_event e}"
    and "ps_explicit_progress s = {event_number e | e. e \<in> snd ` set items \<and> is_progress_event e}"
    and "ps_block_identities s n = Some v \<longleftrightarrow> (\<exists>e \<in> snd ` set items. event_number e = n \<and> event_identity e = v)"
    and "ps_log_identities s = {(le_block_hash l, le_log_index l) | l. EventLog l \<in> snd ` set items}"
    and "ps_transaction_indexes s (h, t) = Some i \<longleftrightarrow>
        (\<exists>l. EventLog l \<in> snd ` set items \<and> le_block_hash l = h \<and> le_transaction_hash l = t \<and> le_transaction_index l = i)"
    and "ps_transaction_hashes s (h, i) = Some t \<longleftrightarrow>
        (\<exists>l. EventLog l \<in> snd ` set items \<and> le_block_hash l = h \<and> le_transaction_index l = i \<and> le_transaction_hash l = t)"
    and "ps_last_event_order s = last_opt (map (event_order \<circ> snd) items)"
    and "ps_highest_canonical_record s = highest (map event_number (canonical_items items))"
    and "ps_highest_canonical_coverage s = highest (map event_number (filter is_block_event (canonical_items items)))"
  using assms by (simp_all only: tracks_def simp_thms)

lemma tracks_start: "tracks [] scan_start"
  by (simp add: tracks_def scan_start_def highest_def canonical_items_def)

lemma canonical_items_snoc:
  "canonical_items (items @ [(scope, e)]) =
     canonical_items items @ (if scope = ScopeOwnerCatchup then [] else [e])"
  by (simp add: canonical_items_def)

lemma sorted_last_opt:
  "sorted xs \<Longrightarrow> is_some_and (\<lambda>previous. y < previous) (last_opt xs) \<longleftrightarrow> \<not> (\<forall>x \<in> set xs. x \<le> (y :: 'a::linorder))"
proof (cases xs rule: rev_cases)
  case (snoc ys z)
  moreover assume "sorted xs"
  ultimately show ?thesis by (auto simp: sorted_append not_le)
qed simp

text \<open>The order check, and what it records.\<close>

lemma scan_order_conv:
  assumes "tracks items s"
  shows "scan_order scope e s = Ok s' \<longleftrightarrow>
    (\<forall>x \<in> snd ` set items. event_order x \<le> event_order e) \<and>
    s' = s\<lparr>ps_last_event_order := Some (event_order e),
       ps_highest_canonical_record := highest (map event_number (canonical_items (items @ [(scope, e)]))),
       ps_highest_canonical_coverage := highest (map event_number (filter is_block_event (canonical_items (items @ [(scope, e)]))))\<rparr>"
proof -
  have last: "ps_last_event_order s = last_opt (map (event_order \<circ> snd) items)"
    and sorted: "sorted (map (event_order \<circ> snd) items)"
    and high: "ps_highest_canonical_record s = highest (map event_number (canonical_items items))"
      "ps_highest_canonical_coverage s = highest (map event_number (filter is_block_event (canonical_items items)))"
    using assms by (simp_all add: tracks_def)
  have block: "(case e of EventLog _ \<Rightarrow> False | _ \<Rightarrow> True) = is_block_event e" by (simp add: is_block_event_def)
  have s: "s\<lparr>ps_highest_canonical_record := highest (map event_number (canonical_items items)),
      ps_highest_canonical_coverage := highest (map event_number (filter is_block_event (canonical_items items)))\<rparr> = s"
    using high by simp
  show ?thesis
    using sorted_last_opt [OF sorted, of "event_order e"] s
    by (auto simp: scan_order_def Let_def block last high max_opt_highest canonical_items_snoc event_number_def)
qed


lemma identity_conv:
  assumes "tracks items s"
  shows "validate_block_identity (ps_block_identities s) n h t = Ok m \<longleftrightarrow>
    (\<forall>x \<in> snd ` set items. event_number x = n \<longrightarrow> event_identity x = (h, t)) \<and>
    m = (ps_block_identities s)(n \<mapsto> (h, t))"
proof -
  note ids = tracksD(4) [OF assms]
  show ?thesis
  proof (cases "ps_block_identities s n")
    case None
    then have "\<forall>x \<in> snd ` set items. event_number x \<noteq> n" using ids by (metis option.distinct(1))
    with None show ?thesis by (simp add: validate_block_identity_def) blast
  next
    case (Some v)
    have same: "event_identity x = v" if "x \<in> snd ` set items" "event_number x = n" for x
      using ids [of n "event_identity x"] Some that by auto
    obtain x where x: "x \<in> snd ` set items" "event_number x = n" using ids Some by blast
    have "(\<forall>x \<in> snd ` set items. event_number x = n \<longrightarrow> event_identity x = (h, t)) \<longleftrightarrow> v = (h, t)"
      using same x by metis
    with Some show ?thesis by (cases v) (simp add: validate_block_identity_def fun_upd_idem, blast)
  qed
qed

text \<open>The fields of the new item, whatever its kind.\<close>

definition item_order_ok :: "(DeliveryScope \<times> Event) list \<Rightarrow> Event \<Rightarrow> bool" where
  "item_order_ok items e \<longleftrightarrow>
     (\<forall>x \<in> snd ` set items. event_order x \<le> event_order e \<and>
        (event_number x = event_number e \<longrightarrow> event_identity x = event_identity e))"

definition ordered_scan :: "(DeliveryScope \<times> Event) list \<Rightarrow> DeliveryScope \<times> Event \<Rightarrow> PayloadScan \<Rightarrow> PayloadScan" where
  "ordered_scan items item s =
     s\<lparr>ps_last_event_order := Some (event_order (snd item)),
       ps_highest_canonical_record := highest (map event_number (canonical_items (items @ [item]))),
       ps_highest_canonical_coverage := highest (map event_number (filter is_block_event (canonical_items (items @ [item]))))\<rparr>"

lemma identities_snoc:
  assumes "tracks items s" and "item_order_ok items e"
  shows "((ps_block_identities s)(event_number e \<mapsto> event_identity e)) n = Some v \<longleftrightarrow>
    (\<exists>x \<in> snd ` set (items @ [(scope, e)]). event_number x = n \<and> event_identity x = v)"
proof (cases "n = event_number e")
  case True
  with assms(2) show ?thesis by (auto simp: item_order_ok_def)
next
  case False
  then show ?thesis using tracksD(4) [OF assms(1), of n v] by auto
qed

lemma known_conv:
  assumes m: "\<And>v. m = Some v \<longleftrightarrow> (\<exists>l. P l \<and> f l = v)"
  shows "is_some_and (\<lambda>known. known \<noteq> i) m \<longleftrightarrow> \<not> (\<forall>l. P l \<longrightarrow> f l = i)"
proof (cases m)
  case None
  with m show ?thesis by (metis is_some_and_simps(1) option.distinct(1))
next
  case (Some k)
  then have "f l = k" if "P l" for l using m [of "f l"] that by auto
  moreover obtain l where "P l" "f l = k" using m [of k] Some by blast
  ultimately show ?thesis using Some by auto
qed

lemma ordered_scan_simps [simp]:
  "ps_explicit_headers (ordered_scan items item s) = ps_explicit_headers s"
  "ps_explicit_progress (ordered_scan items item s) = ps_explicit_progress s"
  "ps_block_identities (ordered_scan items item s) = ps_block_identities s"
  "ps_log_identities (ordered_scan items item s) = ps_log_identities s"
  "ps_transaction_indexes (ordered_scan items item s) = ps_transaction_indexes s"
  "ps_transaction_hashes (ordered_scan items item s) = ps_transaction_hashes s"
  by (simp_all add: ordered_scan_def)

lemma tracks_snoc_order:
  assumes "tracks items s" and "item_order_ok items e"
  shows "sorted (map (event_order \<circ> snd) (items @ [(scope, e)]))"
proof -
  have "\<forall>x \<in> set (map (event_order \<circ> snd) items). x \<le> event_order e"
    using assms(2) by (simp add: item_order_ok_def)
  with tracksD(1) [OF assms(1)] show ?thesis by (simp add: sorted_append)
qed

lemma ordered_scan_orders [simp]:
  "ps_last_event_order (ordered_scan items (scope, e) s) = last_opt (map (event_order \<circ> snd) (items @ [(scope, e)]))"
  "ps_highest_canonical_record (ordered_scan items (scope, e) s) = highest (map event_number (canonical_items (items @ [(scope, e)])))"
  "ps_highest_canonical_coverage (ordered_scan items (scope, e) s) =
     highest (map event_number (filter is_block_event (canonical_items (items @ [(scope, e)]))))"
  by (simp_all add: ordered_scan_def)

lemma follows_log:
  "event_order x \<le> event_order (EventLog l) \<Longrightarrow> follows x (EventLog l) \<longleftrightarrow>
     (event_number x = event_number (EventLog l) \<longrightarrow> event_identity x = event_identity (EventLog l)) \<and>
     (\<forall>y. x = EventLog y \<longrightarrow> (le_block_hash y, le_log_index y) \<noteq> (le_block_hash l, le_log_index l) \<and> same_log_transaction y l)"
  by (cases x) (simp_all add: follows_def)

lemma scan_log_step:
  fixes l :: LogEvent and scope :: DeliveryScope
  assumes tr: "tracks items s" and ord: "\<forall>x \<in> snd ` set items. event_order x \<le> event_order (EventLog l)"
  defines "step \<equiv> scan_log l (ordered_scan items (scope, EventLog l) s)"
  shows "(\<exists>s'. step = Ok s') \<longleftrightarrow> wf_event env (EventLog l) \<and> (\<forall>x \<in> snd ` set items. follows x (EventLog l))"
    and "step = Ok s' \<Longrightarrow> tracks (items @ [(scope, EventLog l)]) s'"
proof -
  let ?e = "EventLog l"
  have num: "event_number ?e = le_block_number l" "event_identity ?e = (le_block_hash l, le_block_timestamp l)"
    by (simp_all add: event_number_def event_order_def event_identity_def)
  have ids: "(le_block_hash l, le_log_index l) \<in> ps_log_identities s \<longleftrightarrow>
      (\<exists>y. EventLog y \<in> snd ` set items \<and> le_block_hash y = le_block_hash l \<and> le_log_index y = le_log_index l)"
    unfolding tracksD(5) [OF tr] by (simp; metis)
  have idx: "is_some_and (\<lambda>known. known \<noteq> le_transaction_index l) (ps_transaction_indexes s (le_block_hash l, le_transaction_hash l)) \<longleftrightarrow>
      \<not> (\<forall>y. EventLog y \<in> snd ` set items \<and> le_block_hash y = le_block_hash l \<and> le_transaction_hash y = le_transaction_hash l \<longrightarrow>
        le_transaction_index y = le_transaction_index l)"
    by (rule known_conv) (simp add: tracksD(6) [OF tr])
  have hsh: "is_some_and (\<lambda>known. known \<noteq> le_transaction_hash l) (ps_transaction_hashes s (le_block_hash l, le_transaction_index l)) \<longleftrightarrow>
      \<not> (\<forall>y. EventLog y \<in> snd ` set items \<and> le_block_hash y = le_block_hash l \<and> le_transaction_index y = le_transaction_index l \<longrightarrow>
        le_transaction_hash y = le_transaction_hash l)"
    by (rule known_conv) (simp add: tracksD(7) [OF tr])
  have fol: "(\<forall>x \<in> snd ` set items. follows x ?e) \<longleftrightarrow>
      (\<forall>x \<in> snd ` set items. event_number x = le_block_number l \<longrightarrow> event_identity x = (le_block_hash l, le_block_timestamp l)) \<and>
      (le_block_hash l, le_log_index l) \<notin> ps_log_identities s \<and>
      \<not> is_some_and (\<lambda>known. known \<noteq> le_transaction_index l) (ps_transaction_indexes s (le_block_hash l, le_transaction_hash l)) \<and>
      \<not> is_some_and (\<lambda>known. known \<noteq> le_transaction_hash l) (ps_transaction_hashes s (le_block_hash l, le_transaction_index l))"
    (is "?follows \<longleftrightarrow> ?checks")
  proof -
    have "?follows \<longleftrightarrow> (\<forall>x \<in> snd ` set items. (event_number x = le_block_number l \<longrightarrow> event_identity x = (le_block_hash l, le_block_timestamp l)) \<and>
        (\<forall>y. x = EventLog y \<longrightarrow> (le_block_hash y, le_log_index y) \<noteq> (le_block_hash l, le_log_index l) \<and> same_log_transaction y l))"
      by (rule ball_cong [OF refl], subst follows_log) (use ord in \<open>auto simp: num\<close>)
    also have "\<dots> \<longleftrightarrow> ?checks"
      unfolding ids idx hsh same_log_transaction_def prod.inject not_not by blast
    finally show ?thesis .
  qed
  have wf: "wf_event env ?e \<longleftrightarrow> \<not> (length (le_address l) \<noteq> 20 \<or> length (le_block_hash l) \<noteq> 32 \<or>
      length (le_transaction_hash l) \<noteq> 32 \<or> 4 < length (le_topics l) \<or> list_ex (\<lambda>topic. length topic \<noteq> 32) (le_topics l))"
    by (auto simp: wf_event_def list_all_iff list_ex_iff)
  show "(\<exists>s'. step = Ok s') \<longleftrightarrow> wf_event env ?e \<and> (\<forall>x \<in> snd ` set items. follows x ?e)"
    unfolding fol wf by (auto simp: step_def scan_log_def Let_def bind_res_Ok_iff if_Err_Ok_iff identity_conv [OF tr])
  show "tracks (items @ [(scope, ?e)]) s'" if ok: "step = Ok s'"
  proof -
    have checks: ?checks and s': "s' = (ordered_scan items (scope, ?e) s)
        \<lparr>ps_block_identities := (ps_block_identities s)(event_number ?e \<mapsto> event_identity ?e),
         ps_log_identities := insert (le_block_hash l, le_log_index l) (ps_log_identities s),
         ps_transaction_indexes := (ps_transaction_indexes s)((le_block_hash l, le_transaction_hash l) \<mapsto> le_transaction_index l),
         ps_transaction_hashes := (ps_transaction_hashes s)((le_block_hash l, le_transaction_index l) \<mapsto> le_transaction_hash l)\<rparr>"
      using ok by (auto simp: step_def scan_log_def Let_def bind_res_Ok_iff if_Err_Ok_iff identity_conv [OF tr] num)
    have good: "item_order_ok items ?e" using checks ord by (simp add: item_order_ok_def num)
    note common = tracks_snoc_order [OF tr good, of scope] identities_snoc [OF tr good, of _ _ scope]
    have i: "((ps_transaction_indexes s)((le_block_hash l, le_transaction_hash l) \<mapsto> le_transaction_index l)) (h, t) = Some v \<longleftrightarrow>
        (\<exists>y. EventLog y \<in> snd ` set (items @ [(scope, ?e)]) \<and> le_block_hash y = h \<and> le_transaction_hash y = t \<and> le_transaction_index y = v)"
      for h t v using checks unfolding idx by (auto simp: tracksD(6) [OF tr])
    have j: "((ps_transaction_hashes s)((le_block_hash l, le_transaction_index l) \<mapsto> le_transaction_hash l)) (h, t) = Some v \<longleftrightarrow>
        (\<exists>y. EventLog y \<in> snd ` set (items @ [(scope, ?e)]) \<and> le_block_hash y = h \<and> le_transaction_index y = t \<and> le_transaction_hash y = v)"
      for h t v using checks unfolding hsh by (auto simp: tracksD(7) [OF tr])
    have rest: "ps_explicit_headers s = {event_number x | x. x \<in> snd ` set (items @ [(scope, ?e)]) \<and> is_block_event x \<and> \<not> is_progress_event x}"
        "ps_explicit_progress s = {event_number x | x. x \<in> snd ` set (items @ [(scope, ?e)]) \<and> is_progress_event x}"
        "insert (le_block_hash l, le_log_index l) (ps_log_identities s) =
          {(le_block_hash y, le_log_index y) | y. EventLog y \<in> snd ` set (items @ [(scope, ?e)])}"
      by (auto simp: tracksD(2,3,5) [OF tr] is_block_event_def is_progress_event_def)
    show ?thesis unfolding tracks_def s' using common i j rest by simp
  qed
qed


text \<open>Block records: what a header and a progress record share.\<close>

lemma event_block_identity:
  assumes "event_block e = Some b"
  shows "event_number e = br_number b" and "event_identity e = (br_hash b, br_timestamp b)" and "is_block_event e"
  using assms by (cases e; simp add: event_number_def event_order_def event_identity_def event_block_def is_block_event_def)+

lemma follows_block:
  assumes "is_block_event e" and "event_order x \<le> event_order e"
  shows "follows x e \<longleftrightarrow>
    (event_number x = event_number e \<longrightarrow> event_identity x = event_identity e) \<and>
    (is_block_event x \<and> (is_progress_event x \<longleftrightarrow> is_progress_event e) \<longrightarrow> event_number x \<noteq> event_number e)"
  using assms by (cases x; cases e) (auto simp: follows_def is_block_event_def is_progress_event_def)

lemma follows_block_all:
  assumes "is_block_event e" and "\<forall>x \<in> A. event_order x \<le> event_order e"
  shows "(\<forall>x \<in> A. follows x e) \<longleftrightarrow>
    (\<forall>x \<in> A. event_number x = event_number e \<longrightarrow> event_identity x = event_identity e) \<and>
    event_number e \<notin> {event_number x | x. x \<in> A \<and> is_block_event x \<and> (is_progress_event x \<longleftrightarrow> is_progress_event e)}"
proof -
  have "(\<forall>x \<in> A. follows x e) \<longleftrightarrow> (\<forall>x \<in> A. (event_number x = event_number e \<longrightarrow> event_identity x = event_identity e) \<and>
      (is_block_event x \<and> (is_progress_event x \<longleftrightarrow> is_progress_event e) \<longrightarrow> event_number x \<noteq> event_number e))"
    using follows_block [OF assms(1)] assms(2) by (intro ball_cong refl) blast
  then show ?thesis by auto
qed

lemma progress_is_block: "is_progress_event e \<Longrightarrow> is_block_event e"
  by (simp add: is_progress_event_def is_block_event_def split: Event.splits)

lemma validate_block_ref_wf: "validate_block_ref b = Ok u \<longleftrightarrow> wf_block b"
  by (auto simp: validate_block_ref_def wf_block_def)

lemma tracks_block_snoc:
  assumes tr: "tracks items s" and e: "is_block_event e" and good: "item_order_ok items e"
  shows "tracks (items @ [(scope, e)]) ((ordered_scan items (scope, e) s)
    \<lparr>ps_explicit_headers := (if is_progress_event e then ps_explicit_headers s else insert (event_number e) (ps_explicit_headers s)),
     ps_explicit_progress := (if is_progress_event e then insert (event_number e) (ps_explicit_progress s) else ps_explicit_progress s),
     ps_block_identities := (ps_block_identities s)(event_number e \<mapsto> event_identity e)\<rparr>)"
proof -
  have logs: "EventLog l \<in> snd ` set (items @ [(scope, e)]) \<longleftrightarrow> EventLog l \<in> snd ` set items" for l
    using e by (auto simp: is_block_event_def)
  have sets: "(if is_progress_event e then ps_explicit_headers s else insert (event_number e) (ps_explicit_headers s)) =
      {event_number x | x. x \<in> snd ` set (items @ [(scope, e)]) \<and> is_block_event x \<and> \<not> is_progress_event x}"
      "(if is_progress_event e then insert (event_number e) (ps_explicit_progress s) else ps_explicit_progress s) =
      {event_number x | x. x \<in> snd ` set (items @ [(scope, e)]) \<and> is_progress_event x}"
    unfolding tracksD(2,3) [OF tr] using e by auto
  have log_sets: "ps_log_identities s = {(le_block_hash l, le_log_index l) | l. EventLog l \<in> snd ` set (items @ [(scope, e)])}"
    unfolding logs by (rule tracksD(5) [OF tr])
  show ?thesis
    unfolding tracks_def
    using tracks_snoc_order [OF tr good, of scope] identities_snoc [OF tr good, of _ _ scope] sets log_sets
      tracksD(6) [OF tr] tracksD(7) [OF tr] logs
    by simp
qed

lemma scan_block_step:
  fixes e :: Event and scope :: DeliveryScope and env :: StoreEnv
  assumes tr: "tracks items s" and e: "is_block_event e" and ord: "\<forall>x \<in> snd ` set items. event_order x \<le> event_order e"
  defines "step \<equiv> (case e of
      EventLog log \<Rightarrow> scan_log log (ordered_scan items (scope, e) s)
    | EventBlockHeader header \<Rightarrow> scan_header env header (ordered_scan items (scope, e) s)
    | EventBlockProgress progress \<Rightarrow> scan_progress progress (ordered_scan items (scope, e) s))"
  shows "(\<exists>s'. step = Ok s') \<longleftrightarrow> wf_event env e \<and> (\<forall>x \<in> snd ` set items. follows x e)"
    and "step = Ok s' \<Longrightarrow> tracks (items @ [(scope, e)]) s'"
proof -
  define seen where "seen = (if is_progress_event e then ps_explicit_progress s else ps_explicit_headers s)"
  define next_scan where "next_scan = (ordered_scan items (scope, e) s)
    \<lparr>ps_explicit_headers := (if is_progress_event e then ps_explicit_headers s else insert (event_number e) (ps_explicit_headers s)),
     ps_explicit_progress := (if is_progress_event e then insert (event_number e) (ps_explicit_progress s) else ps_explicit_progress s),
     ps_block_identities := (ps_block_identities s)(event_number e \<mapsto> event_identity e)\<rparr>"
  define same where "same = (\<forall>x \<in> snd ` set items. event_number x = event_number e \<longrightarrow> event_identity x = event_identity e)"
  have header: "validate_consensus_header env rlp b = Ok u \<longleftrightarrow>
      (\<exists>header. st_decode_header env rlp = Some (header, []) \<and> st_hash_slow env header = br_hash b \<and>
         ch_number header = br_number b \<and> ch_parent_hash header = br_parent_hash b \<and> ch_timestamp header = br_timestamp b)"
    for rlp b u by (auto simp: validate_consensus_header_def split: option.splits)
  have ok: "step = Ok t \<longleftrightarrow> wf_event env e \<and> event_number e \<notin> seen \<and> same \<and> t = next_scan" for t
  proof (cases e)
    case (EventBlockHeader h)
    show ?thesis
    proof (cases "bh_block h")
      case None
      then show ?thesis by (simp add: step_def scan_header_def wf_event_def EventBlockHeader)
    next
      case (Some b)
      then have b: "event_block e = Some b" by (simp add: EventBlockHeader event_block_def)
      have "\<not> is_progress_event e" by (simp add: EventBlockHeader is_progress_event_def)
      with Some show ?thesis
        unfolding step_def seen_def next_scan_def same_def event_block_identity [OF b]
        by (auto simp: EventBlockHeader scan_header_def ordered_scan_def wf_event_def bind_res_Ok_iff if_Err_Ok_iff identity_conv [OF tr]
            validate_block_ref_wf header)
    qed
  next
    case (EventBlockProgress p)
    show ?thesis
    proof (cases "bp_block p")
      case None
      then show ?thesis by (simp add: step_def scan_progress_def wf_event_def EventBlockProgress)
    next
      case (Some b)
      then have b: "event_block e = Some b" by (simp add: EventBlockProgress event_block_def)
      have "is_progress_event e" by (simp add: EventBlockProgress is_progress_event_def)
      with Some show ?thesis
        unfolding step_def seen_def next_scan_def same_def event_block_identity [OF b]
        by (auto simp: EventBlockProgress scan_progress_def ordered_scan_def wf_event_def bind_res_Ok_iff if_Err_Ok_iff identity_conv [OF tr]
            validate_block_ref_wf)
    qed
  qed (use e in \<open>simp add: is_block_event_def\<close>)
  have seen: "seen = {event_number x | x. x \<in> snd ` set items \<and> is_block_event x \<and> (is_progress_event x \<longleftrightarrow> is_progress_event e)}"
    unfolding seen_def tracksD(2,3) [OF tr] using progress_is_block by auto
  show "(\<exists>s'. step = Ok s') \<longleftrightarrow> wf_event env e \<and> (\<forall>x \<in> snd ` set items. follows x e)"
    unfolding follows_block_all [OF e ord] ok same_def seen by blast
  show "tracks (items @ [(scope, e)]) s'" if "step = Ok s'"
    using that tracks_block_snoc [OF tr e, of scope] ord unfolding ok next_scan_def same_def item_order_ok_def by simp
qed


section \<open>The record loop\<close>

lemma scan_event_step:
  fixes e :: Event and scope :: DeliveryScope and env :: StoreEnv
  assumes tr: "tracks items s" and ord: "\<forall>x \<in> snd ` set items. event_order x \<le> event_order e"
  defines "step \<equiv> (case e of
      EventLog log \<Rightarrow> scan_log log (ordered_scan items (scope, e) s)
    | EventBlockHeader header \<Rightarrow> scan_header env header (ordered_scan items (scope, e) s)
    | EventBlockProgress progress \<Rightarrow> scan_progress progress (ordered_scan items (scope, e) s))"
  shows "(\<exists>s'. step = Ok s') \<longleftrightarrow> wf_event env e \<and> (\<forall>x \<in> snd ` set items. follows x e)"
    and "step = Ok s' \<Longrightarrow> tracks (items @ [(scope, e)]) s'"
proof -
  have "((\<exists>s'. step = Ok s') \<longleftrightarrow> wf_event env e \<and> (\<forall>x \<in> snd ` set items. follows x e)) \<and>
      (step = Ok s' \<longrightarrow> tracks (items @ [(scope, e)]) s')"
  proof (cases "is_block_event e")
    case True
    then show ?thesis using scan_block_step [OF tr True ord] by (simp add: step_def)
  next
    case False
    then obtain l where l: "e = EventLog l" by (cases e) (simp_all add: is_block_event_def)
    show ?thesis using scan_log_step [OF tr ord [unfolded l]] by (simp add: step_def l)
  qed
  then show "(\<exists>s'. step = Ok s') \<longleftrightarrow> wf_event env e \<and> (\<forall>x \<in> snd ` set items. follows x e)"
    and "step = Ok s' \<Longrightarrow> tracks (items @ [(scope, e)]) s'" by blast+
qed

lemma validate_audience_Ok_iff:
  "validate_audience owners r = Ok u \<longleftrightarrow>
     (if er_canonical_audience r then er_owner_ids r = []
      else er_owner_ids r \<noteq> [] \<and> distinct (er_owner_ids r) \<and> set (er_owner_ids r) \<subseteq> owners - {[]})"
  by (auto simp: validate_audience_def list_ex_iff)

lemma scan_record_conv:
  assumes tr: "tracks items s"
  shows "scan_record env owners r s = Ok s' \<longleftrightarrow>
    (\<exists>scope e. record_item r = Some (scope, e) \<and> scope \<noteq> ScopeUnspecified \<and>
       validate_audience owners r = Ok () \<and>
       (scope = ScopeOwnerCatchup \<longrightarrow> \<not> er_canonical_audience r \<and> \<not> is_progress_event e) \<and>
       (\<forall>x \<in> snd ` set items. event_order x \<le> event_order e) \<and>
       (case e of
          EventLog log \<Rightarrow> scan_log log (ordered_scan items (scope, e) s)
        | EventBlockHeader header \<Rightarrow> scan_header env header (ordered_scan items (scope, e) s)
        | EventBlockProgress progress \<Rightarrow> scan_progress progress (ordered_scan items (scope, e) s)) = Ok s')"
proof (cases "record_item r")
  case None
  then show ?thesis
    by (auto simp: scan_record_def record_item_def bind_res_Ok_iff if_Err_Ok_iff ok_or_Ok_iff)
next
  case (Some item)
  obtain scope e where item: "item = (scope, e)" by (cases item)
  have scope: "delivery_scope_try_from (er_scope r) = Some scope" "record_event r = Some e"
    using Some item by (auto simp: record_item_def bind_eq_Some_conv)
  have order: "scan_order scope e s = Ok t \<longleftrightarrow>
      (\<forall>x \<in> snd ` set items. event_order x \<le> event_order e) \<and> t = ordered_scan items (scope, e) s" for t
    by (simp add: scan_order_conv [OF tr] ordered_scan_def)
  show ?thesis
    unfolding scan_record_def scope Some item
    by (simp add: bind_res_Ok_iff if_Err_Ok_iff order is_progress_event_def [symmetric]) (auto; metis)
qed

lemma scan_record_step:
  assumes tr: "tracks items s"
  shows "(\<exists>s'. scan_record env owners r s = Ok s') \<longleftrightarrow> wf_record env owners r \<and>
      (\<forall>item. record_item r = Some item \<longrightarrow> (\<forall>x \<in> snd ` set items. follows x (snd item)))"
    and "scan_record env owners r s = Ok s' \<Longrightarrow> \<exists>item. record_item r = Some item \<and> tracks (items @ [item]) s'"
proof -
  have order: "\<forall>x \<in> snd ` set items. event_order x \<le> event_order e" if "\<forall>x \<in> snd ` set items. follows x e" for e
    using that by (simp add: follows_def)
  show "(\<exists>s'. scan_record env owners r s = Ok s') \<longleftrightarrow> wf_record env owners r \<and>
      (\<forall>item. record_item r = Some item \<longrightarrow> (\<forall>x \<in> snd ` set items. follows x (snd item)))"
  proof (cases "record_item r")
    case None
    then show ?thesis by (simp add: scan_record_conv [OF tr] wf_record_def)
  next
    case (Some item)
    obtain scope e where item: "item = (scope, e)" by (cases item)
    show ?thesis
      unfolding scan_record_conv [OF tr] wf_record_def validate_audience_Ok_iff Some item
      using scan_event_step(1) [OF tr, of e scope env] order [of e] by auto
  qed
  show "\<exists>item. record_item r = Some item \<and> tracks (items @ [item]) s'" if "scan_record env owners r s = Ok s'"
    using that scan_event_step(2) [OF tr] unfolding scan_record_conv [OF tr] by blast
qed

lemma scan_records:
  assumes "tracks items s"
  shows "(\<exists>s'. fold_res (scan_record env owners) rs s = Ok s') \<longleftrightarrow>
      list_all (wf_record env owners) rs \<and>
      sorted_wrt (\<lambda>a b. follows (snd a) (snd b)) (List.map_filter record_item rs) \<and>
      (\<forall>x \<in> set items. \<forall>y \<in> set (List.map_filter record_item rs). follows (snd x) (snd y))"
    and "fold_res (scan_record env owners) rs s = Ok s' \<Longrightarrow> tracks (items @ List.map_filter record_item rs) s'"
  using assms
proof (induction rs arbitrary: items s)
  case Nil
  {
    case 1 then show ?case by (simp add: map_filter_simps)
  next
    case 2 then show ?case by (simp add: map_filter_simps)
  }
next
  case (Cons r rs)
  {
    case 1
    note step = scan_record_step [OF 1, of env owners r]
    show ?case
    proof (cases "\<exists>t. scan_record env owners r s = Ok t")
      case False
      show ?thesis
      proof (cases "record_item r")
        case None
        then have "\<not> wf_record env owners r" by (simp add: wf_record_def)
        with False show ?thesis by (simp add: bind_res_Ok_iff)
      next
        case (Some item)
        with False step(1) have "\<not> (wf_record env owners r \<and> (\<forall>x \<in> set items. follows (snd x) (snd item)))" by auto
        with False Some show ?thesis by (auto simp: bind_res_Ok_iff map_filter_simps)
      qed
    next
      case True
      then obtain t item where t: "scan_record env owners r s = Ok t" and item: "record_item r = Some item"
        and tr: "tracks (items @ [item]) t" using step(2) by blast
      from True step(1) item have wf: "wf_record env owners r" "\<forall>x \<in> set items. follows (snd x) (snd item)" by auto
      show ?thesis using Cons.IH(1) [OF tr] t item wf by (auto simp: map_filter_simps)
    qed
  next
    case 2
    from 2(1) obtain t where t: "scan_record env owners r s = Ok t" and rest: "fold_res (scan_record env owners) rs t = Ok s'"
      by (auto simp: bind_res_Ok_iff)
    from scan_record_step(2) [OF 2(2) t] obtain item where item: "record_item r = Some item" and tr: "tracks (items @ [item]) t"
      by blast
    from Cons.IH(2) [OF rest tr] item show ?case by (simp add: map_filter_simps)
  }
qed

lemma highest_covered:
  "highest (map event_number (canonical_items items)) = None \<or>
     (\<exists>n m. highest (map event_number (canonical_items items)) = Some n \<and>
        highest (map event_number (filter is_block_event (canonical_items items))) = Some m \<and> n \<le> m) \<longleftrightarrow>
   covered_records items"
proof (cases "canonical_items items = []")
  case True
  then show ?thesis by (simp add: highest_def covered_records_def)
next
  case False
  then obtain n where n: "highest (map event_number (canonical_items items)) = Some n" by (simp add: highest_def)
  show ?thesis
  proof (cases "highest (map event_number (filter is_block_event (canonical_items items)))")
    case None
    then have "\<forall>c \<in> set (canonical_items items). \<not> is_block_event c"
      by (simp add: highest_def filter_empty_conv split: if_splits)
    with None n False show ?thesis by (auto simp: covered_records_def)
  next
    case (Some m)
    obtain e where e: "e \<in> set (canonical_items items)" "event_number e = n"
      and top: "\<forall>x \<in> set (canonical_items items). event_number x \<le> n"
      using n by (auto simp: highest_Some)
    obtain c where c: "c \<in> set (canonical_items items)" "is_block_event c" "event_number c = m"
      and cover: "\<forall>x \<in> set (canonical_items items). is_block_event x \<longrightarrow> event_number x \<le> m"
      using Some by (auto simp: highest_Some)
    have "covered_records items \<longleftrightarrow> n \<le> m"
    proof
      assume "covered_records items"
      with e obtain d where "d \<in> set (canonical_items items)" "is_block_event d" "n \<le> event_number d"
        by (auto simp: covered_records_def)
      with cover show "n \<le> m" by (meson order_trans)
    next
      assume "n \<le> m"
      with c top show "covered_records items" unfolding covered_records_def by (meson order_trans)
    qed
    with n Some show ?thesis by simp
  qed
qed

section \<open>Properties\<close>

lemma validate_data_payload_iff:
  "is_ok (validate_data_payload env ds data) \<longleftrightarrow>
     dp_records data \<noteq> [] \<and>
     list_all (wf_record env (oi_owner_id ` {owner \<in> set (ads_owners ds). \<not> oi_canonical owner})) (dp_records data) \<and>
     sorted_wrt (\<lambda>a b. follows (snd a) (snd b)) (List.map_filter record_item (dp_records data)) \<and>
     covered_records (List.map_filter record_item (dp_records data))"
proof -
  let ?owners = "set (map oi_owner_id (filter (\<lambda>owner. \<not> oi_canonical owner) (ads_owners ds)))"
  let ?items = "List.map_filter record_item (dp_records data)"
  have owners: "?owners = oi_owner_id ` {owner \<in> set (ads_owners ds). \<not> oi_canonical owner}" by auto
  note scan = scan_records [OF tracks_start, of env ?owners "dp_records data"]
  show ?thesis
  proof (cases "fold_res (scan_record env ?owners) (dp_records data) scan_start")
    case (Inl e)
    with scan(1) show ?thesis unfolding owners by (auto simp: validate_data_payload_def is_ok_def)
  next
    case (Inr s)
    with scan have tr: "tracks ?items s" by simp
    have "is_ok (validate_data_payload env ds data) \<longleftrightarrow> dp_records data \<noteq> [] \<and> covered_records ?items"
      using Inr unfolding highest_covered [symmetric] tracksD(9,10) [OF tr, symmetric]
      by (auto simp: validate_data_payload_def is_ok_def not_less is_none_or_def split: option.splits)
    with scan(1) Inr show ?thesis unfolding owners by auto
  qed
qed

text \<open>
  The parent hash of a progress record is never compared: whatever records come before it, a
  header of the same block among them, a payload stays accepted when the parent hash of its final
  progress record is replaced by any other hash.
\<close>

definition progress_record :: "BlockRef \<Rightarrow> EventRecord" where
  "progress_record b =
     \<lparr>er_event = Some \<lparr>ce_event = Some (EventBlockProgress \<lparr>bp_block = Some b\<rparr>)\<rparr>, er_canonical_audience = True,
      er_owner_ids = [], er_scope = delivery_scope_to_i32 ScopeCanonicalProgress\<rparr>"

lemma progress_item:
  "record_item (progress_record b) = Some (ScopeCanonicalProgress, EventBlockProgress \<lparr>bp_block = Some b\<rparr>)"
  by (simp add: record_item_def progress_record_def record_event_def delivery_scope_try_from_def)

lemma map_filter_join: "List.map_filter f (xs @ ys) = List.map_filter f xs @ List.map_filter f ys"
  by (simp add: List.map_filter_def)

lemma follows_progress:
  "follows a (EventBlockProgress \<lparr>bp_block = Some (b\<lparr>br_parent_hash := parent\<rparr>)\<rparr>) \<longleftrightarrow>
   follows a (EventBlockProgress \<lparr>bp_block = Some b\<rparr>)"
  by (simp add: follows_def event_order_def event_number_def event_identity_def event_block_def split: Event.split)

lemma covered_progress:
  "covered_records (items @ [(scope, EventBlockProgress \<lparr>bp_block = Some (b\<lparr>br_parent_hash := parent\<rparr>)\<rparr>)]) \<longleftrightarrow>
   covered_records (items @ [(scope, EventBlockProgress \<lparr>bp_block = Some b\<rparr>)])"
proof -
  have number: "event_number (EventBlockProgress \<lparr>bp_block = Some (b\<lparr>br_parent_hash := parent\<rparr>)\<rparr>) =
      event_number (EventBlockProgress \<lparr>bp_block = Some b\<rparr>)"
    by (simp add: event_number_def event_order_def)
  show ?thesis
    by (cases "scope = ScopeOwnerCatchup")
       (simp_all add: covered_records_def canonical_items_def is_block_event_def number)
qed

theorem progress_parent_unchecked:
  assumes "is_ok (validate_data_payload env ds \<lparr>dp_records = rs @ [progress_record b]\<rparr>)" and "length parent = 32"
  shows "is_ok (validate_data_payload env ds \<lparr>dp_records = rs @ [progress_record (b\<lparr>br_parent_hash := parent\<rparr>)]\<rparr>)"
proof -
  have "wf_record env owners (progress_record (b\<lparr>br_parent_hash := parent\<rparr>))"
    if "wf_record env owners (progress_record b)" for owners
    using that assms(2) by (auto simp: wf_record_def progress_item wf_event_def wf_block_def) (auto simp: progress_record_def)
  with assms(1) show ?thesis
    unfolding validate_data_payload_iff
    by (simp add: progress_item map_filter_join sorted_wrt_append follows_progress covered_progress)
qed

text \<open>In particular a header and a progress record of one block may name different parents.\<close>

definition header_record :: "BlockHeaderEvent \<Rightarrow> EventRecord" where
  "header_record h =
     \<lparr>er_event = Some \<lparr>ce_event = Some (EventBlockHeader h)\<rparr>, er_canonical_audience = True, er_owner_ids = [],
      er_scope = delivery_scope_to_i32 ScopeCanonicalProgress\<rparr>"

lemma header_item: "record_item (header_record h) = Some (ScopeCanonicalProgress, EventBlockHeader h)"
  by (simp add: record_item_def header_record_def record_event_def delivery_scope_try_from_def)

theorem header_progress_parents_may_differ:
  assumes "wf_event env (EventBlockHeader h)" and "bh_block h = Some b" and "length parent = 32"
  shows "is_ok (validate_data_payload env ds
    \<lparr>dp_records = [header_record h, progress_record (b\<lparr>br_parent_hash := parent\<rparr>)]\<rparr>)"
proof -
  let ?p = "EventBlockProgress \<lparr>bp_block = Some (b\<lparr>br_parent_hash := parent\<rparr>)\<rparr>"
  have block: "wf_block b" using assms(1,2) by (simp add: wf_event_def)
  have "wf_record env owners (header_record h)" for owners
    using assms(1) by (simp add: wf_record_def header_item) (simp add: header_record_def)
  moreover have "wf_record env owners (progress_record (b\<lparr>br_parent_hash := parent\<rparr>))" for owners
    using block assms(3) by (simp add: wf_record_def progress_item wf_event_def wf_block_def) (simp add: progress_record_def)
  moreover have "follows (EventBlockHeader h) ?p"
    using assms(2) by (simp add: follows_def event_order_def event_number_def event_identity_def event_block_def less_eq_prod_def)
  moreover have "covered_records [(ScopeCanonicalProgress, EventBlockHeader h), (ScopeCanonicalProgress, ?p)]"
    by (auto simp: covered_records_def canonical_items_def is_block_event_def)
  ultimately show ?thesis
    unfolding validate_data_payload_iff by (simp add: header_item progress_item)
qed

text \<open>
  C13: The payload scan accepts a data delivery exactly when every record is well formed (a known
  scope, an audience that is the canonical broadcast or a nonempty set of distinct
  authoritative owners, an event whose hashes have the right width and whose consensus header
  encodes the block it names), later records follow earlier ones (canonical event order, one
  hash and timestamp per height, no log, header or progress record twice, one transaction per hash
  and index), and canonical records are certified by a block identity at or above them. The parent
  hash of a progress record is not part of what is compared, although the protocol document asks
  for equal block references at one height.
\<close>

theorem validate_data_payload_exact:
  "is_ok (validate_data_payload env ds data) \<longleftrightarrow>
     dp_records data \<noteq> [] \<and>
     list_all (wf_record env (oi_owner_id ` {owner \<in> set (ads_owners ds). \<not> oi_canonical owner})) (dp_records data) \<and>
     sorted_wrt (\<lambda>a b. follows (snd a) (snd b)) (List.map_filter record_item (dp_records data)) \<and>
     covered_records (List.map_filter record_item (dp_records data))"
  by (rule validate_data_payload_iff)

end
