(* ===== verification/Store_Migration.thy ===== *)
theory Store_Migration
  imports Session_Store
begin

text \<open>
  Opening the session database: \<open>SessionStore::from_connection\<close> and \<open>migrate_sessions_table\<close> of
  \<open>event-service/src/session_store.rs\<close>. The schema is data here: a table has named columns with
  their position in the primary key, and a row maps column names to SQLite values. Opening
  creates the table or brings an older one to the current schema in one transaction.
\<close>

section \<open>Databases\<close>

datatype SqlValue = SqlNull | SqlInteger i64 | SqlBlob bytes | SqlText string

type_synonym SqlRow = "string \<rightharpoonup> SqlValue"

record SqlTable =
  tbl_columns :: "(string \<times> nat) list"
  tbl_rows :: "SqlRow list"

record SqlDatabase =
  db_user_version :: nat
  db_sessions :: "SqlTable option"

datatype OpenCall = ConfigureConnection | ReadUserVersion | OpenTransaction | FindTable | CreateTable
  | ReadColumns | AlterTable string | MovePending | CopyRuntime | WriteUserVersion | CommitOpen

definition SESSION_SCHEMA_VERSION :: nat where
  "SESSION_SCHEMA_VERSION = 3"

definition open_sql :: "(OpenCall \<Rightarrow> bool) \<Rightarrow> OpenCall \<Rightarrow> SessionStoreError + unit" where
  "open_sql fails call = ensure (\<not> fails call) Database"

definition current_columns :: "(string \<times> nat) list" where
  "current_columns =
     [(''session_id'', 1), (''chain_id'', 2), (''revision'', 0), (''desired_state'', 0),
      (''acknowledged_cursor'', 0), (''runtime_checkpoint_cursor'', 0), (''pending_delivery'', 0),
      (''activation_sequence'', 0), (''expected_reorg_tip'', 0)]"

definition additions :: "(string \<times> SqlValue) list" where
  "additions =
     [(''revision'', SqlInteger 0), (''desired_state'', SqlNull), (''acknowledged_cursor'', SqlNull),
      (''runtime_checkpoint_cursor'', SqlNull), (''pending_delivery'', SqlNull),
      (''activation_sequence'', SqlInteger 0), (''expected_reorg_tip'', SqlNull)]"

section \<open>Migration\<close>

definition set_column :: "string \<times> SqlValue \<Rightarrow> SqlRow \<Rightarrow> SqlRow" where
  "set_column c row = row(fst c \<mapsto> snd c)"

definition add_column :: "string \<times> SqlValue \<Rightarrow> SqlTable \<Rightarrow> SqlTable" where
  "add_column c t =
     t\<lparr>tbl_columns := tbl_columns t @ [(fst c, 0)], tbl_rows := map (set_column c) (tbl_rows t)\<rparr>"

definition add_missing ::
    "(OpenCall \<Rightarrow> bool) \<Rightarrow> (string \<rightharpoonup> nat) \<Rightarrow> string \<times> SqlValue \<Rightarrow> SqlTable \<Rightarrow> SessionStoreError + SqlTable" where
  "add_missing fails columns c t =
     (if columns (fst c) \<noteq> None then Ok t
      else bind_res (open_sql fails (AlterTable (fst c))) (\<lambda>_. Ok (add_column c t)))"

definition update_null :: "string \<Rightarrow> string \<Rightarrow> SqlRow \<Rightarrow> SqlRow" where
  "update_null target source row =
     (if row target = Some SqlNull then row(target := row source) else row)"

definition migrate_sessions_table ::
    "(OpenCall \<Rightarrow> bool) \<Rightarrow> SqlTable \<Rightarrow> SessionStoreError + SqlTable" where
  "migrate_sessions_table fails t =
     bind_res (open_sql fails ReadColumns) (\<lambda>_.
     let columns = map_of (tbl_columns t) in
     bind_res (fold_res (\<lambda>required _.
         if columns required = None
           then Err (Schema (''sessions table is missing required `'' @ required @ ''` column''))
         else Ok ()) [''session_id'', ''chain_id''] ()) (\<lambda>_.
     if columns ''session_id'' \<noteq> Some 1 \<or> columns ''chain_id'' \<noteq> Some 2 \<or>
        list_ex (\<lambda>position. 2 < position) (map snd (tbl_columns t))
       then Err (Schema ''sessions table must use PRIMARY KEY (session_id, chain_id)'')
     else
       bind_res (fold_res (add_missing fails columns) additions t) (\<lambda>t.
       bind_res (if columns ''pending_batch'' \<noteq> None \<and> columns ''pending_delivery'' = None
           then bind_res (open_sql fails MovePending) (\<lambda>_.
             Ok (t\<lparr>tbl_rows := map (update_null ''pending_delivery'' ''pending_batch'') (tbl_rows t)\<rparr>))
           else Ok t) (\<lambda>t.
       if columns ''runtime_checkpoint_cursor'' = None
         then bind_res (open_sql fails CopyRuntime) (\<lambda>_.
           Ok (t\<lparr>tbl_rows := map (update_null ''runtime_checkpoint_cursor'' ''acknowledged_cursor'') (tbl_rows t)\<rparr>))
         else Ok t))))"

definition from_connection :: "(OpenCall \<Rightarrow> bool) \<Rightarrow> SqlDatabase \<Rightarrow> SessionStoreError + SqlDatabase" where
  "from_connection fails db =
     bind_res (open_sql fails ConfigureConnection) (\<lambda>_.
     bind_res (open_sql fails ReadUserVersion) (\<lambda>_.
     if SESSION_SCHEMA_VERSION < db_user_version db
       then Err (Schema (''database schema version '' @ decimal (db_user_version db) @
         '' is newer than supported version '' @ decimal SESSION_SCHEMA_VERSION))
     else
       bind_res (open_sql fails OpenTransaction) (\<lambda>_.
       bind_res (open_sql fails FindTable) (\<lambda>_.
       bind_res (case db_sessions db of
           None \<Rightarrow> bind_res (open_sql fails CreateTable) (\<lambda>_. Ok \<lparr>tbl_columns = current_columns, tbl_rows = []\<rparr>)
         | Some t \<Rightarrow> migrate_sessions_table fails t) (\<lambda>t.
       bind_res (open_sql fails WriteUserVersion) (\<lambda>_.
       bind_res (open_sql fails CommitOpen) (\<lambda>_.
       Ok \<lparr>db_user_version = SESSION_SCHEMA_VERSION, db_sessions = Some t\<rparr>)))))))"

section \<open>Reading typed rows\<close>

text \<open>What \<open>load\<close> reads of a row; a column of the wrong type is a database error there.\<close>

definition sql_blob :: "SqlRow \<Rightarrow> string \<Rightarrow> bytes option option" where
  "sql_blob row c =
     (case row c of Some SqlNull \<Rightarrow> Some None | Some (SqlBlob b) \<Rightarrow> Some (Some b) | _ \<Rightarrow> None)"

definition sql_int :: "SqlRow \<Rightarrow> string \<Rightarrow> i64 option" where
  "sql_int row c = (case row c of Some (SqlInteger n) \<Rightarrow> Some n | _ \<Rightarrow> None)"

definition typed_row :: "SqlRow \<Rightarrow> SessionRow option" where
  "typed_row row =
     Option.bind (sql_int row ''revision'') (\<lambda>revision.
     Option.bind (sql_blob row ''desired_state'') (\<lambda>desired_state.
     Option.bind (sql_blob row ''acknowledged_cursor'') (\<lambda>acknowledged_cursor.
     Option.bind (sql_blob row ''runtime_checkpoint_cursor'') (\<lambda>runtime_checkpoint_cursor.
     Option.bind (sql_blob row ''pending_delivery'') (\<lambda>pending_delivery.
     Option.bind (sql_int row ''activation_sequence'') (\<lambda>activation_sequence.
     Option.bind (sql_blob row ''expected_reorg_tip'') (\<lambda>expected_reorg_tip.
     Some \<lparr>row_revision = revision, row_desired_state = desired_state,
       row_acknowledged_cursor = acknowledged_cursor, row_runtime_checkpoint_cursor = runtime_checkpoint_cursor,
       row_pending_delivery = pending_delivery, row_activation_sequence = activation_sequence,
       row_expected_reorg_tip = expected_reorg_tip\<rparr>)))))))"

section \<open>What migration does to the table\<close>

definition missing :: "SqlTable \<Rightarrow> (string \<times> SqlValue) list" where
  "missing t = filter (\<lambda>c. map_of (tbl_columns t) (fst c) = None) additions"

definition wf_key :: "SqlTable \<Rightarrow> bool" where
  "wf_key t \<longleftrightarrow> map_of (tbl_columns t) ''session_id'' = Some 1 \<and> map_of (tbl_columns t) ''chain_id'' = Some 2 \<and>
     (\<forall>c \<in> set (tbl_columns t). snd c \<le> 2)"

text \<open>One row through the migration: defaults for the new columns, then the two copies.\<close>

definition migrated_row :: "SqlTable \<Rightarrow> SqlRow \<Rightarrow> SqlRow" where
  "migrated_row t row =
     (let row1 = fold set_column (missing t) row;
          row2 = (if map_of (tbl_columns t) ''pending_batch'' \<noteq> None \<and> map_of (tbl_columns t) ''pending_delivery'' = None
            then update_null ''pending_delivery'' ''pending_batch'' row1 else row1) in
      if map_of (tbl_columns t) ''runtime_checkpoint_cursor'' = None
        then update_null ''runtime_checkpoint_cursor'' ''acknowledged_cursor'' row2 else row2)"

lemma fold_add_missing:
  assumes "\<And>call. \<not> fails call"
  shows "fold_res (add_missing fails columns) cs t =
    Ok (t\<lparr>tbl_columns := tbl_columns t @ map (\<lambda>c. (fst c, 0)) (filter (\<lambda>c. columns (fst c) = None) cs),
          tbl_rows := map (fold set_column (filter (\<lambda>c. columns (fst c) = None) cs)) (tbl_rows t)\<rparr>)"
proof (induction cs arbitrary: t)
  case Nil
  then show ?case by simp
next
  case (Cons c cs)
  show ?case
  proof (cases "columns (fst c) = None")
    case True
    then have "add_missing fails columns c t = Ok (add_column c t)"
      using assms by (simp add: add_missing_def open_sql_def)
    then show ?thesis using True Cons [of "add_column c t"] by (simp add: add_column_def comp_def)
  next
    case False
    then show ?thesis using Cons [of t] by (auto simp: add_missing_def)
  qed
qed

lemma migrate_conv:
  assumes "\<And>call. \<not> fails call" and "wf_key t"
  shows "migrate_sessions_table fails t =
    Ok (t\<lparr>tbl_columns := tbl_columns t @ map (\<lambda>c. (fst c, 0)) (missing t), tbl_rows := map (migrated_row t) (tbl_rows t)\<rparr>)"
proof -
  have wide: "\<not> list_ex (\<lambda>position. 2 < position) (map snd (tbl_columns t))"
    using assms(2) by (auto simp: wf_key_def list_ex_iff not_less)
  show ?thesis
    using assms wide
    by (cases "map_of (tbl_columns t) ''pending_batch''"; cases "map_of (tbl_columns t) ''pending_delivery''";
        cases "map_of (tbl_columns t) ''runtime_checkpoint_cursor''")
       (simp_all add: migrate_sessions_table_def open_sql_def wf_key_def fold_add_missing [OF assms(1)]
         missing_def [symmetric] migrated_row_def [abs_def] Let_def comp_def)
qed

lemma migrate_refuses:
  assumes "\<not> wf_key t" and "\<not> fails ReadColumns"
  shows "\<exists>why. migrate_sessions_table fails t = Err (Schema why)"
  using assms by (auto simp: migrate_sessions_table_def open_sql_def wf_key_def Let_def list_ex_iff not_le)


section \<open>Nothing is lost\<close>

lemma fold_set_column: "map_of cs c = None \<Longrightarrow> fold set_column cs row c = row c"
  by (induction cs arbitrary: row) (auto simp: set_column_def split: if_splits)

lemma map_of_missing:
  assumes "map_of (tbl_columns t) c \<noteq> None"
  shows "map_of (missing t) c = None"
proof -
  have "c \<notin> fst ` set (missing t)" using assms by (auto simp: missing_def)
  then show ?thesis by (simp add: map_of_eq_None_iff)
qed

lemma fold_set_column_in:
  "distinct (map fst cs) \<Longrightarrow> (c, v) \<in> set cs \<Longrightarrow> fold set_column cs row c = Some v"
proof (induction cs arbitrary: row)
  case Nil
  then show ?case by simp
next
  case (Cons d ds)
  show ?case
  proof (cases "d = (c, v)")
    case True
    then have "map_of ds c = None" using Cons.prems(1) by (simp add: map_of_eq_None_iff)
    with True show ?thesis by (simp add: fold_set_column) (simp add: set_column_def)
  next
    case False
    with Cons show ?thesis by simp
  qed
qed

lemma fold_missing_value:
  assumes "(c, v) \<in> set additions" and "map_of (tbl_columns t) c = None"
  shows "fold set_column (missing t) row c = Some v"
proof (rule fold_set_column_in)
  show "distinct (map fst (missing t))"
    unfolding missing_def by (rule distinct_map_filter) (simp add: additions_def)
  show "(c, v) \<in> set (missing t)" using assms by (simp add: missing_def)
qed

lemma update_null_other: "c \<noteq> target \<Longrightarrow> update_null target source row c = row c"
  by (simp add: update_null_def)

lemma additions_null:
  "(''runtime_checkpoint_cursor'', SqlNull) \<in> set additions" "(''pending_delivery'', SqlNull) \<in> set additions"
  by (simp_all add: additions_def)

lemma migrated_row_keeps:
  assumes "map_of (tbl_columns t) c \<noteq> None"
  shows "migrated_row t row c = row c"
proof -
  have c: "map_of (tbl_columns t) target = None \<Longrightarrow> c \<noteq> target" for target using assms by auto
  show ?thesis
    using fold_set_column [OF map_of_missing [OF assms], of row] c
    by (simp add: migrated_row_def Let_def update_null_other)
qed

lemma migrated_row_runtime:
  assumes "map_of (tbl_columns t) ''runtime_checkpoint_cursor'' = None"
  shows "migrated_row t row ''runtime_checkpoint_cursor'' = migrated_row t row ''acknowledged_cursor''"
  using fold_missing_value [OF additions_null(1) assms, of row] assms
  by (simp add: migrated_row_def Let_def update_null_def)

lemma migrated_row_pending:
  assumes "map_of (tbl_columns t) ''pending_delivery'' = None" and "map_of (tbl_columns t) ''pending_batch'' \<noteq> None"
  shows "migrated_row t row ''pending_delivery'' = row ''pending_batch''"
  using fold_missing_value [OF additions_null(2) assms(1), of row] assms fold_set_column [OF map_of_missing [OF assms(2)], of row]
  by (simp add: migrated_row_def Let_def update_null_def)

text \<open>A row of the first schema reads as a session with its pending batch in flight.\<close>

lemma migrated_row_default:
  assumes "(c, v) \<in> set additions" and "map_of (tbl_columns t) c = None"
    and "c \<noteq> ''runtime_checkpoint_cursor''" and "c \<noteq> ''pending_delivery''"
  shows "migrated_row t row c = Some v"
  using fold_missing_value [OF assms(1,2), of row] assms(3,4)
  by (simp add: migrated_row_def Let_def update_null_other)

lemma legacy_row_reads:
  assumes old: "\<And>c. c \<in> {''revision'', ''desired_state'', ''acknowledged_cursor'', ''pending_batch''} \<Longrightarrow>
      map_of (tbl_columns t) c \<noteq> None"
    and new: "\<And>c. c \<in> {''runtime_checkpoint_cursor'', ''pending_delivery'', ''activation_sequence'', ''expected_reorg_tip''} \<Longrightarrow>
      map_of (tbl_columns t) c = None"
    and row: "sql_int row ''revision'' = Some revision" "sql_blob row ''desired_state'' = Some desired"
      "sql_blob row ''acknowledged_cursor'' = Some acked" "sql_blob row ''pending_batch'' = Some pending"
  shows "typed_row (migrated_row t row) = Some \<lparr>row_revision = revision, row_desired_state = desired,
    row_acknowledged_cursor = acked, row_runtime_checkpoint_cursor = acked, row_pending_delivery = pending,
    row_activation_sequence = 0, row_expected_reorg_tip = None\<rparr>"
proof -
  have kept: "migrated_row t row ''revision'' = row ''revision''" "migrated_row t row ''desired_state'' = row ''desired_state''"
      "migrated_row t row ''acknowledged_cursor'' = row ''acknowledged_cursor''"
    by (intro migrated_row_keeps old; simp)+
  have added: "migrated_row t row ''activation_sequence'' = Some (SqlInteger 0)" "migrated_row t row ''expected_reorg_tip'' = Some SqlNull"
    by (intro migrated_row_default new; simp add: additions_def)+
  have runtime: "migrated_row t row ''runtime_checkpoint_cursor'' = row ''acknowledged_cursor''"
    unfolding kept(3) [symmetric] by (intro migrated_row_runtime new) simp
  have pending: "migrated_row t row ''pending_delivery'' = row ''pending_batch''"
    by (intro migrated_row_pending new old; simp)
  have eqs: "sql_int (migrated_row t row) ''revision'' = Some revision" "sql_blob (migrated_row t row) ''desired_state'' = Some desired"
      "sql_blob (migrated_row t row) ''acknowledged_cursor'' = Some acked"
      "sql_blob (migrated_row t row) ''runtime_checkpoint_cursor'' = Some acked"
      "sql_blob (migrated_row t row) ''pending_delivery'' = Some pending"
      "sql_int (migrated_row t row) ''activation_sequence'' = Some 0" "sql_blob (migrated_row t row) ''expected_reorg_tip'' = Some None"
    using row unfolding sql_int_def sql_blob_def kept added runtime pending by simp_all
  show ?thesis by (simp add: typed_row_def eqs)
qed

text \<open>A migrated table needs no migration.\<close>

lemma migrate_current:
  assumes "missing t = []" and "map_of (tbl_columns t) ''pending_delivery'' \<noteq> None"
    "map_of (tbl_columns t) ''runtime_checkpoint_cursor'' \<noteq> None"
  shows "migrated_row t row = row"
  using assms by (auto simp: migrated_row_def Let_def)

lemma missing_after:
  assumes "tbl_columns t' = tbl_columns t @ map (\<lambda>c. (fst c, 0)) (missing t)"
  shows "missing t' = []" and "fst ` set additions \<subseteq> dom (map_of (tbl_columns t'))"
proof -
  have "map_of (tbl_columns t') (fst c) \<noteq> None" if "c \<in> set additions" for c
  proof (cases "map_of (tbl_columns t) (fst c)")
    case None
    then have "c \<in> set (missing t)" using that by (simp add: missing_def)
    then have "fst c \<in> fst ` set (tbl_columns t')" by (simp add: assms image_Un image_image)
    then show ?thesis by (simp only: map_of_eq_None_iff not_not)
  next
    case (Some n)
    then show ?thesis by (simp add: assms)
  qed
  then show "missing t' = []" and "fst ` set additions \<subseteq> dom (map_of (tbl_columns t'))"
    by (auto simp: missing_def filter_empty_conv)
qed

section \<open>Properties\<close>

lemma wf_key_columns: "wf_key t \<Longrightarrow> {''session_id'', ''chain_id''} \<subseteq> dom (map_of (tbl_columns t))"
  by (auto simp: wf_key_def)

text \<open>
  C38: Opening an older database is lossless and idempotent. When the table has the expected
  primary key and SQLite works, opening succeeds at the current schema version with every
  current column present and as many rows; every column the table had keeps its value in every
  row; a legacy pending batch becomes the pending delivery, and without a runtime checkpoint
  column the acknowledged cursor becomes the runtime checkpoint. Opening the result again
  changes nothing.
\<close>

theorem migration_lossless:
  assumes "\<And>call. \<not> fails call" and "db_user_version db \<le> SESSION_SCHEMA_VERSION"
    and "db_sessions db = Some t" and "wf_key t"
  shows "\<exists>t'. from_connection fails db = Ok \<lparr>db_user_version = SESSION_SCHEMA_VERSION, db_sessions = Some t'\<rparr> \<and>
    {''session_id'', ''chain_id'', ''revision'', ''desired_state'', ''acknowledged_cursor'', ''runtime_checkpoint_cursor'',
      ''pending_delivery'', ''activation_sequence'', ''expected_reorg_tip''} \<subseteq> dom (map_of (tbl_columns t')) \<and>
    length (tbl_rows t') = length (tbl_rows t) \<and>
    (\<forall>i < length (tbl_rows t).
       (\<forall>c. map_of (tbl_columns t) c \<noteq> None \<longrightarrow> (tbl_rows t' ! i) c = (tbl_rows t ! i) c) \<and>
       (map_of (tbl_columns t) ''pending_delivery'' = None \<longrightarrow> map_of (tbl_columns t) ''pending_batch'' \<noteq> None \<longrightarrow>
          (tbl_rows t' ! i) ''pending_delivery'' = (tbl_rows t ! i) ''pending_batch'') \<and>
       (map_of (tbl_columns t) ''runtime_checkpoint_cursor'' = None \<longrightarrow>
          (tbl_rows t' ! i) ''runtime_checkpoint_cursor'' = (tbl_rows t' ! i) ''acknowledged_cursor'')) \<and>
    from_connection fails \<lparr>db_user_version = SESSION_SCHEMA_VERSION, db_sessions = Some t'\<rparr> =
      Ok \<lparr>db_user_version = SESSION_SCHEMA_VERSION, db_sessions = Some t'\<rparr>"
proof -
  define t' where "t' = t\<lparr>tbl_columns := tbl_columns t @ map (\<lambda>c. (fst c, 0)) (missing t),
    tbl_rows := map (migrated_row t) (tbl_rows t)\<rparr>"
  have opens: "from_connection fails \<lparr>db_user_version = v, db_sessions = Some u\<rparr> =
      bind_res (migrate_sessions_table fails u) (\<lambda>u'. Ok \<lparr>db_user_version = SESSION_SCHEMA_VERSION, db_sessions = Some u'\<rparr>)"
    if "v \<le> SESSION_SCHEMA_VERSION" for v u
    using assms(1) that by (simp add: from_connection_def open_sql_def bind_res_def)
  have first: "migrate_sessions_table fails t = Ok t'" using migrate_conv [OF assms(1,4)] by (simp add: t'_def)
  have after: "missing t' = []" "fst ` set additions \<subseteq> dom (map_of (tbl_columns t'))"
    using missing_after [of t' t] by (simp_all add: t'_def)
  have key: "wf_key t'" using assms(4) by (auto simp: wf_key_def t'_def)
  have cols: "map_of (tbl_columns t') ''pending_delivery'' \<noteq> None" "map_of (tbl_columns t') ''runtime_checkpoint_cursor'' \<noteq> None"
    using after(2) by (auto simp: additions_def)
  have again: "migrate_sessions_table fails t' = Ok t'"
    using migrate_conv [OF assms(1) key] migrate_current [OF after(1) cols] by (simp add: after(1) map_idI)
  have "db = \<lparr>db_user_version = db_user_version db, db_sessions = Some t\<rparr>" using assms(3) by simp
  then have "from_connection fails db = Ok \<lparr>db_user_version = SESSION_SCHEMA_VERSION, db_sessions = Some t'\<rparr>"
    using opens [OF assms(2), of t] first by simp
  moreover have "from_connection fails \<lparr>db_user_version = SESSION_SCHEMA_VERSION, db_sessions = Some t'\<rparr> =
      Ok \<lparr>db_user_version = SESSION_SCHEMA_VERSION, db_sessions = Some t'\<rparr>"
    using opens [of SESSION_SCHEMA_VERSION t'] again by simp
  moreover have rows: "tbl_rows t' ! i = migrated_row t (tbl_rows t ! i)" if "i < length (tbl_rows t)" for i
    using that by (simp add: t'_def)
  moreover have "{''session_id'', ''chain_id'', ''revision'', ''desired_state'', ''acknowledged_cursor'',
      ''runtime_checkpoint_cursor'', ''pending_delivery'', ''activation_sequence'', ''expected_reorg_tip''} \<subseteq>
    dom (map_of (tbl_columns t'))"
    using after(2) wf_key_columns [OF key] by (auto simp: additions_def)
  ultimately show ?thesis
    by (intro exI [of _ t']) (simp add: rows migrated_row_keeps migrated_row_pending migrated_row_runtime t'_def)
qed

definition legacy_table :: SqlTable where
  "legacy_table =
     \<lparr>tbl_columns = [(''session_id'', 1), (''chain_id'', 2), (''revision'', 0), (''desired_state'', 0),
        (''acknowledged_cursor'', 0), (''pending_batch'', 0)],
      tbl_rows = [[''session_id'' \<mapsto> SqlText ''s'', ''chain_id'' \<mapsto> SqlInteger 1, ''revision'' \<mapsto> SqlInteger 4,
        ''desired_state'' \<mapsto> SqlBlob [1], ''acknowledged_cursor'' \<mapsto> SqlBlob [2], ''pending_batch'' \<mapsto> SqlBlob [3]]]\<rparr>"

theorem migration_lossless_witness:
  "\<exists>t'. wf_key legacy_table \<and>
     from_connection (\<lambda>_. False) \<lparr>db_user_version = 1, db_sessions = Some legacy_table\<rparr> =
       Ok \<lparr>db_user_version = 3, db_sessions = Some t'\<rparr> \<and>
     (tbl_rows t' ! 0) ''pending_delivery'' = Some (SqlBlob [3]) \<and>
     (tbl_rows t' ! 0) ''runtime_checkpoint_cursor'' = (tbl_rows t' ! 0) ''acknowledged_cursor''"
proof -
  have key: "wf_key legacy_table" by (auto simp: wf_key_def legacy_table_def)
  have facts: "length (tbl_rows legacy_table) = 1" "map_of (tbl_columns legacy_table) ''pending_delivery'' = None"
      "map_of (tbl_columns legacy_table) ''pending_batch'' \<noteq> None"
      "map_of (tbl_columns legacy_table) ''runtime_checkpoint_cursor'' = None"
      "(tbl_rows legacy_table ! 0) ''pending_batch'' = Some (SqlBlob [3])"
    by (simp_all add: legacy_table_def)
  from migration_lossless [of "\<lambda>_. False" "\<lparr>db_user_version = 1, db_sessions = Some legacy_table\<rparr>" legacy_table, OF _ _ _ key] facts key
  show ?thesis by (auto simp: SESSION_SCHEMA_VERSION_def)
qed

end
