(* ===== verification/Spec2Isabelle.thy ===== *)
theory Spec2Isabelle
  imports Engine_Invariant Service_Properties Payload_Spec Store_Migration Self_Delimiting
begin

text \<open>
  Verification of the EVM event service.

  \<^bold>\<open>The program.\<close> A client of the service keeps a runtime that reacts to logs and
  blocks of one chain. It declares the events it wants as a desired state of owners with interests; the
  service stores the state, queries a HyperSync provider for the matching events, and sends them as
  numbered deliveries, one at a time, each repeated until its acknowledgement is committed. When the
  provider's chain reorganises, a control that names the common ancestor is sent before the replacement.
  The crates under \<open>src/crates\<close> are \<open>protocol\<close> (the messages),
  \<open>hypersync\<close> (the source side), \<open>event-service\<close> (sessions, storage, streams)
  and \<open>remote\<close> (the subscriber on the client's side).

  \<^bold>\<open>How the parts interact.\<close> A stream of \<open>service.rs\<close> takes the lease
  of a session, loads its row from the store of \<open>session_store.rs\<close>, and from then on asks
  the source for deliveries, saves each in the row before it is sent, and commits acknowledgements and
  desired states to the row before it answers. The source of a session is the engine of
  \<open>source_engine.rs\<close>: it compiles the desired state into a query
  (\<open>query_plan.rs\<close>), admits the page the provider returns
  (\<open>page_validation.rs\<close>), applies its blocks to the retained history
  (\<open>canonical.rs\<close>), and normalises it into a delivery (\<open>normalize.rs\<close>) whose
  cursor carries the encoded history for a restart.

  \<^bold>\<open>Conventions.\<close> A struct is a \<open>record\<close> whose fields have a short
  prefix, an enum a \<open>datatype\<close>; \<open>u64\<close>, \<open>u32\<close> and
  \<open>u8\<close> are words, \<open>usize\<close> is \<open>nat\<close> with \<open>usize_max\<close>
  written out where the sources saturate or check; a \<open>BTreeMap\<close> is a sorted association
  list, a \<open>HashMap\<close> a map. A \<open>Result\<close> is a sum with \<open>Err\<close> and
  \<open>Ok\<close>, and every error of the sources is an error value of the model; an
  \<open>expect\<close> of the sources is a \<open>Panic\<close> value. A method is a function that
  returns the new state. What other systems answer is an argument, an arbitrary function or choice per
  call, so that the theorems hold for every answer and every failure.

  \<^bold>\<open>Prelude and messages.\<close> \<open>Prelude\<close> has the machine integers and byte
  strings, \<open>Result\<close> and its laws, the collection \<open>result_simps\<close>, sorted maps,
  and the locales \<open>byte_codec\<close> and \<open>fixed_codec\<close>. \<open>Wire\<close> has the
  messages of \<open>evm_fork_cache_events_v1.proto\<close>. \<open>Self_Delimiting\<close> gives an
  encoding of them that meets the codec laws which the store assumes of protobuf, so that these laws can
  hold.

  \<^bold>\<open>The source side\<close> (\<open>src/crates/hypersync/src\<close>).
  \<^item> \<open>Canonical\<close>: \<open>canonical.rs\<close>, the bounded block history. The locale
    \<open>chain_history\<close> is its contract; a page is refined by a graft of chains, is applied
    whenever it is anchored and linked and never panics, a reorganisation is reported exactly when a
    retained block is lost, and the retained blocks restore the history.
  \<^item> \<open>Checkpoint\<close>: the opaque source checkpoint of \<open>normalize.rs\<close> in
    both formats; interpretations of the codec locales give its round trip and its canonicity.
  \<^item> \<open>Audience\<close>: interest matching, owner activity, scope and audience of an event in
    \<open>normalize.rs\<close>, against a specification on the messages alone.
  \<^item> \<open>Query_Plan\<close>: \<open>query_plan.rs\<close>; the compiled query asks for exactly
    the logs of the interests, and compilation is total and bounded.
  \<^item> \<open>Source_Page\<close>, \<open>Page_Validation\<close>, \<open>Normalize\<close>:
    provider pages and their field readers, \<open>page_validation.rs\<close> against a declarative
    specification of a page, and the normalisation of \<open>normalize.rs\<close>: routing, order,
    authentic headers, and totality on admitted pages.
  \<^item> \<open>Source_Limits\<close>, \<open>Source_Engine\<close>: \<open>source_engine.rs\<close>,
    first its response and query limits, where the byte count is exact for a memory specification read
    off the row types, then every operation of the engine. \<open>Engine_Recovery\<close> shows that the
    binary search for the fork point is correct within a logarithmic number of queries.
    \<open>Engine_Invariant\<close> has the reachable states and their invariant and interprets the
    locale \<open>in_flight_source\<close>, the at-least-once contract: consecutive acknowledgements,
    replay until acknowledged, a reorg control before the replacement of a displaced branch and only
    then, and the delivery budget.

  \<^bold>\<open>The service\<close> (\<open>src/crates/event-service/src\<close>).
  \<^item> \<open>Desired_State\<close>: \<open>desired_state.rs\<close>, validation equal to
    well-formedness, and the registry as an instance of the locale \<open>cas_authority\<close>.
  \<^item> \<open>Delivery_Validation\<close>, \<open>Payload_Spec\<close>: the delivery checks of
    \<open>session_store.rs\<close>, and what the scan of a data payload accepts.
  \<^item> \<open>Session_Store\<close>, \<open>Session_Invariant\<close>, \<open>Outbox\<close>,
    \<open>Store_Properties\<close>: the table of \<open>session_store.rs\<close> with every operation
    and every SQLite failure. It refines an abstract one-place outbox, every row it can reach loads, a
    delivery stays until it is acknowledged, acknowledging again changes nothing, a promised replacement
    is kept until it is certified, and the store is the second instance of \<open>cas_authority\<close>.
    \<open>Store_Migration\<close> is opening and migration.
  \<^item> \<open>Service_Protocol\<close>, \<open>Event_Service\<close>: \<open>service.rs\<close>,
    first its limits, resume positions and error answers, then the session task as a state machine.
    \<open>Service_Invariant\<close> shows what one step keeps, \<open>Service_Properties\<close> the
    system of any number of tasks with shutdown, poisoned locks and restarts: requests from committed
    state, exclusive sessions, reports of durable state only, commits by proven owners only, resume
    positions and resource limits.

  \<^bold>\<open>Granularity of the concurrent model.\<close> An operation of the engine runs to
  completion: a session's engine is used by one task at a time. A session task is cut at the select, at
  every call of the source and at the first wait for the store lock. The waits of
  \<open>send_outbound\<close> and of later store locks are merged into the neighbouring step: around
  them the task touches its own variables only, and its lease keeps other tasks from its row, so these
  waits commute with the steps of other tasks as far as the store goes. The session gauge is counted in
  the step that registers the lease, while the code counts right after it has unlocked the registry.
  \<open>Event_Service\<close> has the details.

  \<^bold>\<open>Termination and bounds.\<close> Loops of the sources are structural recursion, or
  functions whose measure shrinks (the history truncation, the decoders, the binary search, the
  shrinking query limits). Nothing is cut off by fuel: the number called \<open>fuel\<close> in
  \<open>Engine_Recovery\<close> only bounds the requests of a search. Where a theorem asks that a limit
  is below the largest \<open>usize\<close>, a limit equal to it would let a saturating counter hide an
  overflow.

  \<^bold>\<open>Parameters and their hypotheses.\<close> Protobuf and RLP encodings, with decoding as
  their inverse (\<open>codec_laws\<close>); Keccak-256 and header RLP in the normaliser; encoded
  lengths, of which the budget theorem asks how much they grow when a delivery is renumbered
  (\<open>renumbering_growth\<close>; with varints this is a few bytes); memory layout; the HyperSync
  filter builder (\<open>builder_laws\<close>: a call replaces one field, an empty field admits
  everything); the provider's answers; SQLite failures; the authorizer; clocks, which appear only as the
  events they cause. Each hypothesis has a concrete instance in a witness.

  \<^bold>\<open>Differences found.\<close> The store compares hash and timestamp of the records of a
  height, not their parent hashes, while the protocol document asks for equal block references
  (\<open>header_progress_parents_may_differ\<close>). The replacement behind a reorg control is
  measured before it is renumbered and not again, so it may exceed the budget by the growth of its
  encoding.

  \<^bold>\<open>Not modelled.\<close> The managed provider (\<open>managed_provider.rs\<close>), which
  schedules the engines; the HyperSync client adapter (\<open>hypersync_source.rs\<close>) and the
  command line server, which move messages between the network and the modelled parts; the remote
  subscriber and the hybrid coordinator (\<open>crates/remote\<close>); the generated protobuf and gRPC
  code; logging, metrics export and tests.
\<close>

end
